(* ===== verification/Prelude.thy ===== *)
theory Prelude
  imports Main "HOL-Library.Word" "HOL-Library.Multiset" "HOL-Library.Code_Target_Nat"
    "HOL-Library.Code_Target_Int"
begin

text \<open>
  Shared vocabulary of the NimbusVault development: the machine integer types of the C++
  sources, the exceptions a C++ operation can raise as values of a sum type, the
  \<^verbatim>\<open>std::unordered_map\<close> interface as a locale (\<open>umap_spec\<close>) with the association list that
  models it, \<^verbatim>\<open>std::string::find\<close> on one character, and the two string splitters that the
  sources use (\<^verbatim>\<open>split_nonempty\<close>, \<^verbatim>\<open>split\<close>) with the facts that make the text
  codecs of the other theories invertible.
\<close>

section \<open>Collections of simplification facts\<close>

named_theorems codec_simps \<open>decoding what an encoder wrote\<close>
named_theorems umap_simps \<open>lookups after updates of hash tables\<close>
named_theorems wf_simps \<open>well-formedness of identifiers and payload fields\<close>

section \<open>Machine integers and C++ exceptions\<close>

type_synonym u8 = "8 word"
type_synonym u32 = "32 word"
type_synonym u64 = "64 word"

text \<open>
  What stops a C++ operation: the two exceptions of the \<^verbatim>\<open>std::sto*\<close> functions and of
  \<^verbatim>\<open>substr\<close>, the one for a container that would be too long, a \<^verbatim>\<open>std::runtime_error\<close>, a failed \<^verbatim>\<open>assert\<close>, an access
  outside a buffer (undefined behaviour, kept as a value of its own), and a loop that never ends.
\<close>

datatype cxx_exc =
    Invalid_argument
  | Out_of_range
  | Length_error
  | Runtime_error string
  | Assert_failed
  | Out_of_bounds
  | Diverges

text \<open>Sequencing of operations that may raise: the first exception wins.\<close>

fun ebind :: "'e + 'a \<Rightarrow> ('a \<Rightarrow> 'e + 'b) \<Rightarrow> 'e + 'b" where
  "ebind (Inl e) f = Inl e"
| "ebind (Inr x) f = f x"

lemma ebind_Inr_iff [simp]: "ebind m f = Inr y \<longleftrightarrow> (\<exists>x. m = Inr x \<and> f x = Inr y)"
  by (cases m) auto

lemma ebind_Inl_iff: "ebind m f = Inl e \<longleftrightarrow> m = Inl e \<or> (\<exists>x. m = Inr x \<and> f x = Inl e)"
  by (cases m) auto

lemma ebind_assoc: "ebind (ebind m f) g = ebind m (\<lambda>x. ebind (f x) g)"
  by (cases m) auto

text \<open>A loop over a list whose body threads a state and may raise.\<close>

fun efold :: "('a \<Rightarrow> 's \<Rightarrow> 'e + 's) \<Rightarrow> 'a list \<Rightarrow> 's \<Rightarrow> 'e + 's" where
  "efold f [] s = Inr s"
| "efold f (x # xs) s = ebind (f x s) (efold f xs)"

lemma efold_append: "efold f (xs @ ys) s = ebind (efold f xs s) (efold f ys)"
proof (induction xs arbitrary: s)
  case (Cons x xs)
  then show ?case by (cases "f x s") auto
qed simp

lemma efold_snoc: "efold f (xs @ [x]) s = ebind (efold f xs s) (f x)"
proof (cases "efold f xs s")
  case (Inr t)
  then show ?thesis by (cases "f x t") (simp_all add: efold_append)
qed (simp add: efold_append)

lemma efold_cong: "(\<And>x s. x \<in> set xs \<Longrightarrow> f x s = g x s) \<Longrightarrow> efold f xs s = efold g xs s"
proof (induction xs arbitrary: s)
  case (Cons x xs)
  then have "f x s = g x s" by simp
  with Cons show ?case by (cases "g x s") auto
qed simp

text \<open>
  \<^verbatim>\<open>for (uint64_t i = lo; i <= hi; ++i)\<close>: the indices the loop visits, in order. With
  \<^verbatim>\<open>hi\<close> the greatest 64-bit value the condition never fails, and the loop does not end.
\<close>

definition u64_loop :: "u64 \<Rightarrow> u64 \<Rightarrow> cxx_exc + u64 list" where
  "u64_loop lo hi = (if hi = - 1 then Inl Diverges
     else Inr (map word_of_nat [unat lo ..< Suc (unat hi)]))"

lemma unat_u64_bound: "unat (w :: u64) < 2 ^ 64"
  using unsigned_less [of w] by simp

lemma u64_max_unat: "unat (- 1 :: u64) = 2 ^ 64 - 1"
  by (simp add: unsigned_minus_1_eq_mask mask_eq_exp_minus_1)

lemma u64_not_max: "(w :: u64) \<noteq> - 1 \<longleftrightarrow> Suc (unat w) < 2 ^ 64"
proof -
  have "w = - 1 \<longleftrightarrow> unat w = 2 ^ 64 - 1"
    using u64_max_unat by (metis word_unat_eq_iff)
  moreover have "unat w < 2 ^ 64" by (rule unat_u64_bound)
  ultimately show ?thesis by auto
qed

lemma unat_u64_of_nat: "n < 2 ^ 64 \<Longrightarrow> unat (word_of_nat n :: u64) = n"
  by (simp add: unat_of_nat take_bit_nat_eq_self)

lemma unat_u32_of_nat: "n < 2 ^ 32 \<Longrightarrow> unat (word_of_nat n :: u32) = n"
  by (simp add: unat_of_nat take_bit_nat_eq_self)

lemma unat_u64_Suc: "(w :: u64) \<noteq> - 1 \<Longrightarrow> unat (w + 1) = Suc (unat w)"
  using u64_not_max [of w] by (simp add: unat_word_ariths)

lemma u64_Suc_eq_iff:
  "i < 2 ^ 64 - 1 \<Longrightarrow> j < 2 ^ 64 - 1 \<Longrightarrow> (word_of_nat (Suc i) :: u64) = word_of_nat (Suc j) \<longleftrightarrow> i = j"
proof -
  assume ij: "i < 2 ^ 64 - 1" "j < 2 ^ 64 - 1"
  then have "unat (word_of_nat (Suc i) :: u64) = Suc i" "unat (word_of_nat (Suc j) :: u64) = Suc j"
    using unat_u64_of_nat [of "Suc i"] unat_u64_of_nat [of "Suc j"] by (simp_all del: of_nat_Suc)
  then show ?thesis by (metis Suc_inject)
qed

section \<open>Remote calls\<close>

text \<open>
  What becomes of a remote call: the caller sees the handler's answer, or the handler never runs,
  or it runs and the caller sees a failure all the same.
\<close>

datatype net = Delivered | Request_lost | Response_lost

section \<open>Hash tables\<close>

text \<open>
  What the sources use of \<^verbatim>\<open>std::unordered_map\<close>: \<^verbatim>\<open>find\<close>, assignment through
  \<^verbatim>\<open>operator[]\<close>, \<^verbatim>\<open>erase\<close> and iteration over the values. The locale states the
  laws a client relies on; the association list below models the tables of the program. The
  order of iteration is unspecified in C++; clients that iterate take it as a parameter.
\<close>

locale umap_spec =
  fixes find :: "'m \<Rightarrow> 'k \<Rightarrow> 'v option"
    and assign :: "'k \<Rightarrow> 'v \<Rightarrow> 'm \<Rightarrow> 'm"
    and erase :: "'k \<Rightarrow> 'm \<Rightarrow> 'm"
    and empty :: 'm
  assumes find_empty: "find empty k = None"
    and find_assign: "find (assign k v m) k' = (if k' = k then Some v else find m k')"
    and find_erase: "find (erase k m) k' = (if k' = k then None else find m k')"
begin

lemma assign_shadows: "find (assign k v (assign k w m)) = find (assign k v m)"
  by (rule ext) (simp add: find_assign)

lemma erase_assign: "find (erase k (assign k v m)) = find (erase k m)"
  by (rule ext) (simp add: find_assign find_erase)

lemma assign_commute: "k \<noteq> l \<Longrightarrow> find (assign k v (assign l w m)) = find (assign l w (assign k v m))"
  by (rule ext) (simp add: find_assign)

end

type_synonym ('k, 'v) umap = "('k \<times> 'v) list"

fun um_find :: "('k, 'v) umap \<Rightarrow> 'k \<Rightarrow> 'v option" where
  "um_find [] k = None"
| "um_find ((k', v) # m) k = (if k' = k then Some v else um_find m k)"

fun um_assign :: "'k \<Rightarrow> 'v \<Rightarrow> ('k, 'v) umap \<Rightarrow> ('k, 'v) umap" where
  "um_assign k v [] = [(k, v)]"
| "um_assign k v ((k', w) # m) = (if k' = k then (k, v) # m else (k', w) # um_assign k v m)"

definition um_erase :: "'k \<Rightarrow> ('k, 'v) umap \<Rightarrow> ('k, 'v) umap" where
  "um_erase k m = filter (\<lambda>(k', _). k' \<noteq> k) m"

definition um_values :: "('k, 'v) umap \<Rightarrow> 'v list" where
  "um_values m = map snd m"

text \<open>Every key occurs once, as in the C++ table.\<close>

definition um_wf :: "('k, 'v) umap \<Rightarrow> bool" where
  "um_wf m \<longleftrightarrow> distinct (map fst m)"

lemma um_find_assign [simp]: "um_find (um_assign k v m) k' = (if k' = k then Some v else um_find m k')"
  by (induction m) auto

lemma um_find_erase [simp]: "um_find (um_erase k m) k' = (if k' = k then None else um_find m k')"
  by (induction m) (auto simp: um_erase_def)

interpretation um: umap_spec um_find um_assign um_erase "[]"
  by unfold_locales simp_all

lemma um_assign_keys: "set (map fst (um_assign k v m)) = insert k (set (map fst m))"
proof (induction m)
  case (Cons p m)
  then show ?case by (cases p) auto
qed simp

lemma um_assign_length [simp]: "um_find m k \<noteq> None \<Longrightarrow> length (um_assign k v m) = length m"
proof (induction m)
  case (Cons p m)
  then show ?case by (cases p) (auto split: if_splits)
qed simp

lemma um_wf_assign [simp, intro]: "um_wf m \<Longrightarrow> um_wf (um_assign k v m)"
  unfolding um_wf_def
proof (induction m)
  case (Cons p m)
  obtain k' w where [simp]: "p = (k', w)" by (cases p)
  have "set (map fst (um_assign k v m)) = insert k (set (map fst m))" by (rule um_assign_keys)
  with Cons show ?case by auto
qed simp

lemma um_wf_erase [simp, intro]: "um_wf m \<Longrightarrow> um_wf (um_erase k m)"
  unfolding um_wf_def um_erase_def by (induction m) auto

lemma um_wf_Nil [simp, intro]: "um_wf []"
  by (simp add: um_wf_def)

lemma um_find_Some_iff: "um_wf m \<Longrightarrow> um_find m k = Some v \<longleftrightarrow> (k, v) \<in> set m"
proof (induction m)
  case (Cons p m)
  obtain k' w where [simp]: "p = (k', w)" by (cases p)
  from Cons.prems have k': "k' \<notin> fst ` set m" and wf: "um_wf m" by (auto simp: um_wf_def)
  show ?case
  proof (cases "k' = k")
    case True
    with k' have "(k, v) \<notin> set m" by force
    with True show ?thesis by auto
  next
    case False
    with Cons.IH [OF wf] show ?thesis by auto
  qed
qed simp

lemma um_find_None_iff: "um_find m k = None \<longleftrightarrow> k \<notin> fst ` set m"
proof (induction m)
  case (Cons p m)
  then show ?case by (cases p) auto
qed simp

text \<open>Updating the values of a table in place, as a range-based loop over it does.\<close>

definition um_map :: "('k \<Rightarrow> 'v \<Rightarrow> 'v) \<Rightarrow> ('k, 'v) umap \<Rightarrow> ('k, 'v) umap" where
  "um_map f m = map (\<lambda>(k, v). (k, f k v)) m"

lemma um_find_map [simp]: "um_find (um_map f m) k = map_option (f k) (um_find m k)"
  by (induction m) (auto simp: um_map_def)

lemma um_wf_map [simp]: "um_wf (um_map f m) = um_wf m"
  by (simp add: um_wf_def um_map_def case_prod_beta comp_def)

lemma um_map_length [simp]: "length (um_map f m) = length m"
  by (simp add: um_map_def)

section \<open>Removing a list element\<close>

definition remove_nth :: "nat \<Rightarrow> 'a list \<Rightarrow> 'a list" where
  "remove_nth i xs = take i xs @ drop (Suc i) xs"

lemma set_remove_nth: "set (remove_nth i xs) \<subseteq> set xs"
  by (auto simp: remove_nth_def dest: in_set_takeD in_set_dropD)

section \<open>Finding a character\<close>

text \<open>\<^verbatim>\<open>s.find(c)\<close>; \<open>None\<close> is \<^verbatim>\<open>npos\<close>.\<close>

fun find_char :: "char \<Rightarrow> string \<Rightarrow> nat option" where
  "find_char c [] = None"
| "find_char c (x # s) = (if x = c then Some 0 else map_option Suc (find_char c s))"

lemma find_char_None [simp]: "find_char c s = None \<longleftrightarrow> c \<notin> set s"
  by (induction s) auto

lemma find_char_append: "c \<notin> set s \<Longrightarrow> find_char c (s @ c # t) = Some (length s)"
  by (induction s) auto

lemma find_char_Some: "find_char c s = Some p \<Longrightarrow> p < length s \<and> s ! p = c \<and> c \<notin> set (take p s)"
proof (induction s arbitrary: p)
  case (Cons x s)
  then show ?case by (cases "x = c") auto
qed simp

end
