(* ===== verification/Node_Config.thy ===== *)
theory Node_Config
  imports Prelude
begin

text \<open>
  The configuration the two server programs share, \<^verbatim>\<open>NodeConfig\<close> of \<^verbatim>\<open>src/common/config.h\<close>, and
  the ways a program ends before it serves: with an exit status, or by an exception nobody catches.
\<close>

record node_config =
  cfg_node_id :: string
  cfg_address :: string
  cfg_role :: string
  cfg_data_dir :: string
  cfg_peers :: "string list"
  cfg_capacity_bytes :: u64
  cfg_mode :: string
  cfg_heartbeat_interval_ms :: u32
  cfg_follower_timeout_ms :: u32
  cfg_quorum_timeout_ms :: u32
  cfg_stats_interval_ms :: u32

definition default_node_config :: node_config where
  "default_node_config = \<lparr>cfg_node_id = [], cfg_address = [], cfg_role = [], cfg_data_dir = [], cfg_peers = [],
     cfg_capacity_bytes = 0, cfg_mode = ''adaptive'', cfg_heartbeat_interval_ms = 200, cfg_follower_timeout_ms = 600,
     cfg_quorum_timeout_ms = 2000, cfg_stats_interval_ms = 1000\<rparr>"

datatype program_end = Exit int | Uncaught cxx_exc

end
