(* ===== verification/Text_Codec.thy ===== *)
theory Text_Codec
  imports Prelude
begin

text \<open>
  The text and byte codecs the sources share: splitting a payload at a delimiter and joining a
  list of replica entries, \<^verbatim>\<open>std::to_string\<close> on integers with \<^verbatim>\<open>std::stoull\<close>
  and \<^verbatim>\<open>std::stoi\<close>, and integers stored in big-endian byte order
  (\<^verbatim>\<open>__builtin_bswap64\<close> followed by \<^verbatim>\<open>memcpy\<close> on a little-endian host). Each
  decoder is shown to invert its encoder.
\<close>

section \<open>Splitting and joining\<close>

text \<open>The loop of \<^verbatim>\<open>split_nonempty\<close>: \<open>cur\<close> and \<open>out\<close> are its two locals.\<close>

fun split_nonempty_loop :: "char \<Rightarrow> string \<Rightarrow> string list \<Rightarrow> string \<Rightarrow> string list" where
  "split_nonempty_loop delim cur out [] = (if cur \<noteq> [] then out @ [cur] else out)"
| "split_nonempty_loop delim cur out (c # s) =
     (if c = delim then split_nonempty_loop delim [] (if cur \<noteq> [] then out @ [cur] else out) s
      else split_nonempty_loop delim (cur @ [c]) out s)"

definition split_nonempty :: "string \<Rightarrow> char \<Rightarrow> string list" where
  "split_nonempty s delim = split_nonempty_loop delim [] [] s"

text \<open>\<^verbatim>\<open>split\<close> of \<^verbatim>\<open>meta_snapshot.cpp\<close> keeps empty fields.\<close>

fun split_loop :: "char \<Rightarrow> string \<Rightarrow> string list \<Rightarrow> string \<Rightarrow> string list" where
  "split_loop delim cur out [] = out @ [cur]"
| "split_loop delim cur out (c # s) =
     (if c = delim then split_loop delim [] (out @ [cur]) s
      else split_loop delim (cur @ [c]) out s)"

definition split_all :: "string \<Rightarrow> char \<Rightarrow> string list" where
  "split_all s delim = split_loop delim [] [] s"

text \<open>\<^verbatim>\<open>for (auto& n : set) p += n + ","\<close>.\<close>

definition join_csv :: "string list \<Rightarrow> string" where
  "join_csv xs = concat (map (\<lambda>n. n @ '','') xs)"

lemma join_csv_simps [simp]: "join_csv [] = []" "join_csv (x # xs) = x @ CHR '','' # join_csv xs"
  by (simp_all add: join_csv_def)

lemma split_nonempty_loop_out:
  "split_nonempty_loop d cur out s = out @ split_nonempty_loop d cur [] s"
proof (induction s arbitrary: cur out)
  case (Cons c s)
  show ?case
  proof (cases "c = d")
    case True
    show ?thesis
      using Cons.IH [of "[]" "out @ [cur]"] Cons.IH [of "[]" "[cur]"] Cons.IH [of "[]" out] True
      by auto
  next
    case False
    then show ?thesis using Cons.IH [of "cur @ [c]" out] by simp
  qed
qed simp

lemma split_nonempty_loop_field:
  "d \<notin> set x \<Longrightarrow> split_nonempty_loop d cur [] (x @ d # s) =
     (if cur @ x \<noteq> [] then [cur @ x] else []) @ split_nonempty_loop d [] [] s"
proof (induction x arbitrary: cur)
  case Nil
  then show ?case using split_nonempty_loop_out [of d "[]" "[cur]" s] by simp
next
  case (Cons c x)
  then have "c \<noteq> d" by auto
  with Cons.prems Cons.IH [of "cur @ [c]"] show ?case by simp
qed

lemma split_nonempty_loop_last:
  "d \<notin> set x \<Longrightarrow> split_nonempty_loop d cur [] x = (if cur @ x \<noteq> [] then [cur @ x] else [])"
  by (induction x arbitrary: cur) auto

lemma split_nonempty_Nil [simp]: "split_nonempty [] d = []"
  by (simp add: split_nonempty_def)

lemma split_nonempty_field [codec_simps]:
  "x \<noteq> [] \<Longrightarrow> d \<notin> set x \<Longrightarrow> split_nonempty (x @ d # s) d = x # split_nonempty s d"
  by (simp add: split_nonempty_def split_nonempty_loop_field)

lemma split_nonempty_skip: "split_nonempty (d # s) d = split_nonempty s d"
  by (simp add: split_nonempty_def)

lemma split_nonempty_last [codec_simps]:
  "x \<noteq> [] \<Longrightarrow> d \<notin> set x \<Longrightarrow> split_nonempty x d = [x]"
  by (simp add: split_nonempty_def split_nonempty_loop_last)

lemma split_nonempty_join [codec_simps]:
  "\<forall>x \<in> set xs. x \<noteq> [] \<and> CHR '','' \<notin> set x \<Longrightarrow> split_nonempty (join_csv xs) CHR '','' = xs"
  by (induction xs) (auto simp: split_nonempty_field)

lemma split_loop_out: "split_loop d cur out s = out @ split_loop d cur [] s"
proof (induction s arbitrary: cur out)
  case (Cons c s)
  show ?case
    using Cons.IH [of "[]" "out @ [cur]"] Cons.IH [of "[]" "[cur]"] Cons.IH [of "cur @ [c]" out]
    by simp
qed simp

lemma split_loop_field:
  "d \<notin> set x \<Longrightarrow> split_loop d cur [] (x @ d # s) = (cur @ x) # split_loop d [] [] s"
proof (induction x arbitrary: cur)
  case Nil
  then show ?case using split_loop_out [of d "[]" "[cur]" s] by simp
qed auto

lemma split_all_field [codec_simps]: "d \<notin> set x \<Longrightarrow> split_all (x @ d # s) d = x # split_all s d"
  by (simp add: split_all_def split_loop_field)

lemma split_all_last [codec_simps]: "d \<notin> set x \<Longrightarrow> split_all x d = [x]"
proof -
  have "d \<notin> set x \<Longrightarrow> split_loop d cur [] x = [cur @ x]" for cur by (induction x arbitrary: cur) auto
  then show "d \<notin> set x \<Longrightarrow> split_all x d = [x]" by (simp add: split_all_def)
qed

text \<open>\<^verbatim>\<open>split_nonempty\<close> is \<^verbatim>\<open>split\<close> without its empty fields.\<close>

lemma split_nonempty_loop_eq:
  "split_nonempty_loop d cur [] s = filter (\<lambda>x. x \<noteq> []) (split_loop d cur [] s)"
proof (induction s arbitrary: cur)
  case (Cons c s)
  show ?case
    using Cons.IH [of "[]"] Cons.IH [of "cur @ [c]"]
      split_nonempty_loop_out [of d "[]" "[cur]" s] split_loop_out [of d "[]" "[cur]" s]
    by simp
qed simp

lemma split_nonempty_eq_filter: "split_nonempty s d = filter (\<lambda>x. x \<noteq> []) (split_all s d)"
  by (simp add: split_nonempty_def split_all_def split_nonempty_loop_eq)

lemma split_nonempty_loop_no_delim:
  "d \<notin> set cur \<Longrightarrow> x \<in> set (split_nonempty_loop d cur [] s) \<Longrightarrow> x \<noteq> [] \<and> d \<notin> set x"
proof (induction s arbitrary: cur)
  case (Cons c s)
  show ?case
  proof (cases "c = d")
    case True
    with Cons.prems Cons.IH [of "[]"] split_nonempty_loop_out [of d "[]" "[cur]" s]
    show ?thesis by (auto split: if_splits)
  next
    case False
    with Cons.prems Cons.IH [of "cur @ [c]"] show ?thesis by auto
  qed
qed (auto split: if_splits)

lemma split_nonempty_no_delim: "x \<in> set (split_nonempty s d) \<Longrightarrow> x \<noteq> [] \<and> d \<notin> set x"
  unfolding split_nonempty_def by (rule split_nonempty_loop_no_delim [of d "[]"]) simp_all

lemma join_csv_chars: "c \<in> set (join_csv xs) \<Longrightarrow> c = CHR '','' \<or> (\<exists>x \<in> set xs. c \<in> set x)"
  by (induction xs) auto

lemma join_csv_Nil_iff [simp]: "join_csv xs = [] \<longleftrightarrow> xs = []"
  by (cases xs) auto

lemma join_csv_no_char: "c \<noteq> CHR '','' \<Longrightarrow> (\<forall>x \<in> set xs. c \<notin> set x) \<Longrightarrow> c \<notin> set (join_csv xs)"
  using join_csv_chars by blast

section \<open>Decimal numbers\<close>

definition digit_char :: "nat \<Rightarrow> char" where
  "digit_char d = char_of (48 + d)"

definition is_digit :: "char \<Rightarrow> bool" where
  "is_digit c \<longleftrightarrow> (48 :: nat) \<le> of_char c \<and> of_char c \<le> (57 :: nat)"

definition digit_val :: "char \<Rightarrow> nat" where
  "digit_val c = of_char c - 48"

definition is_space :: "char \<Rightarrow> bool" where
  "is_space c \<longleftrightarrow> (of_char c :: nat) = 32 \<or> ((9 :: nat) \<le> of_char c \<and> of_char c \<le> (13 :: nat))"

fun dec_of_nat :: "nat \<Rightarrow> string" where
  "dec_of_nat n = (if n < 10 then [digit_char n] else dec_of_nat (n div 10) @ [digit_char (n mod 10)])"

declare dec_of_nat.simps [simp del]

definition digits_val :: "string \<Rightarrow> nat" where
  "digits_val s = foldl (\<lambda>a c. a * 10 + digit_val c) 0 s"

definition to_string_u64 :: "u64 \<Rightarrow> string" where
  "to_string_u64 w = dec_of_nat (unat w)"

definition to_string_int :: "int \<Rightarrow> string" where
  "to_string_int i = (if i < 0 then ''-'' @ dec_of_nat (nat (- i)) else dec_of_nat (nat i))"

text \<open>
  The common part of \<^verbatim>\<open>strtoull\<close> and \<^verbatim>\<open>strtol\<close> in base 10: skip white space, an
  optional sign, then the longest run of digits; \<open>None\<close> when there is no digit. What follows
  the digits is ignored.
\<close>

definition scan_int :: "string \<Rightarrow> (bool \<times> nat) option" where
  "scan_int s = (let s1 = dropWhile is_space s;
       neg = (s1 \<noteq> [] \<and> hd s1 = CHR ''-'');
       s2 = (if s1 \<noteq> [] \<and> (hd s1 = CHR ''-'' \<or> hd s1 = CHR ''+'') then tl s1 else s1);
       ds = takeWhile is_digit s2
     in if ds = [] then None else Some (neg, digits_val ds))"

definition stoull :: "string \<Rightarrow> cxx_exc + u64" where
  "stoull s = (case scan_int s of None \<Rightarrow> Inl Invalid_argument
     | Some (neg, n) \<Rightarrow> if n < 2 ^ 64 then Inr (if neg then - word_of_nat n else word_of_nat n)
                        else Inl Out_of_range)"

definition stoi :: "string \<Rightarrow> cxx_exc + int" where
  "stoi s = (case scan_int s of None \<Rightarrow> Inl Invalid_argument
     | Some (neg, n) \<Rightarrow> let v = (if neg then - int n else int n) in
         if - (2 ^ 31) \<le> v \<and> v < 2 ^ 31 then Inr v else Inl Out_of_range)"

lemma of_char_digit: "d < 10 \<Longrightarrow> (of_char (digit_char d) :: nat) = 48 + d"
  by (simp add: digit_char_def)

lemma digit_char_simps [simp]:
  "d < 10 \<Longrightarrow> is_digit (digit_char d)" "d < 10 \<Longrightarrow> digit_val (digit_char d) = d"
  by (simp_all add: is_digit_def digit_val_def of_char_digit)

lemma dec_of_nat_nonempty [simp]: "dec_of_nat n \<noteq> []"
  by (subst dec_of_nat.simps) simp

lemma dec_of_nat_digits: "c \<in> set (dec_of_nat n) \<Longrightarrow> is_digit c"
proof (induction n rule: dec_of_nat.induct)
  case (1 n)
  then show ?case by (subst (asm) dec_of_nat.simps) (auto split: if_splits)
qed

lemma digits_val_snoc: "digits_val (s @ [c]) = digits_val s * 10 + digit_val c"
  by (simp add: digits_val_def)

lemma digits_val_dec_of_nat [simp]: "digits_val (dec_of_nat n) = n"
proof (induction n rule: dec_of_nat.induct)
  case (1 n)
  show ?case
  proof (cases "n < 10")
    case True
    then show ?thesis by (subst dec_of_nat.simps) (simp add: digits_val_def)
  next
    case False
    with "1.IH" show ?thesis by (subst dec_of_nat.simps) (simp add: digits_val_snoc)
  qed
qed

lemma digit_not_space: "is_digit c \<Longrightarrow> \<not> is_space c"
  by (auto simp: is_digit_def is_space_def)

lemma not_digit_char: "is_digit c \<Longrightarrow> (of_char x :: nat) < 48 \<or> 57 < (of_char x :: nat) \<Longrightarrow> c \<noteq> x"
  by (auto simp: is_digit_def)

lemma digit_ne [simp]:
  "is_digit c \<Longrightarrow> c \<noteq> CHR ''-''" "is_digit c \<Longrightarrow> c \<noteq> CHR ''+''" "is_digit c \<Longrightarrow> c \<noteq> CHR ''|''"
  "is_digit c \<Longrightarrow> c \<noteq> CHR '';''" "is_digit c \<Longrightarrow> c \<noteq> CHR '',''" "is_digit c \<Longrightarrow> c \<noteq> CHR ''.''"
  by (erule not_digit_char, simp)+

lemma takeWhile_all_append: "\<forall>c \<in> set s. P c \<Longrightarrow> t = [] \<or> \<not> P (hd t) \<Longrightarrow> takeWhile P (s @ t) = s"
proof -
  assume all: "\<forall>c \<in> set s. P c" and t: "t = [] \<or> \<not> P (hd t)"
  from all have "takeWhile P (s @ t) = s @ takeWhile P t" by (simp add: takeWhile_append2)
  also from t have "takeWhile P t = []" by (cases t) auto
  finally show ?thesis by simp
qed

lemma scan_int_dec:
  assumes "t = [] \<or> \<not> is_digit (hd t)"
  shows "scan_int (dec_of_nat n @ t) = Some (False, n)"
proof -
  obtain c s where s: "dec_of_nat n = c # s" by (cases "dec_of_nat n") auto
  then have c: "is_digit c" using dec_of_nat_digits [of c n] by simp
  have "dropWhile is_space (dec_of_nat n @ t) = dec_of_nat n @ t"
    using s digit_not_space [OF c] by simp
  moreover have "takeWhile is_digit (dec_of_nat n @ t) = dec_of_nat n"
    using assms dec_of_nat_digits [of _ n] by (intro takeWhile_all_append) auto
  moreover have "hd (dec_of_nat n @ t) = c" using s by simp
  ultimately show ?thesis
    using c digits_val_dec_of_nat [of n]
    by (simp add: scan_int_def Let_def del: takeWhile_append2 digits_val_dec_of_nat)
qed

lemma stoull_to_string [simp, codec_simps]: "stoull (to_string_u64 w) = Inr w"
  using scan_int_dec [of "[]" "unat w"] unat_u64_bound [of w]
  by (simp add: stoull_def to_string_u64_def)

lemma scan_int_neg: "scan_int (CHR ''-'' # dec_of_nat n) = Some (True, n)"
proof -
  have tw: "takeWhile is_digit (dec_of_nat n) = dec_of_nat n"
    using dec_of_nat_digits [of _ n] takeWhile_all_append [of "dec_of_nat n" is_digit "[]"] by simp
  show ?thesis by (simp add: scan_int_def Let_def is_space_def tw)
qed

text \<open>The values of a 32-bit \<^verbatim>\<open>int\<close>.\<close>

definition int32 :: "int \<Rightarrow> bool" where
  "int32 i \<longleftrightarrow> - (2 ^ 31) \<le> i \<and> i < 2 ^ 31"

text \<open>\<^verbatim>\<open>static_cast<int>(n)\<close> of a \<^verbatim>\<open>size_t\<close>: the low 32 bits as two's complement.\<close>

definition cast_int :: "nat \<Rightarrow> int" where
  "cast_int n = sint (word_of_nat n :: 32 word)"

lemma cast_int_id: "n < 2 ^ 31 \<Longrightarrow> cast_int n = int n"
proof -
  assume "n < 2 ^ 31"
  then have "signed_take_bit 31 (int n) = int n"
    by (intro signed_take_bit_int_eq_self) auto
  then show ?thesis by (simp add: cast_int_def signed_of_nat)
qed

lemma stoi_to_string [codec_simps]: "int32 i \<Longrightarrow> stoi (to_string_int i) = Inr i"
  using scan_int_dec [of "[]" "nat i"] scan_int_neg [of "nat (- i)"]
  by (auto simp: stoi_def to_string_int_def int32_def Let_def)

lemma to_string_nonempty [simp]: "to_string_u64 w \<noteq> []" "to_string_int i \<noteq> []"
  by (simp_all add: to_string_u64_def to_string_int_def)

lemma to_string_u64_digits: "c \<in> set (to_string_u64 w) \<Longrightarrow> is_digit c"
  by (auto simp: to_string_u64_def dest: dec_of_nat_digits)

lemma to_string_int_chars: "c \<in> set (to_string_int i) \<Longrightarrow> is_digit c \<or> c = CHR ''-''"
  by (auto simp: to_string_int_def dest: dec_of_nat_digits split: if_splits)

lemma to_string_delims [simp]:
  "CHR ''|'' \<notin> set (to_string_u64 w)" "CHR '';'' \<notin> set (to_string_u64 w)"
  "CHR ''|'' \<notin> set (to_string_int i)" "CHR '';'' \<notin> set (to_string_int i)"
  by (auto dest!: to_string_u64_digits to_string_int_chars simp: is_digit_def)

section \<open>Big-endian integers\<close>

fun be_bytes :: "nat \<Rightarrow> nat \<Rightarrow> string" where
  "be_bytes 0 n = []"
| "be_bytes (Suc k) n = be_bytes k (n div 256) @ [char_of (n mod 256)]"

definition of_be :: "string \<Rightarrow> nat" where
  "of_be s = foldl (\<lambda>a c. a * 256 + of_char c) 0 s"

definition be64 :: "u64 \<Rightarrow> string" where
  "be64 w = be_bytes 8 (unat w)"

definition be32 :: "u32 \<Rightarrow> string" where
  "be32 w = be_bytes 4 (unat w)"

lemma length_be_bytes [simp]: "length (be_bytes k n) = k"
  by (induction k arbitrary: n) simp_all

lemma length_be [simp]: "length (be64 w) = 8" "length (be32 v) = 4"
  by (simp_all add: be64_def be32_def)

lemma of_be_snoc: "of_be (s @ [c]) = of_be s * 256 + of_char c"
  by (simp add: of_be_def)

lemma of_be_be_bytes: "of_be (be_bytes k n) = n mod 256 ^ k"
proof (induction k arbitrary: n)
  case 0
  then show ?case by (simp add: of_be_def)
next
  case (Suc k)
  have "of_be (be_bytes (Suc k) n) = (n div 256 mod 256 ^ k) * 256 + n mod 256"
    using Suc.IH [of "n div 256"] by (simp add: of_be_snoc)
  also have "\<dots> = n mod (256 * 256 ^ k)"
    by (simp add: mod_mult2_eq)
  finally show ?case by simp
qed

lemma of_be_be64 [simp, codec_simps]: "word_of_nat (of_be (be64 w)) = w"
  using unat_u64_bound [of w] by (simp add: be64_def of_be_be_bytes)

lemma unat_u32_bound: "unat (w :: u32) < 2 ^ 32"
  using unsigned_less [of w] by simp

lemma of_be_be32 [simp, codec_simps]: "word_of_nat (of_be (be32 w)) = w"
  using unat_u32_bound [of w] by (simp add: be32_def of_be_be_bytes)

lemma be64_inj [simp]: "be64 v = be64 w \<longleftrightarrow> v = w"
  by (metis of_be_be64)

text \<open>Reading eight (four) bytes at the start of a buffer; a shorter buffer is over-read.\<close>

definition read_be64 :: "string \<Rightarrow> cxx_exc + u64" where
  "read_be64 s = (if length s < 8 then Inl Out_of_bounds else Inr (word_of_nat (of_be (take 8 s))))"

definition read_be32 :: "string \<Rightarrow> cxx_exc + u32" where
  "read_be32 s = (if length s < 4 then Inl Out_of_bounds else Inr (word_of_nat (of_be (take 4 s))))"

lemma read_be64_be64 [simp, codec_simps]: "read_be64 (be64 w @ s) = Inr w" "read_be64 (be64 w) = Inr w"
  by (simp_all add: read_be64_def)

lemma read_be32_be32 [simp, codec_simps]: "read_be32 (be32 w @ s) = Inr w" "read_be32 (be32 w) = Inr w"
  by (simp_all add: read_be32_def)

end
