(* ===== verification/Cxx_Float.thy ===== *)
theory Cxx_Float
  imports Text_Codec Complex_Main "HOL-Library.Log_Nat"
begin

text \<open>
  The floating-point numbers of the sources. A finite \<^verbatim>\<open>float\<close> or \<^verbatim>\<open>double\<close>
  is the rational number it denotes; an arithmetic operation is the exact operation followed by
  the rounding of IEEE 754 (to nearest, ties to even) in the format's precision: \<open>fl32\<close> for
  \<^verbatim>\<open>float\<close>, \<open>fl64\<close> for \<^verbatim>\<open>double\<close>. Infinities, NaN and the sign of zero are
  not represented. \<^verbatim>\<open>std::to_string(float)\<close> prints six decimals, and
  \<^verbatim>\<open>std::stof\<close> reads decimal notation; reading back what was printed gives the value
  rounded to six decimals, not the value itself.
\<close>

type_synonym float32 = rat
type_synonym float64 = rat

section \<open>Rounding\<close>

definition pow2 :: "int \<Rightarrow> rat" where
  "pow2 k = (if 0 \<le> k then 2 ^ nat k else 1 / 2 ^ nat (- k))"

definition ilog2 :: "rat \<Rightarrow> int" where
  "ilog2 x = (let (p, q) = quotient_of x; k = int (floorlog 2 (nat p)) - int (floorlog 2 (nat q))
     in if pow2 k \<le> x then k else k - 1)"

definition round_half_even :: "rat \<Rightarrow> int" where
  "round_half_even x = (let f = \<lfloor>x\<rfloor>; d = x - of_int f in
     if d < 1 / 2 then f else if 1 / 2 < d then f + 1 else if even f then f else f + 1)"

definition round_to :: "int \<Rightarrow> int \<Rightarrow> rat \<Rightarrow> rat" where
  "round_to prec emin x = (if x = 0 then 0
     else let u = pow2 (max (ilog2 \<bar>x\<bar>) emin - prec + 1) in of_int (round_half_even (x / u)) * u)"

definition fl32 :: "rat \<Rightarrow> float32" where
  "fl32 = round_to 24 (- 126)"

definition fl64 :: "rat \<Rightarrow> float64" where
  "fl64 = round_to 53 (- 1022)"

text \<open>A 64-bit integer converted to \<^verbatim>\<open>double\<close>.\<close>

definition double_of_u64 :: "u64 \<Rightarrow> float64" where
  "double_of_u64 w = fl64 (of_nat (unat w))"

lemma round_to_0 [simp]: "round_to p e 0 = 0"
  by (simp add: round_to_def)

lemma fl_0 [simp]: "fl32 0 = 0" "fl64 0 = 0"
  by (simp_all add: fl32_def fl64_def)

lemma pow2_pos [simp]: "0 < pow2 k"
  by (simp add: pow2_def)

lemma round_half_even_error: "\<bar>of_int (round_half_even x) - x\<bar> \<le> 1 / 2"
proof -
  have "of_int \<lfloor>x\<rfloor> \<le> x" and "x < of_int \<lfloor>x\<rfloor> + 1" by (rule of_int_floor_le) linarith
  then show ?thesis by (auto simp: round_half_even_def Let_def)
qed

lemma round_half_even_int [simp]: "round_half_even (of_int i) = i"
  by (simp add: round_half_even_def)

lemma round_half_even_nonneg: "0 \<le> x \<Longrightarrow> 0 \<le> round_half_even x"
  by (simp add: round_half_even_def Let_def)

section \<open>Printing with six decimals\<close>

definition pad6 :: "nat \<Rightarrow> string" where
  "pad6 m = replicate (6 - length (dec_of_nat m)) CHR ''0'' @ dec_of_nat m"

text \<open>\<^verbatim>\<open>std::to_string(float)\<close>, the format \<^verbatim>\<open>%f\<close>.\<close>

definition to_string_float :: "float32 \<Rightarrow> string" where
  "to_string_float x = (let n = nat (round_half_even (\<bar>x\<bar> * 1000000)) in
     (if x < 0 then ''-'' else []) @ dec_of_nat (n div 1000000) @ ''.'' @ pad6 (n mod 1000000))"

section \<open>Reading\<close>

text \<open>
  \<^verbatim>\<open>std::stof\<close> on decimal notation: white space, sign, digits, fraction, exponent. No
  digit at all is \<^verbatim>\<open>invalid_argument\<close>; a result outside the normal range is
  \<^verbatim>\<open>out_of_range\<close>.
\<close>

definition scan_exponent :: "string \<Rightarrow> int" where
  "scan_exponent s = (if s \<noteq> [] \<and> (hd s = CHR ''e'' \<or> hd s = CHR ''E'')
     then let r = tl s;
              neg = (r \<noteq> [] \<and> hd r = CHR ''-'');
              r1 = (if r \<noteq> [] \<and> (hd r = CHR ''-'' \<or> hd r = CHR ''+'') then tl r else r);
              v = int (digits_val (takeWhile is_digit r1))
          in if neg then - v else v
     else 0)"

definition pow10 :: "int \<Rightarrow> rat" where
  "pow10 k = (if 0 \<le> k then 10 ^ nat k else 1 / 10 ^ nat (- k))"

definition scan_unsigned :: "string \<Rightarrow> rat option" where
  "scan_unsigned s = (let ip = takeWhile is_digit s; s3 = dropWhile is_digit s;
       dot = (s3 \<noteq> [] \<and> hd s3 = CHR ''.'');
       fp = (if dot then takeWhile is_digit (tl s3) else []);
       s4 = (if dot then dropWhile is_digit (tl s3) else s3)
     in if ip = [] \<and> fp = [] then None
        else Some ((of_nat (digits_val ip) + of_nat (digits_val fp) / 10 ^ length fp) * pow10 (scan_exponent s4)))"

definition scan_decimal :: "string \<Rightarrow> rat option" where
  "scan_decimal s = (let s1 = dropWhile is_space s in
     if s1 \<noteq> [] \<and> hd s1 = CHR ''-'' then map_option uminus (scan_unsigned (tl s1))
     else if s1 \<noteq> [] \<and> hd s1 = CHR ''+'' then scan_unsigned (tl s1)
     else scan_unsigned s1)"

definition stof :: "string \<Rightarrow> cxx_exc + float32" where
  "stof s = (case scan_decimal s of None \<Rightarrow> Inl Invalid_argument
     | Some v \<Rightarrow> if v = 0 then Inr 0
                 else if \<bar>v\<bar> < pow2 (- 126) \<or> pow2 128 \<le> \<bar>fl32 v\<bar> then Inl Out_of_range
                 else Inr (fl32 v))"

section \<open>Reading back what was printed\<close>

text \<open>The nearest multiple of \<open>10\<^sup>-\<^sup>6\<close>.\<close>

definition round6 :: "rat \<Rightarrow> rat" where
  "round6 x = (if x < 0 then - of_int (round_half_even (- x * 1000000)) / 1000000
     else of_int (round_half_even (x * 1000000)) / 1000000)"

lemma round6_error: "\<bar>round6 x - x\<bar> \<le> 1 / 2000000"
proof (cases "x < 0")
  case True
  then have "round6 x - x = - ((of_int (round_half_even (- x * 1000000)) - (- x * 1000000)) / 1000000)"
    by (simp add: round6_def field_simps)
  also have "\<bar>\<dots>\<bar> = \<bar>of_int (round_half_even (- x * 1000000)) - (- x * 1000000)\<bar> / 1000000"
    by simp
  finally show ?thesis using round_half_even_error [of "- x * 1000000"] by simp
next
  case False
  then have "round6 x - x = (of_int (round_half_even (x * 1000000)) - x * 1000000) / 1000000"
    by (simp add: round6_def field_simps)
  also have "\<bar>\<dots>\<bar> = \<bar>of_int (round_half_even (x * 1000000)) - x * 1000000\<bar> / 1000000"
    by simp
  finally show ?thesis using round_half_even_error [of "x * 1000000"] by simp
qed

lemma pad6_digits: "c \<in> set (pad6 m) \<Longrightarrow> is_digit c"
  by (auto simp: pad6_def is_digit_def dest: dec_of_nat_digits split: if_splits)

lemma digits_val_append: "digits_val (s @ t) = digits_val s * 10 ^ length t + digits_val t"
proof (induction t rule: rev_induct)
  case (snoc c t)
  have "digits_val (s @ t @ [c]) = digits_val (s @ t) * 10 + digit_val c"
    using digits_val_snoc [of "s @ t" c] by simp
  with snoc show ?case by (simp add: digits_val_snoc algebra_simps)
qed (simp add: digits_val_def)

lemma digits_val_zeros [simp]: "digits_val (replicate k CHR ''0'') = 0"
proof (induction k)
  case (Suc k)
  have "digits_val (replicate (Suc k) CHR ''0'') = digits_val (replicate k CHR ''0'' @ [CHR ''0''])"
    by (simp add: replicate_append_same)
  with Suc show ?case by (simp add: digits_val_snoc digit_val_def)
qed (simp add: digits_val_def)

lemma digits_val_pad6 [simp]: "digits_val (pad6 m) = m"
  by (simp add: pad6_def digits_val_append)

lemma length_dec_of_nat: "m < 10 ^ Suc k \<Longrightarrow> length (dec_of_nat m) \<le> Suc k"
proof (induction k arbitrary: m)
  case 0
  then show ?case by (subst dec_of_nat.simps) simp
next
  case (Suc k)
  then have "m div 10 < 10 ^ Suc k" by auto
  with Suc.IH [of "m div 10"] show ?case by (subst dec_of_nat.simps) simp
qed

lemma length_pad6: "m < 1000000 \<Longrightarrow> length (pad6 m) = 6"
  using length_dec_of_nat [of m 5] by (simp add: pad6_def)

lemma takeWhile_dropWhile_digits:
  assumes "\<forall>c \<in> set a. is_digit c" and "b = [] \<or> \<not> is_digit (hd b)"
  shows "takeWhile is_digit (a @ b) = a" "dropWhile is_digit (a @ b) = b"
proof -
  show t: "takeWhile is_digit (a @ b) = a" using assms by (rule takeWhile_all_append)
  have "takeWhile is_digit (a @ b) @ dropWhile is_digit (a @ b) = a @ b" by (rule takeWhile_dropWhile_id)
  with t show "dropWhile is_digit (a @ b) = b" by simp
qed

lemma scan_unsigned_fixed:
  assumes "m < 1000000"
  shows "scan_unsigned (dec_of_nat k @ ''.'' @ pad6 m) = Some (of_nat k + of_nat m / 1000000)"
proof -
  let ?s = "dec_of_nat k @ ''.'' @ pad6 m"
  have nd: "\<not> is_digit CHR ''.''" by (simp add: is_digit_def)
  have ip: "takeWhile is_digit ?s = dec_of_nat k" and s3: "dropWhile is_digit ?s = ''.'' @ pad6 m"
    using takeWhile_dropWhile_digits [of "dec_of_nat k" "''.'' @ pad6 m"] dec_of_nat_digits [of _ k] nd
    by auto
  have fp: "takeWhile is_digit (pad6 m) = pad6 m" and s4: "dropWhile is_digit (pad6 m) = []"
    using takeWhile_dropWhile_digits [of "pad6 m" "[]"] pad6_digits [of _ m] by auto
  show ?thesis
    unfolding scan_unsigned_def Let_def ip s3
    using assms by (simp add: fp s4 length_pad6 scan_exponent_def pow10_def)
qed

lemma scan_decimal_fixed:
  assumes "m < 1000000"
  shows "scan_decimal (dec_of_nat k @ ''.'' @ pad6 m) = Some (of_nat k + of_nat m / 1000000)"
    and "scan_decimal (CHR ''-'' # dec_of_nat k @ ''.'' @ pad6 m) = Some (- (of_nat k + of_nat m / 1000000))"
proof -
  let ?s = "dec_of_nat k @ ''.'' @ pad6 m"
  obtain c r where s: "dec_of_nat k = c # r" by (cases "dec_of_nat k") auto
  then have c: "is_digit c" using dec_of_nat_digits [of c k] by simp
  then have dw: "dropWhile is_space ?s = ?s" and hd: "hd ?s \<noteq> CHR ''-''" "hd ?s \<noteq> CHR ''+''"
    using s digit_not_space [OF c] by simp_all
  show "scan_decimal ?s = Some (of_nat k + of_nat m / 1000000)"
    unfolding scan_decimal_def Let_def dw using hd scan_unsigned_fixed [OF assms] by simp
  have "dropWhile is_space (CHR ''-'' # ?s) = CHR ''-'' # ?s" by (simp add: is_space_def)
  then show "scan_decimal (CHR ''-'' # ?s) = Some (- (of_nat k + of_nat m / 1000000))"
    unfolding scan_decimal_def Let_def using scan_unsigned_fixed [OF assms] by simp
qed

lemma scan_decimal_to_string: "scan_decimal (to_string_float x) = Some (round6 x)"
proof -
  define n where "n = nat (round_half_even (\<bar>x\<bar> * 1000000))"
  have "of_nat n = (of_int (round_half_even (\<bar>x\<bar> * 1000000)) :: rat)"
    using round_half_even_nonneg [of "\<bar>x\<bar> * 1000000"] by (simp add: n_def)
  moreover have "(of_nat (n div 1000000) + of_nat (n mod 1000000) / 1000000 :: rat) = of_nat n / 1000000"
  proof -
    have "of_nat n = (of_nat (n div 1000000 * 1000000 + n mod 1000000) :: rat)" by (simp only: div_mult_mod_eq)
    also have "\<dots> = of_nat (n div 1000000) * 1000000 + of_nat (n mod 1000000)"
      by (simp only: of_nat_add of_nat_mult of_nat_numeral)
    finally show ?thesis by (simp add: add_divide_distrib)
  qed
  ultimately show ?thesis
    using scan_decimal_fixed [of "n mod 1000000" "n div 1000000"]
    by (auto simp: to_string_float_def Let_def n_def [symmetric] round6_def)
qed

section \<open>The error of a rounding\<close>

lemma pow2_powi: "pow2 k = 2 powi k"
  by (simp add: pow2_def power_int_def field_simps)

lemma pow2_add: "pow2 (a + b) = pow2 a * pow2 b"
  by (simp add: pow2_powi power_int_add)

lemma pow2_of_nat: "pow2 (int n) = 2 ^ n"
  by (simp add: pow2_def)

lemma pow2_mono: "a \<le> b \<Longrightarrow> pow2 a \<le> pow2 b"
  by (simp add: pow2_powi power_int_increasing)

lemma floorlog2_bounds: "0 < n \<Longrightarrow> 2 ^ floorlog 2 n \<le> 2 * n \<and> n < 2 ^ floorlog 2 n"
proof -
  assume n: "0 < n"
  then have b: "2 ^ (floorlog 2 n - 1) \<le> n \<and> n < 2 ^ floorlog 2 n" by (intro floorlog_bounds) auto
  from n have "0 < floorlog 2 n" using floorlog_eq_zero_iff [of 2 n] by simp
  then have "(2 :: nat) ^ floorlog 2 n = 2 * 2 ^ (floorlog 2 n - 1)" by (cases "floorlog 2 n") auto
  with b show ?thesis by simp
qed

lemma ilog2_bounds:
  assumes "0 < x"
  shows "pow2 (ilog2 x) \<le> x" "x < pow2 (ilog2 x + 1)"
proof -
  obtain p q where pq: "quotient_of x = (p, q)" by (cases "quotient_of x")
  then have q: "0 < q" and x: "x = of_int p / of_int q"
    using quotient_of_denom_pos quotient_of_div by blast+
  with assms have p: "0 < p" by (simp add: zero_less_divide_iff)
  define P where "P = nat p"
  define Q where "Q = nat q"
  have x': "x = of_nat P / of_nat Q" using x p q by (simp add: P_def Q_def)
  have PQ: "0 < P" "0 < Q" using p q by (simp_all add: P_def Q_def)
  define a where "a = floorlog 2 P"
  define b where "b = floorlog 2 Q"
  have up: "of_nat (2 ^ a) \<le> (of_nat (2 * P) :: rat)" "of_nat P < (of_nat (2 ^ a) :: rat)"
    "of_nat (2 ^ b) \<le> (of_nat (2 * Q) :: rat)" "of_nat Q < (of_nat (2 ^ b) :: rat)"
    unfolding of_nat_le_iff of_nat_less_iff a_def b_def
    using floorlog2_bounds [OF PQ(1)] floorlog2_bounds [OF PQ(2)] by auto
  define k where "k = int a - int b"
  have k: "pow2 k * 2 ^ b = 2 ^ a"
    using pow2_add [of k "int b"] by (simp add: k_def pow2_of_nat)
  have Q0: "(0 :: rat) < of_nat Q" using PQ by simp
  have lo: "pow2 k \<le> 2 * x"
  proof -
    have "pow2 k * of_nat Q \<le> pow2 k * 2 ^ b" using up(4) by (intro mult_left_mono) (auto simp: less_imp_le)
    also have "\<dots> \<le> 2 * of_nat P" using up(1) k by simp
    finally show ?thesis using Q0 by (simp add: x' field_simps)
  qed
  have hi: "x < 2 * pow2 k"
  proof -
    have "of_nat P < pow2 k * 2 ^ b" using up(2) k by simp
    also have "\<dots> \<le> pow2 k * (2 * of_nat Q)" using up(3) by (intro mult_left_mono) (auto simp: less_imp_le)
    finally show ?thesis using Q0 by (simp add: x' field_simps)
  qed
  have il: "ilog2 x = (if pow2 k \<le> x then k else k - 1)"
    by (simp add: ilog2_def pq k_def a_def b_def P_def Q_def)
  have half: "pow2 (k - 1) = pow2 k / 2" using pow2_add [of "k - 1" 1] by (simp add: pow2_def)
  have dbl: "pow2 (k + 1) = 2 * pow2 k" using pow2_add [of k 1] by (simp add: pow2_def)
  show "pow2 (ilog2 x) \<le> x" "x < pow2 (ilog2 x + 1)"
    using lo hi by (auto simp: il half dbl)
qed

lemma round_to_error:
  assumes "0 < prec" and "pow2 emin \<le> \<bar>x\<bar>"
  shows "\<bar>round_to prec emin x - x\<bar> \<le> pow2 (- prec) * \<bar>x\<bar>"
proof -
  have x: "0 < \<bar>x\<bar>" using assms(2) pow2_pos [of emin] by linarith
  define e where "e = ilog2 \<bar>x\<bar>"
  have e: "pow2 e \<le> \<bar>x\<bar>" "\<bar>x\<bar> < pow2 (e + 1)" using ilog2_bounds [OF x] by (simp_all add: e_def)
  have "emin \<le> e"
  proof (rule ccontr)
    assume "\<not> emin \<le> e"
    then have "pow2 (e + 1) \<le> pow2 emin" by (intro pow2_mono) simp
    with e(2) assms(2) show False by linarith
  qed
  define u where "u = pow2 (e - prec + 1)"
  have u: "0 < u" by (simp add: u_def)
  have "round_to prec emin x = of_int (round_half_even (x / u)) * u"
    using x \<open>emin \<le> e\<close> by (simp add: round_to_def Let_def e_def [symmetric] u_def max_def)
  then have "round_to prec emin x - x = (of_int (round_half_even (x / u)) - x / u) * u"
    using u by (simp add: left_diff_distrib)
  then have "\<bar>round_to prec emin x - x\<bar> = \<bar>of_int (round_half_even (x / u)) - x / u\<bar> * u"
    using u by (simp add: abs_mult)
  also have "\<dots> \<le> 1 / 2 * u" using u round_half_even_error [of "x / u"] by (intro mult_right_mono) auto
  also have "\<dots> = pow2 (- prec) * pow2 e"
    using pow2_add [of "- prec" "e + 1"] pow2_add [of e 1] by (simp add: u_def pow2_def algebra_simps)
  also have "\<dots> \<le> pow2 (- prec) * \<bar>x\<bar>" using e(1) by (intro mult_left_mono) (auto simp: less_imp_le)
  finally show ?thesis .
qed

lemma fl64_error: "pow2 (- 1022) \<le> \<bar>x\<bar> \<Longrightarrow> \<bar>fl64 x - x\<bar> \<le> \<bar>x\<bar> / 2 ^ 53"
  using round_to_error [of 53 "- 1022" x] by (simp add: fl64_def pow2_def)

lemma fl32_error: "pow2 (- 126) \<le> \<bar>x\<bar> \<Longrightarrow> \<bar>fl32 x - x\<bar> \<le> \<bar>x\<bar> / 16777216"
  using round_to_error [of 24 "- 126" x] by (simp add: fl32_def pow2_def)

lemma round6_granular: "round6 x = 0 \<or> 1 / 1000000 \<le> \<bar>round6 x\<bar>"
proof -
  obtain i :: int where i: "round6 x = of_int i / 1000000"
    by (cases "x < 0") (auto simp: round6_def intro: that [of "- round_half_even (- x * 1000000)"])
  show ?thesis
  proof (cases "i = 0")
    case False
    then have "1 \<le> \<bar>i\<bar>" by simp
    then have "(1 :: rat) \<le> \<bar>of_int i\<bar>" by (simp flip: of_int_abs)
    then show ?thesis by (simp add: i)
  qed (simp add: i)
qed

text \<open>Printing and reading a \<^verbatim>\<open>float\<close> gives its six-decimal rounding, rounded to a \<^verbatim>\<open>float\<close>.\<close>

lemma stof_to_string [codec_simps]:
  assumes "\<bar>x\<bar> \<le> pow2 126"
  shows "stof (to_string_float x) = Inr (fl32 (round6 x))"
proof (cases "round6 x = 0")
  case False
  have b: "pow2 (- 126) \<le> 1 / 1000000" by (simp add: pow2_def)
  have v: "pow2 (- 126) \<le> \<bar>round6 x\<bar>" using False round6_granular [of x] b by linarith
  have one: "(1 :: rat) \<le> pow2 126" by (simp add: pow2_def)
  have "\<bar>round6 x\<bar> \<le> 2 * pow2 126" using round6_error [of x] assms one by linarith
  then have "\<bar>fl32 (round6 x)\<bar> < 4 * pow2 126" using fl32_error [OF v] one by linarith
  also have "4 * pow2 126 = pow2 128" by (simp add: pow2_def)
  finally show ?thesis using False v by (simp add: stof_def scan_decimal_to_string)
qed (simp add: stof_def scan_decimal_to_string)

lemma float_text_error:
  assumes "\<bar>x\<bar> \<le> 1"
  shows "\<bar>fl32 (round6 x) - x\<bar> \<le> 1 / 1000000"
proof (cases "round6 x = 0")
  case True
  then show ?thesis using round6_error [of x] by simp
next
  case False
  have "pow2 (- 126) \<le> \<bar>round6 x\<bar>"
    using False round6_granular [of x] by (simp add: pow2_def)
  from fl32_error [OF this] have "\<bar>fl32 (round6 x) - round6 x\<bar> \<le> \<bar>round6 x\<bar> / 16777216" .
  with round6_error [of x] assms show ?thesis by linarith
qed

lemma to_string_float_chars:
  "c \<in> set (to_string_float x) \<Longrightarrow> is_digit c \<or> c = CHR ''-'' \<or> c = CHR ''.''"
  by (auto simp: to_string_float_def Let_def dest: dec_of_nat_digits pad6_digits split: if_splits)

lemma to_string_float_simps [simp]:
  "to_string_float x \<noteq> []" "CHR ''|'' \<notin> set (to_string_float x)" "CHR '';'' \<notin> set (to_string_float x)"
proof -
  show "to_string_float x \<noteq> []" by (simp add: to_string_float_def Let_def)
  show "CHR ''|'' \<notin> set (to_string_float x)" "CHR '';'' \<notin> set (to_string_float x)"
    using to_string_float_chars [of "CHR ''|''" x] to_string_float_chars [of "CHR '';''" x]
    by (auto simp: is_digit_def)
qed

end
