(* ===== verification/Meta_Coordinator.thy ===== *)
theory Meta_Coordinator
  imports Cxx_Float
begin

text \<open>
  The in-memory metadata tables, \<^verbatim>\<open>src/meta/meta_coordinator.{h,cpp}\<close>: the chunk table and
  the node table, and the operations that the log, the snapshots and the background thread apply
  to them. Every method holds the object's mutex for its whole body, so a method is one function
  on the state. \<^verbatim>\<open>unix_ms()\<close> is an argument. The tables are hash tables whose iteration
  order is unspecified: the methods that iterate take a function \<open>ord\<close> that arranges the visited
  values, of which only that it is a permutation is ever assumed.
\<close>

section \<open>State\<close>

text \<open>
  The enumeration has the underlying type \<^verbatim>\<open>int\<close>: a cast can give it a value outside its
  named ones.
\<close>

datatype chunk_config_state = STABLE | TRANSITIONING | UNNAMED_STATE int

record chunk_entry =
  ce_chunk_id :: string
  ce_version :: u64
  ce_replica_set :: "string list"
  ce_replication_factor :: int
  ce_config_state :: chunk_config_state
  ce_old_replica_set :: "string list"
  ce_size_bytes :: u64

record node_entry =
  ne_node_id :: string
  ne_address :: string
  ne_load_fraction :: float32
  ne_free_bytes :: u64
  ne_total_bytes :: u64
  ne_failure_rate_7d :: float32
  ne_last_seen_ms :: u64
  ne_alive :: bool

record coordinator =
  chunk_table :: "(string, chunk_entry) umap"
  node_table :: "(string, node_entry) umap"

definition empty_coordinator :: coordinator where
  "empty_coordinator = \<lparr>chunk_table = [], node_table = []\<rparr>"

section \<open>Operations\<close>

definition apply_put_chunk :: "string \<Rightarrow> u64 \<Rightarrow> int \<Rightarrow> string list \<Rightarrow> u64 \<Rightarrow> coordinator \<Rightarrow> coordinator" where
  "apply_put_chunk cid size_bytes desired_rf replicas version c =
     c\<lparr>chunk_table := um_assign cid
        \<lparr>ce_chunk_id = cid, ce_version = version, ce_replica_set = replicas,
         ce_replication_factor = desired_rf, ce_config_state = STABLE,
         ce_old_replica_set = [], ce_size_bytes = size_bytes\<rparr> (chunk_table c)\<rparr>"

definition apply_delete_chunk :: "string \<Rightarrow> coordinator \<Rightarrow> coordinator" where
  "apply_delete_chunk cid c = c\<lparr>chunk_table := um_erase cid (chunk_table c)\<rparr>"

definition apply_reconfig_start :: "string \<Rightarrow> string list \<Rightarrow> string list \<Rightarrow> coordinator \<Rightarrow> coordinator" where
  "apply_reconfig_start cid old_set new_set c = (case um_find (chunk_table c) cid of
     None \<Rightarrow> c
   | Some e \<Rightarrow> c\<lparr>chunk_table := um_assign cid
        (e\<lparr>ce_config_state := TRANSITIONING, ce_replication_factor := cast_int (length new_set),
           ce_old_replica_set := old_set, ce_replica_set := new_set\<rparr>) (chunk_table c)\<rparr>)"

definition apply_reconfig_commit :: "string \<Rightarrow> string list \<Rightarrow> coordinator \<Rightarrow> coordinator" where
  "apply_reconfig_commit cid new_set c = (case um_find (chunk_table c) cid of
     None \<Rightarrow> c
   | Some e \<Rightarrow> c\<lparr>chunk_table := um_assign cid
        (e\<lparr>ce_config_state := STABLE, ce_replication_factor := cast_int (length new_set),
           ce_replica_set := new_set, ce_old_replica_set := []\<rparr>) (chunk_table c)\<rparr>)"

definition apply_heartbeat ::
  "u64 \<Rightarrow> string \<Rightarrow> string \<Rightarrow> float32 \<Rightarrow> u64 \<Rightarrow> u64 \<Rightarrow> float32 \<Rightarrow> coordinator \<Rightarrow> coordinator" where
  "apply_heartbeat now nid address load free_bytes total_bytes fail_rate c =
     c\<lparr>node_table := um_assign nid
        \<lparr>ne_node_id = nid, ne_address = address, ne_load_fraction = load, ne_free_bytes = free_bytes,
         ne_total_bytes = total_bytes, ne_failure_rate_7d = fail_rate, ne_last_seen_ms = now,
         ne_alive = True\<rparr> (node_table c)\<rparr>"

definition get_chunk :: "coordinator \<Rightarrow> string \<Rightarrow> chunk_entry option" where
  "get_chunk c cid = um_find (chunk_table c) cid"

definition get_chunks :: "(chunk_entry list \<Rightarrow> chunk_entry list) \<Rightarrow> coordinator \<Rightarrow> chunk_entry list" where
  "get_chunks ord c = ord (um_values (chunk_table c))"

definition get_nodes :: "(node_entry list \<Rightarrow> node_entry list) \<Rightarrow> coordinator \<Rightarrow> node_entry list" where
  "get_nodes ord c = ord (um_values (node_table c))"

definition get_alive_nodes :: "(node_entry list \<Rightarrow> node_entry list) \<Rightarrow> coordinator \<Rightarrow> node_entry list" where
  "get_alive_nodes ord c = filter ne_alive (ord (um_values (node_table c)))"

definition restore_snapshot :: "node_entry list \<Rightarrow> chunk_entry list \<Rightarrow> coordinator \<Rightarrow> coordinator" where
  "restore_snapshot nodes chunks c =
     c\<lparr>node_table := fold (\<lambda>n. um_assign (ne_node_id n) n) nodes [],
       chunk_table := fold (\<lambda>e. um_assign (ce_chunk_id e) e) chunks []\<rparr>"

text \<open>The subtraction is on \<^verbatim>\<open>uint64_t\<close> and wraps around.\<close>

definition evict_stale_nodes :: "u64 \<Rightarrow> u64 \<Rightarrow> coordinator \<Rightarrow> coordinator" where
  "evict_stale_nodes now timeout_ms c =
     c\<lparr>node_table := um_map (\<lambda>_ n. if ne_alive n \<and> timeout_ms < now - ne_last_seen_ms n
                                   then n\<lparr>ne_alive := False\<rparr> else n) (node_table c)\<rparr>"

definition next_version :: "coordinator \<Rightarrow> string \<Rightarrow> u64" where
  "next_version c cid = (case um_find (chunk_table c) cid of Some e \<Rightarrow> ce_version e | None \<Rightarrow> 0) + 1"

lemmas coordinator_ops = apply_put_chunk_def apply_delete_chunk_def apply_reconfig_start_def
  apply_reconfig_commit_def apply_heartbeat_def evict_stale_nodes_def

section \<open>The iteration order\<close>

text \<open>An iteration order: it visits every value of the table as often as it occurs there.\<close>

definition visits_all :: "('a list \<Rightarrow> 'a list) \<Rightarrow> bool" where
  "visits_all ord \<longleftrightarrow> (\<forall>xs. mset (ord xs) = mset xs)"

lemma visits_all_simps:
  assumes "visits_all ord"
  shows "set (ord xs) = set xs" "length (ord xs) = length xs"
    "distinct (map f (ord xs)) = distinct (map f xs)"
proof -
  have m: "mset (ord xs) = mset xs" using assms by (simp add: visits_all_def)
  show "set (ord xs) = set xs" using m by (metis set_mset_mset)
  show "length (ord xs) = length xs" using m by (metis size_mset)
  have "mset (map f (ord xs)) = mset (map f xs)" using m by simp
  then show "distinct (map f (ord xs)) = distinct (map f xs)" by (rule mset_eq_imp_distinct_iff)
qed

lemma visits_all_id [simp]: "visits_all (\<lambda>xs. xs)" and visits_all_rev [simp]: "visits_all rev"
  by (simp_all add: visits_all_def)

section \<open>Invariant\<close>

text \<open>
  Every key occurs once and names the entry stored under it, and a chunk that is not in
  transition has no old replica set.
\<close>

definition chunk_ok :: "chunk_entry \<Rightarrow> bool" where
  "chunk_ok e \<longleftrightarrow> (ce_config_state e = STABLE \<longrightarrow> ce_old_replica_set e = [])"

definition coord_inv :: "coordinator \<Rightarrow> bool" where
  "coord_inv c \<longleftrightarrow> um_wf (chunk_table c) \<and> um_wf (node_table c) \<and>
     (\<forall>k e. um_find (chunk_table c) k = Some e \<longrightarrow> ce_chunk_id e = k \<and> chunk_ok e) \<and>
     (\<forall>k n. um_find (node_table c) k = Some n \<longrightarrow> ne_node_id n = k)"

lemma coord_inv_empty [simp]: "coord_inv empty_coordinator"
  by (simp add: coord_inv_def empty_coordinator_def)

lemma coord_inv_put: "coord_inv c \<Longrightarrow> coord_inv (apply_put_chunk cid sz rf reps v c)"
  by (auto simp: coord_inv_def apply_put_chunk_def chunk_ok_def)

lemma coord_inv_delete: "coord_inv c \<Longrightarrow> coord_inv (apply_delete_chunk cid c)"
  by (auto simp: coord_inv_def apply_delete_chunk_def)

lemma coord_inv_start: "coord_inv c \<Longrightarrow> coord_inv (apply_reconfig_start cid os ns c)"
  by (auto simp: coord_inv_def apply_reconfig_start_def chunk_ok_def split: option.split)

lemma coord_inv_commit: "coord_inv c \<Longrightarrow> coord_inv (apply_reconfig_commit cid ns c)"
  by (auto simp: coord_inv_def apply_reconfig_commit_def chunk_ok_def split: option.split)

lemma coord_inv_heartbeat: "coord_inv c \<Longrightarrow> coord_inv (apply_heartbeat now nid a l f t r c)"
  by (auto simp: coord_inv_def apply_heartbeat_def)

lemma coord_inv_evict: "coord_inv c \<Longrightarrow> coord_inv (evict_stale_nodes now timeout c)"
  by (auto simp: coord_inv_def evict_stale_nodes_def split: if_splits)

lemmas coord_inv_ops = coord_inv_put coord_inv_delete coord_inv_start coord_inv_commit
  coord_inv_heartbeat coord_inv_evict

lemma fold_assign_wf: "um_wf m \<Longrightarrow> um_wf (fold (\<lambda>e. um_assign (f e) e) es m)"
  by (induction es arbitrary: m) auto

lemma fold_assign_find:
  "um_find (fold (\<lambda>e. um_assign (f e) e) es m) k =
     (case filter (\<lambda>e. f e = k) (rev es) of e # _ \<Rightarrow> Some e | [] \<Rightarrow> um_find m k)"
proof (induction es arbitrary: m)
  case (Cons e es)
  show ?case
    by (cases "filter (\<lambda>e. f e = k) (rev es)") (auto simp: Cons.IH)
qed simp

lemma fold_assign_find_distinct:
  assumes "distinct (map f es)"
  shows "um_find (fold (\<lambda>e. um_assign (f e) e) es []) k = List.find (\<lambda>e. f e = k) es"
proof -
  have one: "filter (\<lambda>e. f e = k) es = (case List.find (\<lambda>e. f e = k) es of None \<Rightarrow> [] | Some e \<Rightarrow> [e])"
    using assms
  proof (induction es)
    case (Cons e es)
    show ?case
    proof (cases "f e = k")
      case True
      with Cons.prems have "\<forall>x \<in> set es. f x \<noteq> k" by (auto simp: image_iff)
      with True show ?thesis by (simp add: filter_empty_conv)
    next
      case False
      with Cons show ?thesis by simp
    qed
  qed simp
  show ?thesis
    by (subst fold_assign_find) (simp add: rev_filter [symmetric] one split: option.split)
qed

lemma fold_assign_origin:
  "um_find (fold (\<lambda>e. um_assign (f e) e) es m) k = Some e \<Longrightarrow>
     (e \<in> set es \<and> f e = k) \<or> um_find m k = Some e"
  by (induction es arbitrary: m) (fastforce split: if_splits)+

lemma coord_inv_restore:
  assumes "\<forall>e \<in> set chunks. chunk_ok e"
  shows "coord_inv (restore_snapshot nodes chunks c)"
proof -
  have "um_wf (fold (\<lambda>n. um_assign (ne_node_id n) n) nodes [])"
    "um_wf (fold (\<lambda>e. um_assign (ce_chunk_id e) e) chunks [])" by (rule fold_assign_wf; simp)+
  with assms show ?thesis
    by (auto simp: coord_inv_def restore_snapshot_def dest!: fold_assign_origin)
qed

section \<open>Facts the other components use\<close>

lemma get_chunk_put [simp]: "get_chunk (apply_put_chunk cid sz rf reps v c) k = (if k = cid then
    Some \<lparr>ce_chunk_id = cid, ce_version = v, ce_replica_set = reps, ce_replication_factor = rf,
          ce_config_state = STABLE, ce_old_replica_set = [], ce_size_bytes = sz\<rparr>
    else get_chunk c k)"
  by (simp add: get_chunk_def apply_put_chunk_def)

lemma get_chunk_delete [simp]:
  "get_chunk (apply_delete_chunk cid c) k = (if k = cid then None else get_chunk c k)"
  by (simp add: get_chunk_def apply_delete_chunk_def)

lemma get_chunk_start [simp]:
  "get_chunk (apply_reconfig_start cid os ns c) k = (if k = cid then
     map_option (\<lambda>e. e\<lparr>ce_config_state := TRANSITIONING, ce_replication_factor := cast_int (length ns),
       ce_old_replica_set := os, ce_replica_set := ns\<rparr>) (get_chunk c k) else get_chunk c k)"
  by (simp add: get_chunk_def apply_reconfig_start_def split: option.split)

lemma get_chunk_commit [simp]:
  "get_chunk (apply_reconfig_commit cid ns c) k = (if k = cid then
     map_option (\<lambda>e. e\<lparr>ce_config_state := STABLE, ce_replication_factor := cast_int (length ns),
       ce_replica_set := ns, ce_old_replica_set := []\<rparr>) (get_chunk c k) else get_chunk c k)"
  by (simp add: get_chunk_def apply_reconfig_commit_def split: option.split)

lemma get_chunk_heartbeat [simp]: "get_chunk (apply_heartbeat now nid a l f t r c) k = get_chunk c k"
  by (simp add: get_chunk_def apply_heartbeat_def)

lemma get_chunk_evict [simp]: "get_chunk (evict_stale_nodes now timeout c) k = get_chunk c k"
  by (simp add: get_chunk_def evict_stale_nodes_def)

lemma get_chunk_empty [simp]: "get_chunk empty_coordinator k = None"
  by (simp add: get_chunk_def empty_coordinator_def)

lemma um_values_iff:
  assumes "um_wf m" and "\<And>k v. um_find m k = Some v \<Longrightarrow> f v = k"
  shows "v \<in> set (um_values m) \<longleftrightarrow> um_find m (f v) = Some v"
proof -
  have "v \<in> set (um_values m) \<longleftrightarrow> (\<exists>k. (k, v) \<in> set m)" by (force simp: um_values_def)
  also have "\<dots> \<longleftrightarrow> (\<exists>k. um_find m k = Some v)" using um_find_Some_iff [OF assms(1)] by simp
  also have "\<dots> \<longleftrightarrow> um_find m (f v) = Some v" using assms(2) by blast
  finally show ?thesis .
qed

lemma um_values_ids:
  assumes "um_wf m" and "\<And>k v. um_find m k = Some v \<Longrightarrow> f v = k"
  shows "map f (um_values m) = map fst m"
  unfolding um_values_def using assms um_find_Some_iff [OF assms(1)] by auto

lemma get_chunks_iff:
  assumes "visits_all ord" and "coord_inv c"
  shows "e \<in> set (get_chunks ord c) \<longleftrightarrow> get_chunk c (ce_chunk_id e) = Some e"
  using assms um_values_iff [of "chunk_table c" ce_chunk_id e]
  by (simp add: get_chunks_def get_chunk_def visits_all_simps coord_inv_def)

lemma alive_nodes_iff:
  assumes "visits_all ord" and "coord_inv c"
  shows "n \<in> set (get_alive_nodes ord c) \<longleftrightarrow> um_find (node_table c) (ne_node_id n) = Some n \<and> ne_alive n"
  using assms um_values_iff [of "node_table c" ne_node_id n]
  by (auto simp: get_alive_nodes_def visits_all_simps coord_inv_def)

lemma alive_nodes_distinct:
  assumes "visits_all ord" and "coord_inv c"
  shows "distinct (map ne_node_id (get_alive_nodes ord c))"
proof -
  have "distinct (map ne_node_id (um_values (node_table c)))"
    using assms(2) um_values_ids [of "node_table c" ne_node_id] by (simp add: coord_inv_def um_wf_def)
  then show ?thesis
    using assms(1) by (simp add: get_alive_nodes_def visits_all_simps distinct_map_filter)
qed

lemma restore_values:
  assumes ord: "visits_all ord" and wf: "um_wf m" and key: "\<And>k v. um_find m k = Some v \<Longrightarrow> f v = k"
  shows "um_find (fold (\<lambda>e. um_assign (f e) e) (ord (um_values m)) []) k = um_find m k"
proof -
  define es where "es = ord (um_values m)"
  have d: "distinct (map f es)"
    using um_values_ids [OF wf key] wf ord by (simp add: es_def visits_all_simps um_wf_def)
  have mem: "e \<in> set es \<longleftrightarrow> um_find m (f e) = Some e" for e
    using um_values_iff [OF wf key] ord by (simp add: es_def visits_all_simps)
  have "List.find (\<lambda>e. f e = k) es = um_find m k"
  proof (cases "List.find (\<lambda>e. f e = k) es")
    case None
    then have no: "\<And>e. e \<in> set es \<Longrightarrow> f e \<noteq> k" by (auto simp: find_None_iff)
    have "um_find m k \<noteq> Some e" for e using no [of e] mem [of e] key [of k e] by blast
    then show ?thesis using None by (cases "um_find m k") auto
  next
    case (Some e)
    then have "e \<in> set es" "f e = k" by (auto simp: find_Some_iff)
    then show ?thesis using mem [of e] Some by simp
  qed
  then show ?thesis using fold_assign_find_distinct [OF d] by (simp add: es_def)
qed

section \<open>Properties\<close>

lemma u64_size: "size (w :: u64) = 64"
  by (simp add: size_word.rep_eq)

datatype coord_op =
    Op_put string u64 int "string list" u64
  | Op_delete string
  | Op_reconfig_start string "string list" "string list"
  | Op_reconfig_commit string "string list"
  | Op_heartbeat u64 string string float32 u64 u64 float32
  | Op_evict u64 u64

fun coord_step :: "coord_op \<Rightarrow> coordinator \<Rightarrow> coordinator" where
  "coord_step (Op_put cid sz rf reps v) = apply_put_chunk cid sz rf reps v"
| "coord_step (Op_delete cid) = apply_delete_chunk cid"
| "coord_step (Op_reconfig_start cid os ns) = apply_reconfig_start cid os ns"
| "coord_step (Op_reconfig_commit cid ns) = apply_reconfig_commit cid ns"
| "coord_step (Op_heartbeat now nid a l fb tb fr) = apply_heartbeat now nid a l fb tb fr"
| "coord_step (Op_evict now timeout) = evict_stale_nodes now timeout"

lemma coord_inv_step: "coord_inv c \<Longrightarrow> coord_inv (coord_step p c)"
  by (cases p) (simp_all add: coord_inv_ops)

lemma coord_inv_steps: "coord_inv c \<Longrightarrow> coord_inv (fold coord_step ps c)"
  by (induction ps arbitrary: c) (simp_all add: coord_inv_step)

text \<open>
  C29. After any sequence of updates from the empty tables, every key occurs once, names the entry
  stored under it, and a chunk that is not in transition has an empty old replica set.
\<close>

theorem coordinator_invariant: "coord_inv (fold coord_step ops empty_coordinator)"
  by (rule coord_inv_steps) simp

text \<open>
  Eviction looks at the wrapped-around 64-bit difference: a node stays alive exactly when it
  was alive and \<^verbatim>\<open>now - last_seen\<close>, taken modulo \<open>2 ^ 64\<close>, is within the timeout; nothing else of
  the tables changes.
\<close>

theorem evict_alive_iff:
  "um_find (node_table (evict_stale_nodes now timeout c)) k =
     map_option (\<lambda>n. n\<lparr>ne_alive := ne_alive n \<and>
       (if ne_last_seen_ms n \<le> now then unat now - unat (ne_last_seen_ms n)
        else 2 ^ 64 + unat now - unat (ne_last_seen_ms n)) \<le> unat timeout\<rparr>) (um_find (node_table c) k) \<and>
   chunk_table (evict_stale_nodes now timeout c) = chunk_table c"
proof -
  have d: "unat (now - x) = (if x \<le> now then unat now - unat x else 2 ^ 64 + unat now - unat x)" for x :: u64
    by (simp only: unat_sub_if_size word_le_nat_alt u64_size add.commute [of "unat now"])
  show ?thesis
    by (cases "um_find (node_table c) k")
      (auto simp: evict_stale_nodes_def word_less_nat_alt d not_less)
qed

text \<open>
  A heartbeat stamped later than the evicting thread's clock reading (a clock set back) makes a
  live node dead: the difference wraps to a huge number.
\<close>

theorem evict_future_heartbeat:
  assumes "um_find (node_table c) k = Some n" and "now < ne_last_seen_ms n"
    and "unat (ne_last_seen_ms n) - unat now < 2 ^ 63" and "unat timeout < 2 ^ 63"
  shows "\<exists>n'. um_find (node_table (evict_stale_nodes now timeout c)) k = Some n' \<and> \<not> ne_alive n'"
proof -
  have "unat (now - ne_last_seen_ms n) = 2 ^ 64 + unat now - unat (ne_last_seen_ms n)"
    using unat_sub_if_size [of now "ne_last_seen_ms n"] assms(2)
    by (simp add: word_le_nat_alt word_less_nat_alt size_word.rep_eq)
  moreover have "unat (ne_last_seen_ms n) < 2 ^ 64" by (rule unat_u64_bound)
  ultimately have "timeout < now - ne_last_seen_ms n"
    using assms(2-4) by (simp add: word_less_nat_alt)
  then show ?thesis using assms(1) by (simp add: evict_stale_nodes_def)
qed

theorem evict_future_heartbeat_witness:
  "\<exists>n'. um_find (node_table (evict_stale_nodes 99 10000 (apply_heartbeat 100 ''n1'' ''h:1'' 0 5 9 0 empty_coordinator))) ''n1''
     = Some n' \<and> \<not> ne_alive n'"
  by (rule evict_future_heartbeat [where n = "\<lparr>ne_node_id = ''n1'', ne_address = ''h:1'', ne_load_fraction = 0,
        ne_free_bytes = 5, ne_total_bytes = 9, ne_failure_rate_7d = 0, ne_last_seen_ms = 100, ne_alive = True\<rparr>"])
    (simp_all add: apply_heartbeat_def empty_coordinator_def)

text \<open>
  Restoring what the read methods return gives back the tables: the chunks and nodes listed by
  \<^verbatim>\<open>get_chunks\<close> and \<^verbatim>\<open>get_nodes\<close>, in any iteration order, restored into any coordinator.
\<close>

theorem restore_snapshot_tables:
  assumes "visits_all ordc" and "visits_all ordn" and "coord_inv c"
  shows "um_find (chunk_table (restore_snapshot (get_nodes ordn c) (get_chunks ordc c) c0)) k = um_find (chunk_table c) k \<and>
    um_find (node_table (restore_snapshot (get_nodes ordn c) (get_chunks ordc c) c0)) k = um_find (node_table c) k"
  using assms restore_values [of ordc "chunk_table c" ce_chunk_id] restore_values [of ordn "node_table c" ne_node_id]
  by (simp add: restore_snapshot_def get_chunks_def get_nodes_def coord_inv_def)

lemma coordinator_inv_demo:
  "coord_inv (fold coord_step [Op_put ''a'' 1 2 [''n''] 1, Op_put ''b'' 1 2 [''n''] 1] empty_coordinator)"
  by (rule coord_inv_steps) simp

theorem restore_snapshot_tables_witness:
  "um_find (chunk_table (restore_snapshot (get_nodes rev (fold coord_step [Op_put ''a'' 1 2 [''n''] 1, Op_put ''b'' 1 2 [''n''] 1] empty_coordinator))
     (get_chunks rev (fold coord_step [Op_put ''a'' 1 2 [''n''] 1, Op_put ''b'' 1 2 [''n''] 1] empty_coordinator)) empty_coordinator)) ''a'' \<noteq> None"
  using restore_snapshot_tables [OF visits_all_rev visits_all_rev coordinator_inv_demo, of empty_coordinator "''a''"]
  by (simp add: apply_put_chunk_def empty_coordinator_def)

end
