(* ===== verification/Placement.thy ===== *)
theory Placement
  imports Meta_Coordinator
begin

text \<open>
  Choosing the storage nodes for a chunk, \<^verbatim>\<open>src/meta/placement.{h,cpp}\<close>: a weighted score
  per node in \<^verbatim>\<open>double\<close> arithmetic, and a greedy loop around \<^verbatim>\<open>std::max_element\<close>, or
  a random shuffle in baseline mode. The loop is shown to be a stable sort by decreasing score, cut
  after the requested number of nodes.
\<close>

section \<open>Model\<close>

record placement_config =
  w_load :: float64
  w_cap :: float64
  w_rel :: float64
  w_div :: float64
  random_placement :: bool

definition default_placement_config :: placement_config where
  "default_placement_config = \<lparr>w_load = fl64 (3 / 10), w_cap = fl64 (3 / 10), w_rel = fl64 (2 / 10),
     w_div = fl64 (2 / 10), random_placement = False\<rparr>"

definition score :: "placement_config \<Rightarrow> string list \<Rightarrow> node_entry \<Rightarrow> float64" where
  "score cfg existing_set node =
     (let load_score = fl64 (fl64 (1 - ne_load_fraction node) * w_load cfg);
          cap_score = (if 0 < ne_total_bytes node
            then fl64 (fl64 (double_of_u64 (ne_free_bytes node) / double_of_u64 (ne_total_bytes node)) * w_cap cfg)
            else 0);
          rel_score = fl64 (fl64 (1 - ne_failure_rate_7d node) * w_rel cfg);
          div_score = fl64 ((if ne_node_id node \<in> set existing_set then 0 else 1) * w_div cfg)
      in fl64 (fl64 (fl64 (load_score + cap_score) + rel_score) + div_score))"

text \<open>
  \<^verbatim>\<open>std::max_element\<close>: the position of the first largest element; \<open>largest\<close> is the best so
  far, found at \<open>li\<close>, and \<open>i\<close> the position of the next element.
\<close>

fun max_element_loop :: "('a \<Rightarrow> 'a \<Rightarrow> bool) \<Rightarrow> 'a \<Rightarrow> nat \<Rightarrow> nat \<Rightarrow> 'a list \<Rightarrow> nat" where
  "max_element_loop lt_fn largest li i [] = li"
| "max_element_loop lt_fn largest li i (y # ys) =
     (if lt_fn largest y then max_element_loop lt_fn y i (Suc i) ys
      else max_element_loop lt_fn largest li (Suc i) ys)"

fun max_element :: "('a \<Rightarrow> 'a \<Rightarrow> bool) \<Rightarrow> 'a list \<Rightarrow> nat" where
  "max_element lt_fn [] = 0"
| "max_element lt_fn (x # xs) = max_element_loop lt_fn x 0 1 xs"

text \<open>The greedy loop: the remaining iterations, the candidates left and the set chosen so far.\<close>

fun select_greedy :: "placement_config \<Rightarrow> nat \<Rightarrow> node_entry list \<Rightarrow> string list \<Rightarrow> string list" where
  "select_greedy cfg 0 candidates chosen = []"
| "select_greedy cfg (Suc k) candidates chosen =
     (if candidates = [] then []
      else let best = max_element (\<lambda>a b. score cfg chosen a < score cfg chosen b) candidates;
               nid = ne_node_id (candidates ! best)
           in nid # select_greedy cfg k (remove_nth best candidates) (nid # chosen))"

text \<open>\<open>shuffle\<close> is the arrangement \<^verbatim>\<open>std::shuffle\<close> makes with the thread's generator.\<close>

definition select_nodes ::
  "placement_config \<Rightarrow> (node_entry list \<Rightarrow> node_entry list) \<Rightarrow> int \<Rightarrow> node_entry list \<Rightarrow> string list \<Rightarrow> string list" where
  "select_nodes cfg shuffle n alive_nodes exclude_set =
     (let candidates = filter (\<lambda>node. ne_node_id node \<notin> set exclude_set) alive_nodes in
      if random_placement cfg
      then let cs = shuffle candidates in map ne_node_id (take (nat (min n (cast_int (length cs)))) cs)
      else select_greedy cfg (nat n) candidates [])"

section \<open>The first largest element\<close>

lemma max_element_loop_spec:
  fixes f :: "'a \<Rightarrow> 'b :: linorder"
  assumes "li < i" and "i = length pre" and "pre ! li = largest"
    and "\<And>j. j < length pre \<Longrightarrow> f (pre ! j) \<le> f largest" and "\<And>j. j < li \<Longrightarrow> f (pre ! j) < f largest"
    and "b = max_element_loop (\<lambda>a b. f a < f b) largest li i ys"
  shows "b < length (pre @ ys) \<and> (\<forall>j < length (pre @ ys). f ((pre @ ys) ! j) \<le> f ((pre @ ys) ! b)) \<and>
    (\<forall>j < b. f ((pre @ ys) ! j) < f ((pre @ ys) ! b))"
  using assms
proof (induction ys arbitrary: largest li i pre)
  case Nil
  then show ?case by auto
next
  case (Cons y ys)
  let ?pre = "pre @ [y]"
  show ?case
  proof (cases "f largest < f y")
    case True
    have le: "f (?pre ! j) \<le> f y" if "j < length ?pre" for j
      using that True Cons.prems(4) [of j] by (cases "j < length pre") (auto simp: nth_append less_Suc_eq)
    have lt: "f (?pre ! j) < f y" if "j < i" for j
      using that True Cons.prems(2) Cons.prems(4) [of j] by (auto simp: nth_append)
    have "b = max_element_loop (\<lambda>a b. f a < f b) y i (Suc i) ys" using Cons.prems(6) True by simp
    then show ?thesis using Cons.IH [of i "Suc i" ?pre y] le lt Cons.prems(2) by simp
  next
    case False
    have le: "f (?pre ! j) \<le> f largest" if "j < length ?pre" for j
      using that False Cons.prems(4) [of j] by (cases "j < length pre") (auto simp: nth_append less_Suc_eq)
    have lt: "f (?pre ! j) < f largest" if "j < li" for j
      using that Cons.prems(1,2) Cons.prems(5) [of j] by (auto simp: nth_append)
    have "b = max_element_loop (\<lambda>a b. f a < f b) largest li (Suc i) ys" using Cons.prems(6) False by simp
    then show ?thesis
      using Cons.IH [of li "Suc i" ?pre largest] le lt Cons.prems(1-3) by (simp add: nth_append)
  qed
qed

lemma max_element_spec:
  fixes f :: "'a \<Rightarrow> 'b :: linorder"
  assumes "xs \<noteq> []"
  defines "b \<equiv> max_element (\<lambda>a b. f a < f b) xs"
  shows "b < length xs" "\<And>j. j < length xs \<Longrightarrow> f (xs ! j) \<le> f (xs ! b)" "\<And>j. j < b \<Longrightarrow> f (xs ! j) < f (xs ! b)"
proof -
  obtain y ys where "xs = y # ys" using assms(1) by (cases xs) auto
  then have "b < length xs \<and> (\<forall>j < length xs. f (xs ! j) \<le> f (xs ! b)) \<and> (\<forall>j < b. f (xs ! j) < f (xs ! b))"
    using max_element_loop_spec [of 0 1 "[y]" y f b ys] by (simp add: b_def)
  then show "b < length xs" "\<And>j. j < length xs \<Longrightarrow> f (xs ! j) \<le> f (xs ! b)" "\<And>j. j < b \<Longrightarrow> f (xs ! j) < f (xs ! b)"
    by auto
qed

section \<open>Greedy selection is a stable sort\<close>

lemma remove_nth_mset: "i < length xs \<Longrightarrow> add_mset (xs ! i) (mset (remove_nth i xs)) = mset xs"
proof -
  assume i: "i < length xs"
  then have "mset xs = mset (take i xs @ xs ! i # drop (Suc i) xs)" by (simp add: id_take_nth_drop [symmetric])
  then show ?thesis by (simp add: remove_nth_def)
qed

lemma remove_nth_length: "i < length xs \<Longrightarrow> length (remove_nth i xs) = length xs - 1"
  by (simp add: remove_nth_def)

lemma filter_remove_nth_other: "i < length xs \<Longrightarrow> \<not> P (xs ! i) \<Longrightarrow> filter P (remove_nth i xs) = filter P xs"
proof -
  assume "i < length xs" and no: "\<not> P (xs ! i)"
  then have "filter P xs = filter P (take i xs @ xs ! i # drop (Suc i) xs)" by (simp add: id_take_nth_drop [symmetric])
  then show ?thesis using no by (simp add: remove_nth_def)
qed

lemma filter_remove_nth_first:
  assumes "i < length xs" and "P (xs ! i)" and "\<And>j. j < i \<Longrightarrow> \<not> P (xs ! j)"
  shows "filter P xs = xs ! i # filter P (remove_nth i xs)"
proof -
  have "filter P (take i xs) = []" using assms(1,3) by (auto simp: filter_empty_conv in_set_conv_nth)
  moreover have "filter P xs = filter P (take i xs @ xs ! i # drop (Suc i) xs)"
    using assms(1) by (simp add: id_take_nth_drop [symmetric])
  ultimately show ?thesis using assms(2) by (simp add: remove_nth_def)
qed

lemma sort_key_filter: "filter (\<lambda>y. c = f y) (sort_key f zs) = filter (\<lambda>y. c = f y) zs"
  using sort_key_stable [of f c zs] by (simp add: eq_commute)

lemma sort_key_first_min:
  fixes f :: "'a \<Rightarrow> 'b :: linorder"
  assumes i: "i < length xs" and min: "\<And>j. j < length xs \<Longrightarrow> f (xs ! i) \<le> f (xs ! j)"
    and first: "\<And>j. j < i \<Longrightarrow> f (xs ! i) < f (xs ! j)"
  shows "sort_key f xs = xs ! i # sort_key f (remove_nth i xs)"
proof (rule properties_for_sort_key)
  show "mset (xs ! i # sort_key f (remove_nth i xs)) = mset xs" using remove_nth_mset [OF i] by simp
  have "\<forall>y \<in> set xs. f (xs ! i) \<le> f y" using min by (auto simp: in_set_conv_nth)
  then show "sorted (map f (xs ! i # sort_key f (remove_nth i xs)))" using set_remove_nth [of i xs] by auto
next
  fix k
  assume "k \<in> set (xs ! i # sort_key f (remove_nth i xs))"
  show "filter (\<lambda>y. f k = f y) (xs ! i # sort_key f (remove_nth i xs)) = filter (\<lambda>y. f k = f y) xs"
  proof (cases "f k = f (xs ! i)")
    case True
    have "filter (\<lambda>y. f k = f y) xs = xs ! i # filter (\<lambda>y. f k = f y) (remove_nth i xs)"
      using i first True by (intro filter_remove_nth_first) fastforce+
    then show ?thesis using True by (simp add: sort_key_filter)
  next
    case False
    have "filter (\<lambda>y. f k = f y) (remove_nth i xs) = filter (\<lambda>y. f k = f y) xs"
      using i False by (intro filter_remove_nth_other) auto
    then show ?thesis using False by (simp add: sort_key_filter)
  qed
qed

text \<open>
  While the candidates are none of the chosen nodes the diversity term is the same for all of them,
  so the scores do not change during the loop.
\<close>

lemma score_not_chosen: "ne_node_id n \<notin> set chosen \<Longrightarrow> score cfg chosen n = score cfg [] n"
  by (simp add: score_def)

lemma distinct_remove_nth:
  assumes "i < length xs" and "distinct (map f xs)"
  shows "distinct (map f (remove_nth i xs))" "f (xs ! i) \<notin> f ` set (remove_nth i xs)"
proof -
  have "distinct (map f (take i xs @ xs ! i # drop (Suc i) xs))"
    using assms by (simp add: id_take_nth_drop [symmetric])
  then show "distinct (map f (remove_nth i xs))" "f (xs ! i) \<notin> f ` set (remove_nth i xs)"
    by (auto simp: remove_nth_def)
qed

lemma max_element_cong:
  assumes "\<And>x. x \<in> set xs \<Longrightarrow> f x = g x"
  shows "max_element (\<lambda>a b. f a < f b) xs = max_element (\<lambda>a b. g a < g b) xs"
proof -
  have "x \<in> set zs \<Longrightarrow> set ys \<subseteq> set zs \<Longrightarrow> (\<And>x. x \<in> set zs \<Longrightarrow> f x = g x) \<Longrightarrow>
      max_element_loop (\<lambda>a b. f a < f b) x li i ys = max_element_loop (\<lambda>a b. g a < g b) x li i ys" for x li i ys zs
    by (induction ys arbitrary: x li i) auto
  from this [of _ xs] show ?thesis using assms by (cases xs) auto
qed

lemma select_greedy_sort:
  assumes "distinct (map ne_node_id cs)" and "ne_node_id ` set cs \<inter> set chosen = {}"
  shows "select_greedy cfg k cs chosen = map ne_node_id (take k (sort_key (\<lambda>n. - score cfg [] n) cs))"
  using assms
proof (induction k arbitrary: cs chosen)
  case (Suc k)
  show ?case
  proof (cases "cs = []")
    case False
    define f where "f = score cfg []"
    define b where "b = max_element (\<lambda>a b. f a < f b) cs"
    have eq: "max_element (\<lambda>a b. score cfg chosen a < score cfg chosen b) cs = b"
      unfolding b_def f_def using Suc.prems(2) by (intro max_element_cong score_not_chosen) auto
    note spec = max_element_spec [OF False, where f = f, folded b_def]
    have "sort_key (\<lambda>n. - f n) cs = cs ! b # sort_key (\<lambda>n. - f n) (remove_nth b cs)"
      using spec by (intro sort_key_first_min) auto
    moreover have "select_greedy cfg k (remove_nth b cs) (ne_node_id (cs ! b) # chosen) =
        map ne_node_id (take k (sort_key (\<lambda>n. - f n) (remove_nth b cs)))"
      unfolding f_def using Suc.prems distinct_remove_nth [OF spec(1) Suc.prems(1)] set_remove_nth [of b cs]
      by (intro Suc.IH) auto
    ultimately show ?thesis using False eq by (simp add: Let_def f_def)
  qed simp
qed simp

section \<open>Every mode\<close>

lemma select_nodes_props:
  assumes "visits_all shuffle" and "distinct (map ne_node_id alive)" and "length alive < 2 ^ 31" and "0 \<le> n"
  shows "distinct (select_nodes cfg shuffle n alive exclude) \<and>
    set (select_nodes cfg shuffle n alive exclude) \<subseteq> ne_node_id ` set alive - set exclude \<and>
    length (select_nodes cfg shuffle n alive exclude) =
      min (nat n) (length (filter (\<lambda>x. ne_node_id x \<notin> set exclude) alive))"
proof -
  define cs where "cs = filter (\<lambda>x. ne_node_id x \<notin> set exclude) alive"
  have d: "distinct (map ne_node_id cs)" using assms(2) by (simp add: cs_def distinct_map_filter)
  have sub: "ne_node_id ` set cs \<subseteq> ne_node_id ` set alive - set exclude" by (auto simp: cs_def)
  have len: "length cs < 2 ^ 31" unfolding cs_def using length_filter_le assms(3) by (rule le_less_trans)
  show ?thesis
  proof (cases "random_placement cfg")
    case True
    have sh: "distinct (map ne_node_id (shuffle cs))" "set (shuffle cs) = set cs" "length (shuffle cs) = length cs"
      using assms(1) d by (simp_all add: visits_all_simps)
    have "distinct (map ne_node_id (take k (shuffle cs)))" for k using sh(1) by (metis distinct_take take_map)
    moreover have "set (map ne_node_id (take k (shuffle cs))) \<subseteq> ne_node_id ` set cs" for k
      using sh(2) by (auto dest: in_set_takeD)
    moreover have "nat (min n (cast_int (length (shuffle cs)))) = min (nat n) (length cs)"
      using len sh(3) assms(4) by (auto simp: cast_int_id min_def)
    ultimately show ?thesis using True sub sh(3) unfolding cs_def [symmetric]
      by (simp add: select_nodes_def cs_def [symmetric] Let_def) (meson subset_trans)
  next
    case False
    define srt where "srt = sort_key (\<lambda>x. - score cfg [] x) cs"
    have eq: "select_nodes cfg shuffle n alive exclude = map ne_node_id (take (nat n) srt)"
      using False d by (simp add: select_nodes_def Let_def select_greedy_sort cs_def srt_def)
    have srt: "distinct (map ne_node_id srt)" "set srt = set cs" "length srt = length cs"
      using d by (simp_all add: srt_def mset_eq_imp_distinct_iff [of "map ne_node_id (sort_key _ cs)" "map ne_node_id cs"])
    have "distinct (map ne_node_id (take (nat n) srt))" using srt(1) by (metis distinct_take take_map)
    moreover have "set (map ne_node_id (take (nat n) srt)) \<subseteq> ne_node_id ` set cs"
      using srt(2) by (auto dest: in_set_takeD)
    ultimately show ?thesis using sub srt(3) unfolding eq cs_def [symmetric] by (auto simp: min.commute)
  qed
qed

section \<open>Properties\<close>

text \<open>
  C27. In adaptive mode the greedy loop returns the requested number of best-scored candidates: the
  stable sort of the alive nodes that are not excluded by decreasing score, cut after \<open>n\<close>. The
  diversity weight plays no part in the order.
\<close>

theorem select_nodes_best:
  assumes "\<not> random_placement cfg" and "distinct (map ne_node_id alive)"
  shows "select_nodes cfg shuffle n alive exclude = map ne_node_id
    (take (nat n) (sort_key (\<lambda>x. - score cfg [] x) (filter (\<lambda>x. ne_node_id x \<notin> set exclude) alive)))"
  using assms by (simp add: select_nodes_def Let_def select_greedy_sort distinct_map_filter)

lemma demo_alive_distinct:
  "distinct (map ne_node_id [\<lparr>ne_node_id = ''n1'', ne_address = ''h:1'', ne_load_fraction = 0, ne_free_bytes = 1,
     ne_total_bytes = 2, ne_failure_rate_7d = 0, ne_last_seen_ms = 0, ne_alive = True\<rparr>])"
  by simp

theorem select_nodes_best_witness:
  "select_nodes default_placement_config (\<lambda>xs. xs) 3 [\<lparr>ne_node_id = ''n1'', ne_address = ''h:1'', ne_load_fraction = 0, ne_free_bytes = 1,
     ne_total_bytes = 2, ne_failure_rate_7d = 0, ne_last_seen_ms = 0, ne_alive = True\<rparr>] [''n2''] = [''n1'']"
  using select_nodes_best [OF _ demo_alive_distinct, of default_placement_config "\<lambda>xs. xs" 3 "[''n2'']"]
  by (simp add: default_placement_config_def)

text \<open>
  Whatever the mode and the shuffle, the nodes selected are distinct alive nodes outside the
  excluded set, as many as were asked for or as there are.
\<close>

theorem select_nodes_sound:
  assumes "visits_all shuffle" and "distinct (map ne_node_id alive)" and "length alive < 2 ^ 31" and "0 \<le> n"
  shows "distinct (select_nodes cfg shuffle n alive exclude) \<and>
    set (select_nodes cfg shuffle n alive exclude) \<subseteq> ne_node_id ` set alive - set exclude \<and>
    length (select_nodes cfg shuffle n alive exclude) =
      min (nat n) (length (filter (\<lambda>x. ne_node_id x \<notin> set exclude) alive))"
  by (rule select_nodes_props [OF assms])

theorem select_nodes_sound_witness:
  "length (select_nodes (default_placement_config\<lparr>random_placement := True\<rparr>) rev 2 [\<lparr>ne_node_id = ''n1'', ne_address = ''h:1'', ne_load_fraction = 0, ne_free_bytes = 1,
     ne_total_bytes = 2, ne_failure_rate_7d = 0, ne_last_seen_ms = 0, ne_alive = True\<rparr>] []) = 1"
  using select_nodes_sound [OF visits_all_rev demo_alive_distinct, of 2 "default_placement_config\<lparr>random_placement := True\<rparr>" "[]"]
  by simp

end
