(* ===== verification/RocksDB.thy ===== *)
theory RocksDB
  imports Prelude "HOL-Library.Char_ord" "HOL-Library.List_Lexorder"
begin

text \<open>
  The interface of the third-party store RocksDB as far as \<^verbatim>\<open>meta_wal.cpp\<close> and
  \<^verbatim>\<open>chunk_store.cpp\<close> call it. The store is a parameter of the model: a record of its
  operations over an arbitrary type of database states. What the two clients rely on is stated
  as three locales, each extending the one before: point reads after writes (\<open>kv_store\<close>), the
  ordered operations of the default byte-wise comparator (\<open>rocksdb\<close>), and a store whose
  writes all succeed (\<open>reliable_rocksdb\<close>). \<open>mem_rocksdb\<close> is a concrete store that satisfies
  them, used to evaluate the model.
\<close>

section \<open>Operations\<close>

text \<open>
  \<open>db_get\<close> is \<^verbatim>\<open>Get(key, &val).ok()\<close>; \<open>db_put\<close> and \<open>db_delete_range\<close> return the
  status of the write; \<open>db_seek_prev\<close> is an iterator after \<^verbatim>\<open>SeekForPrev\<close>
  (\<open>None\<close> when it is not \<^verbatim>\<open>Valid\<close>); \<open>db_scan\<close> is what an iterator visits after
  \<^verbatim>\<open>Seek\<close>.
\<close>

record 'db rocksdb_ops =
  db_get :: "'db \<Rightarrow> string \<Rightarrow> string option"
  db_put :: "'db \<Rightarrow> string \<Rightarrow> string \<Rightarrow> bool \<times> 'db"
  db_seek_prev :: "'db \<Rightarrow> string \<Rightarrow> (string \<times> string) option"
  db_scan :: "'db \<Rightarrow> string \<Rightarrow> (string \<times> string) list"
  db_delete_range :: "'db \<Rightarrow> string \<Rightarrow> string \<Rightarrow> bool \<times> 'db"

section \<open>What the clients rely on\<close>

locale kv_store =
  fixes R :: "'db rocksdb_ops"
  assumes get_put_same: "db_put R d k v = (True, d') \<Longrightarrow> db_get R d' k = Some v"
    and get_put_other: "db_put R d k v = (ok, d') \<Longrightarrow> k' \<noteq> k \<Longrightarrow> db_get R d' k' = db_get R d k'"

locale rocksdb = kv_store +
  assumes seek_prev_Some: "db_seek_prev R d t = Some (k, v) \<Longrightarrow>
      k \<le> t \<and> db_get R d k = Some v \<and> (\<forall>k'. k' \<le> t \<and> db_get R d k' \<noteq> None \<longrightarrow> k' \<le> k)"
    and seek_prev_None: "db_seek_prev R d t = None \<Longrightarrow> k \<le> t \<Longrightarrow> db_get R d k = None"
    and scan_set: "(k, v) \<in> set (db_scan R d t) \<longleftrightarrow> t \<le> k \<and> db_get R d k = Some v"
    and scan_sorted: "sorted (map fst (db_scan R d t))"
    and delete_range_ok: "db_delete_range R d a b = (True, d') \<Longrightarrow>
      db_get R d' k = (if a \<le> k \<and> k < b then None else db_get R d k)"
    and delete_range_fail: "db_delete_range R d a b = (False, d') \<Longrightarrow> db_get R d' k = db_get R d k"

locale reliable_rocksdb = rocksdb +
  assumes put_succeeds: "fst (db_put R d k v)"
    and delete_succeeds: "fst (db_delete_range R d a b)"
begin

text \<open>With a reliable store one equation describes a write, whatever key is read back.\<close>

lemma put_ok: "fst (db_put R d k v) = True"
  using put_succeeds by simp

lemma get_put: "db_get R (snd (db_put R d k v)) k' = (if k' = k then Some v else db_get R d k')"
proof -
  obtain ok d' where p: "db_put R d k v = (ok, d')" by (cases "db_put R d k v")
  moreover have "ok" using put_succeeds [of d k v] p by simp
  ultimately show ?thesis by (auto dest: get_put_same get_put_other)
qed

lemma get_delete: "db_get R (snd (db_delete_range R d a b)) k =
    (if a \<le> k \<and> k < b then None else db_get R d k)"
proof -
  obtain ok d' where p: "db_delete_range R d a b = (ok, d')" by (cases "db_delete_range R d a b")
  moreover have "ok" using delete_succeeds [of d a b] p by simp
  ultimately show ?thesis using delete_range_ok [of d a b d' k] by simp
qed

end

section \<open>A store in memory\<close>

type_synonym mem_db = "(string, string) umap"

definition mem_put :: "mem_db \<Rightarrow> string \<Rightarrow> string \<Rightarrow> bool \<times> mem_db" where
  "mem_put d k v = (True, um_assign k v d)"

definition mem_seek_prev :: "mem_db \<Rightarrow> string \<Rightarrow> (string \<times> string) option" where
  "mem_seek_prev d t = (let ks = sort (filter (\<lambda>k. k \<le> t) (map fst d)) in
     if ks = [] then None else map_option (Pair (last ks)) (um_find d (last ks)))"

definition mem_scan :: "mem_db \<Rightarrow> string \<Rightarrow> (string \<times> string) list" where
  "mem_scan d t = map (\<lambda>k. (k, the (um_find d k))) (sort (remdups (filter (\<lambda>k. t \<le> k) (map fst d))))"

definition mem_delete_range :: "mem_db \<Rightarrow> string \<Rightarrow> string \<Rightarrow> bool \<times> mem_db" where
  "mem_delete_range d a b = (True, filter (\<lambda>(k, _). \<not> (a \<le> k \<and> k < b)) d)"

definition mem_rocksdb :: "mem_db rocksdb_ops" where
  "mem_rocksdb = \<lparr>db_get = um_find, db_put = mem_put, db_seek_prev = mem_seek_prev,
     db_scan = mem_scan, db_delete_range = mem_delete_range\<rparr>"

lemma um_find_filter: "um_find (filter (\<lambda>(k, _). P k) d) k = (if P k then um_find d k else None)"
proof (induction d)
  case (Cons p d)
  then show ?case by (cases p) auto
qed simp

lemma um_find_key: "k \<in> fst ` set d \<Longrightarrow> \<exists>v. um_find d k = Some v"
  using um_find_None_iff [of d k] by (cases "um_find d k") auto

lemma mem_seek_prev_Some:
  assumes "mem_seek_prev d t = Some (k, v)"
  shows "k \<le> t \<and> um_find d k = Some v \<and> (\<forall>k'. k' \<le> t \<and> um_find d k' \<noteq> None \<longrightarrow> k' \<le> k)"
proof -
  define ks where "ks = sort (filter (\<lambda>k. k \<le> t) (map fst d))"
  from assms have ne: "ks \<noteq> []" and k: "k = last ks" and v: "um_find d k = Some v"
    by (auto simp: mem_seek_prev_def Let_def ks_def split: if_splits)
  have set_ks: "set ks = {k \<in> fst ` set d. k \<le> t}" by (auto simp: ks_def)
  have srt: "sorted ks" by (simp add: ks_def)
  have "k' \<le> k" if "k' \<in> set ks" for k'
  proof -
    from that obtain i where i: "i < length ks" "ks ! i = k'" by (auto simp: in_set_conv_nth)
    then have "ks ! i \<le> ks ! (length ks - 1)" using srt by (intro sorted_nth_mono) auto
    with i k ne show ?thesis by (simp add: last_conv_nth)
  qed
  moreover from ne k have "k \<in> set ks" by simp
  ultimately show ?thesis
    using v set_ks um_find_None_iff [of d] by auto
qed

lemma mem_seek_prev_None:
  assumes "mem_seek_prev d t = None" and "k \<le> t"
  shows "um_find d k = None"
proof (rule ccontr)
  assume "um_find d k \<noteq> None"
  then have "k \<in> fst ` set d" by (simp add: um_find_None_iff)
  then have k: "k \<in> set (sort (filter (\<lambda>k. k \<le> t) (map fst d)))" using assms(2) by simp
  then have ne: "sort (filter (\<lambda>k. k \<le> t) (map fst d)) \<noteq> []" by (metis list.set_cases list.distinct(1))
  then have "last (sort (filter (\<lambda>k. k \<le> t) (map fst d))) \<in> fst ` set d"
    using last_in_set [OF ne] by (auto simp del: last_in_set)
  with um_find_key ne assms(1) show False by (fastforce simp: mem_seek_prev_def Let_def)
qed

interpretation mem: reliable_rocksdb mem_rocksdb
proof unfold_locales
  fix d k v d' ok k'
  show "db_put mem_rocksdb d k v = (True, d') \<Longrightarrow> db_get mem_rocksdb d' k = Some v"
    by (auto simp: mem_rocksdb_def mem_put_def)
  show "db_put mem_rocksdb d k v = (ok, d') \<Longrightarrow> k' \<noteq> k \<Longrightarrow> db_get mem_rocksdb d' k' = db_get mem_rocksdb d k'"
    by (auto simp: mem_rocksdb_def mem_put_def)
  show "fst (db_put mem_rocksdb d k v)" by (simp add: mem_rocksdb_def mem_put_def)
next
  fix d t k v
  show "db_seek_prev mem_rocksdb d t = Some (k, v) \<Longrightarrow> k \<le> t \<and> db_get mem_rocksdb d k = Some v \<and>
      (\<forall>k'. k' \<le> t \<and> db_get mem_rocksdb d k' \<noteq> None \<longrightarrow> k' \<le> k)"
    using mem_seek_prev_Some [of d t k v] by (simp add: mem_rocksdb_def)
  show "db_seek_prev mem_rocksdb d t = None \<Longrightarrow> k \<le> t \<Longrightarrow> db_get mem_rocksdb d k = None"
    using mem_seek_prev_None [of d t k] by (simp add: mem_rocksdb_def)
  show "(k, v) \<in> set (db_scan mem_rocksdb d t) \<longleftrightarrow> t \<le> k \<and> db_get mem_rocksdb d k = Some v"
    using um_find_None_iff [of d k] um_find_key [of k d]
    by (cases "um_find d k") (auto simp: mem_rocksdb_def mem_scan_def)
  show "sorted (map fst (db_scan mem_rocksdb d t))"
    by (simp add: mem_rocksdb_def mem_scan_def comp_def)
next
  fix d a b d' k
  show "db_delete_range mem_rocksdb d a b = (True, d') \<Longrightarrow>
      db_get mem_rocksdb d' k = (if a \<le> k \<and> k < b then None else db_get mem_rocksdb d k)"
    using um_find_filter [of "\<lambda>k. \<not> (a \<le> k \<and> k < b)" d k]
    by (auto simp: mem_rocksdb_def mem_delete_range_def)
  show "db_delete_range mem_rocksdb d a b = (False, d') \<Longrightarrow> db_get mem_rocksdb d' k = db_get mem_rocksdb d k"
    by (simp add: mem_rocksdb_def mem_delete_range_def)
  show "fst (db_delete_range mem_rocksdb d a b)"
    by (simp add: mem_rocksdb_def mem_delete_range_def)
qed

end
