(* ===== verification/Meta_Wal.thy ===== *)
theory Meta_Wal
  imports RocksDB Text_Codec
begin

text \<open>
  The metadata write-ahead log, \<^verbatim>\<open>src/meta/meta_wal.{h,cpp}\<close>: entries stored under
  \<^verbatim>\<open>wal/<index>\<close>, commit marks under \<^verbatim>\<open>cmt/<index>\<close>, and the two counters
  persisted under \<^verbatim>\<open>meta/last_index\<close> and \<^verbatim>\<open>meta/committed\<close>. Operations take
  the store's operations \<open>R\<close> and thread the object's state; an operation that throws returns the
  exception with the state it leaves. The abstract specification is a list of entries with a
  commit position (\<open>log_spec\<close>); \<open>wal_rel\<close> relates the two, and every operation is shown
  to implement its abstract counterpart.
\<close>

section \<open>Data\<close>

datatype wal_entry_type =
    PUT_CHUNK | DELETE_CHUNK | RECONFIGURE_START | RECONFIGURE_COMMIT | NODE_HEARTBEAT | POLICY_UPDATE
  | UNNAMED u8 \<comment> \<open>a value of the 8-bit enumeration without an enumerator\<close>

text \<open>\<^verbatim>\<open>static_cast<uint8_t>(type)\<close> and the cast back.\<close>

fun type_code :: "wal_entry_type \<Rightarrow> u8" where
  "type_code PUT_CHUNK = 0"
| "type_code DELETE_CHUNK = 1"
| "type_code RECONFIGURE_START = 2"
| "type_code RECONFIGURE_COMMIT = 3"
| "type_code NODE_HEARTBEAT = 4"
| "type_code POLICY_UPDATE = 5"
| "type_code (UNNAMED c) = c"

definition type_of_code :: "u8 \<Rightarrow> wal_entry_type" where
  "type_of_code c = (if c = 0 then PUT_CHUNK else if c = 1 then DELETE_CHUNK
     else if c = 2 then RECONFIGURE_START else if c = 3 then RECONFIGURE_COMMIT
     else if c = 4 then NODE_HEARTBEAT else if c = 5 then POLICY_UPDATE else UNNAMED c)"

definition type_ok :: "wal_entry_type \<Rightarrow> bool" where
  "type_ok t \<longleftrightarrow> type_of_code (type_code t) = t"

record wal_entry =
  we_index :: u64
  we_term :: u64
  we_type :: wal_entry_type
  we_payload :: string

text \<open>The private \<^verbatim>\<open>Impl\<close> of \<^verbatim>\<open>MetaWal\<close>.\<close>

record 'db wal =
  wal_db :: 'db
  last_index :: u64
  committed :: u64

section \<open>Keys and the entry encoding\<close>

definition wal_key :: "u64 \<Rightarrow> string" where
  "wal_key idx = ''wal/'' @ be64 idx"

definition cmt_key :: "u64 \<Rightarrow> string" where
  "cmt_key idx = ''cmt/'' @ be64 idx"

text \<open>
  \<^verbatim>\<open>1 + 8 + 4 + plen\<close> is computed in 32 bits; when it wraps, the copies that follow write
  outside the buffer.
\<close>

definition encode_entry :: "wal_entry \<Rightarrow> cxx_exc + string" where
  "encode_entry e = (let plen = (word_of_nat (length (we_payload e)) :: u32) in
     if unat (1 + 8 + 4 + plen) < 13 + unat plen then Inl Out_of_bounds
     else Inr (char_of (unat (type_code (we_type e))) # be64 (we_term e) @ be32 plen @
               take (unat plen) (we_payload e)))"

text \<open>
  The twelfth byte of a 12-byte string is its terminator, which may be read; the
  \<^verbatim>\<open>substr\<close> that follows then throws.
\<close>

definition decode_entry :: "u64 \<Rightarrow> string \<Rightarrow> cxx_exc + wal_entry" where
  "decode_entry idx raw =
     (if length raw < 12 then Inl Out_of_bounds
      else if length raw < 13 then Inl Out_of_range
      else ebind (read_be64 (drop 1 raw)) (\<lambda>t.
           ebind (read_be32 (drop 9 raw)) (\<lambda>plen.
             Inr \<lparr>we_index = idx, we_term = t, we_type = type_of_code (word_of_nat (of_char (hd raw))),
                  we_payload = take (unat plen) (drop 13 raw)\<rparr>)))"

section \<open>Operations\<close>

text \<open>\<^verbatim>\<open>Impl::open\<close>; the argument is \<open>None\<close> when \<^verbatim>\<open>DB::Open\<close> fails.\<close>

definition wal_open :: "'db rocksdb_ops \<Rightarrow> 'db option \<Rightarrow> cxx_exc + 'db wal" where
  "wal_open R opened = (case opened of
     None \<Rightarrow> Inl (Runtime_error ''MetaWal open failed: '')
   | Some d \<Rightarrow>
       ebind (case db_get R d ''meta/last_index'' of None \<Rightarrow> Inr 0 | Some v \<Rightarrow> read_be64 v) (\<lambda>li.
       ebind (case db_get R d ''meta/committed'' of None \<Rightarrow> Inr 0 | Some v \<Rightarrow> read_be64 v) (\<lambda>c.
         Inr \<lparr>wal_db = d, last_index = li, committed = c\<rparr>)))"

definition persist_last_index :: "'db rocksdb_ops \<Rightarrow> 'db wal \<Rightarrow> 'db wal" where
  "persist_last_index R w = w\<lparr>wal_db := snd (db_put R (wal_db w) ''meta/last_index'' (be64 (last_index w)))\<rparr>"

definition persist_committed :: "'db rocksdb_ops \<Rightarrow> 'db wal \<Rightarrow> 'db wal" where
  "persist_committed R w = w\<lparr>wal_db := snd (db_put R (wal_db w) ''meta/committed'' (be64 (committed w)))\<rparr>"

definition wal_append ::
  "'db rocksdb_ops \<Rightarrow> wal_entry_type \<Rightarrow> u64 \<Rightarrow> string \<Rightarrow> 'db wal \<Rightarrow> (cxx_exc + u64) \<times> 'db wal" where
  "wal_append R ty t p w =
     (let idx = last_index w + 1;
          w1 = w\<lparr>last_index := idx\<rparr>;
          e = \<lparr>we_index = idx, we_term = t, we_type = ty, we_payload = p\<rparr>
      in case encode_entry e of
           Inl x \<Rightarrow> (Inl x, w1)
         | Inr raw \<Rightarrow>
             (let (ok, d1) = db_put R (wal_db w1) (wal_key idx) raw; w2 = w1\<lparr>wal_db := d1\<rparr>
              in if \<not> ok then (Inl (Runtime_error ''WAL append failed: ''), w2)
                 else (Inr idx, persist_last_index R w2)))"

definition wal_commit :: "'db rocksdb_ops \<Rightarrow> u64 \<Rightarrow> 'db wal \<Rightarrow> cxx_exc + 'db wal" where
  "wal_commit R log_index w =
     (if \<not> log_index \<le> last_index w then Inl Assert_failed
      else let w1 = w\<lparr>wal_db := snd (db_put R (wal_db w) (cmt_key log_index) ''1'')\<rparr>
           in Inr (if committed w1 < log_index then persist_committed R (w1\<lparr>committed := log_index\<rparr>) else w1))"

definition wal_read_entry :: "'db rocksdb_ops \<Rightarrow> u64 \<Rightarrow> 'db wal \<Rightarrow> cxx_exc + wal_entry option" where
  "wal_read_entry R log_index w = (case db_get R (wal_db w) (wal_key log_index) of
     None \<Rightarrow> Inr None
   | Some raw \<Rightarrow> ebind (decode_entry log_index raw) (\<lambda>e. Inr (Some e)))"

text \<open>\<^verbatim>\<open>replay\<close> with a callback that threads a state and may throw.\<close>

definition wal_replay :: "'db rocksdb_ops \<Rightarrow> (wal_entry \<Rightarrow> 's \<Rightarrow> cxx_exc + 's) \<Rightarrow> 'db wal \<Rightarrow> 's \<Rightarrow> cxx_exc + 's" where
  "wal_replay R cb w s0 = ebind (u64_loop 1 (committed w)) (\<lambda>idxs.
     efold (\<lambda>idx s. case db_get R (wal_db w) (wal_key idx) of
              None \<Rightarrow> Inr s
            | Some raw \<Rightarrow> ebind (decode_entry idx raw) (\<lambda>e. cb e s)) idxs s0)"

section \<open>Codec facts\<close>

lemma type_ok_named [simp]: "type_ok PUT_CHUNK" "type_ok DELETE_CHUNK" "type_ok RECONFIGURE_START"
  "type_ok RECONFIGURE_COMMIT" "type_ok NODE_HEARTBEAT" "type_ok POLICY_UPDATE"
  by (simp_all add: type_ok_def type_of_code_def)

lemma type_ok_of_code [simp]: "type_ok (type_of_code c)"
  by (simp add: type_ok_def type_of_code_def)

lemma wal_key_inj [simp]: "wal_key i = wal_key j \<longleftrightarrow> i = j"
  by (simp add: wal_key_def)

lemma wal_keys_distinct [simp]:
  "wal_key i \<noteq> cmt_key j" "cmt_key j \<noteq> wal_key i"
  "wal_key i \<noteq> ''meta/last_index''" "wal_key i \<noteq> ''meta/committed''"
  "cmt_key i \<noteq> ''meta/last_index''" "cmt_key i \<noteq> ''meta/committed''"
  "''meta/last_index'' \<noteq> wal_key i" "''meta/committed'' \<noteq> wal_key i"
  "''meta/last_index'' \<noteq> cmt_key i" "''meta/committed'' \<noteq> cmt_key i"
  by (simp_all add: wal_key_def cmt_key_def)

text \<open>Payloads the 32-bit length field can describe.\<close>

definition payload_ok :: "string \<Rightarrow> bool" where
  "payload_ok p \<longleftrightarrow> length p < 2 ^ 32 - 13"

lemma u32_add13: "unat (w :: u32) < 2 ^ 32 - 13 \<Longrightarrow> unat (13 + w) = 13 + unat w"
  by (simp add: unat_word_ariths)

lemma encode_entry_ok:
  assumes "payload_ok (we_payload e)"
  shows "encode_entry e = Inr (char_of (unat (type_code (we_type e))) # be64 (we_term e) @
     be32 (word_of_nat (length (we_payload e))) @ we_payload e)"
proof -
  have l: "unat (word_of_nat (length (we_payload e)) :: u32) = length (we_payload e)"
    using assms by (simp add: payload_ok_def unat_u32_of_nat)
  moreover from l assms
  have "unat (13 + word_of_nat (length (we_payload e)) :: u32) = 13 + length (we_payload e)"
    by (simp add: payload_ok_def u32_add13)
  ultimately show ?thesis by (simp add: encode_entry_def Let_def)
qed

lemma u8_of_char_of: "word_of_nat (unat (c :: u8) mod 256) = c"
proof -
  have "unat c < 256" using unsigned_less [of c] by simp
  then show ?thesis by simp
qed

lemma decode_encode_entry:
  assumes "payload_ok (we_payload e)" and "type_ok (we_type e)" and "encode_entry e = Inr raw"
  shows "decode_entry (we_index e) raw = Inr e"
proof -
  have raw: "raw = char_of (unat (type_code (we_type e))) # be64 (we_term e) @
     be32 (word_of_nat (length (we_payload e))) @ we_payload e"
    using assms(3) encode_entry_ok [OF assms(1)] by simp
  have l: "unat (word_of_nat (length (we_payload e)) :: u32) = length (we_payload e)"
    using assms(1) by (simp add: payload_ok_def unat_u32_of_nat)
  have "drop 9 raw = be32 (word_of_nat (length (we_payload e))) @ we_payload e"
    and "drop 13 raw = we_payload e" and "drop 1 raw = be64 (we_term e) @
     be32 (word_of_nat (length (we_payload e))) @ we_payload e"
    and "length raw = 13 + length (we_payload e)" and "hd raw = char_of (unat (type_code (we_type e)))"
    by (simp_all add: raw drop_Cons')
  with l assms(2) show ?thesis
    by (simp add: decode_entry_def u8_of_char_of type_ok_def)
qed

section \<open>Abstract log\<close>

text \<open>A list of entries, of which the first \<open>spec_committed\<close> are committed.\<close>

record log_spec =
  spec_entries :: "wal_entry list"
  spec_committed :: nat

definition spec_append :: "wal_entry_type \<Rightarrow> u64 \<Rightarrow> string \<Rightarrow> log_spec \<Rightarrow> log_spec" where
  "spec_append ty t p s = s\<lparr>spec_entries := spec_entries s @
     [\<lparr>we_index = word_of_nat (Suc (length (spec_entries s))), we_term = t, we_type = ty, we_payload = p\<rparr>]\<rparr>"

definition spec_commit :: "nat \<Rightarrow> log_spec \<Rightarrow> log_spec" where
  "spec_commit n s = s\<lparr>spec_committed := max n (spec_committed s)\<rparr>"

definition spec_replay :: "(wal_entry \<Rightarrow> 's \<Rightarrow> cxx_exc + 's) \<Rightarrow> log_spec \<Rightarrow> 's \<Rightarrow> cxx_exc + 's" where
  "spec_replay cb s = efold cb (take (spec_committed s) (spec_entries s))"

definition counter_stored :: "'db rocksdb_ops \<Rightarrow> 'db \<Rightarrow> string \<Rightarrow> u64 \<Rightarrow> bool" where
  "counter_stored R d key v \<longleftrightarrow> db_get R d key = Some (be64 v) \<or> (v = 0 \<and> db_get R d key = None)"

definition wal_rel :: "'db rocksdb_ops \<Rightarrow> 'db wal \<Rightarrow> log_spec \<Rightarrow> bool" where
  "wal_rel R w s \<longleftrightarrow>
     length (spec_entries s) < 2 ^ 64 - 1 \<and>
     spec_committed s \<le> length (spec_entries s) \<and>
     last_index w = word_of_nat (length (spec_entries s)) \<and>
     committed w = word_of_nat (spec_committed s) \<and>
     (\<forall>i < length (spec_entries s).
        wal_read_entry R (word_of_nat (Suc i)) w = Inr (Some (spec_entries s ! i))) \<and>
     counter_stored R (wal_db w) ''meta/last_index'' (last_index w) \<and>
     counter_stored R (wal_db w) ''meta/committed'' (committed w)"

lemma wal_relD:
  assumes "wal_rel R w s"
  shows "length (spec_entries s) < 2 ^ 64 - 1" "spec_committed s \<le> length (spec_entries s)"
    "last_index w = word_of_nat (length (spec_entries s))" "committed w = word_of_nat (spec_committed s)"
    "\<And>i. i < length (spec_entries s) \<Longrightarrow>
        wal_read_entry R (word_of_nat (Suc i)) w = Inr (Some (spec_entries s ! i))"
    "counter_stored R (wal_db w) ''meta/last_index'' (last_index w)"
    "counter_stored R (wal_db w) ''meta/committed'' (committed w)"
  using assms unfolding wal_rel_def by blast+

lemma wal_relI:
  assumes "length (spec_entries s) < 2 ^ 64 - 1" "spec_committed s \<le> length (spec_entries s)"
    "last_index w = word_of_nat (length (spec_entries s))" "committed w = word_of_nat (spec_committed s)"
    "\<And>i. i < length (spec_entries s) \<Longrightarrow>
        wal_read_entry R (word_of_nat (Suc i)) w = Inr (Some (spec_entries s ! i))"
    "counter_stored R (wal_db w) ''meta/last_index'' (last_index w)"
    "counter_stored R (wal_db w) ''meta/committed'' (committed w)"
  shows "wal_rel R w s"
  using assms unfolding wal_rel_def by blast

lemma wal_rel_last: "wal_rel R w s \<Longrightarrow> unat (last_index w) = length (spec_entries s)"
  using wal_relD(1,3) [of R w s] by (simp add: unat_u64_of_nat)

lemma wal_rel_committed: "wal_rel R w s \<Longrightarrow> unat (committed w) = spec_committed s"
  using wal_relD(1,2,4) [of R w s] by (simp add: unat_u64_of_nat)

lemma wal_rel_committed_le: "wal_rel R w s \<Longrightarrow> committed w \<le> last_index w"
  using wal_rel_last [of R w s] wal_rel_committed [of R w s] wal_relD(2) [of R w s]
  by (simp add: word_le_nat_alt)

lemma wal_rel_read:
  assumes "wal_rel R w s" and "1 \<le> i" and "unat i \<le> length (spec_entries s)"
  shows "wal_read_entry R i w = Inr (Some (spec_entries s ! (unat i - 1)))"
proof -
  have "0 < unat i" using assms(2) by (simp add: word_le_nat_alt)
  then obtain j where j: "unat i = Suc j" by (cases "unat i") auto
  then have "i = word_of_nat (Suc j)" by (metis of_nat_unat ucast_id)
  with assms j wal_relD(5) [OF assms(1), of j] show ?thesis by (simp del: of_nat_Suc)
qed

text \<open>A new log: nothing in the store.\<close>

lemma wal_rel_empty:
  assumes "\<And>k. db_get R d k = None"
  shows "\<exists>w. wal_open R (Some d) = Inr w \<and> wal_rel R w \<lparr>spec_entries = [], spec_committed = 0\<rparr>"
  using assms by (simp add: wal_open_def wal_rel_def counter_stored_def)

text \<open>
  The log after a crash: opening the store again reads back the counters and every entry, so the
  log that is recovered is the log that was written.
\<close>

lemma wal_rel_reopen:
  assumes "wal_rel R w s"
  shows "\<exists>w'. wal_open R (Some (wal_db w)) = Inr w' \<and> w' = w \<and> wal_rel R w' s"
proof -
  from wal_relD(6,7) [OF assms] have "wal_open R (Some (wal_db w)) = Inr w"
    by (auto simp: wal_open_def counter_stored_def)
  with assms show ?thesis by simp
qed

text \<open>Replay visits exactly the committed prefix, in order.\<close>

lemma map_u64_range:
  "n < 2 ^ 64 - 1 \<Longrightarrow> u64_loop 1 (word_of_nat n) = Inr (map (\<lambda>i. word_of_nat (Suc i)) [0 ..< n])"
proof -
  assume n: "n < 2 ^ 64 - 1"
  then have u: "unat (word_of_nat n :: u64) = n" by (simp add: unat_u64_of_nat)
  then have "(word_of_nat n :: u64) \<noteq> - 1" using n u64_not_max [of "word_of_nat n"] by auto
  moreover have "map word_of_nat [1 ..< Suc n] = map (\<lambda>i. word_of_nat (Suc i) :: u64) [0 ..< n]"
    by (simp add: map_Suc_upt [symmetric] del: upt_Suc)
  ultimately show ?thesis using u by (simp add: u64_loop_def)
qed

lemma efold_indices:
  assumes "\<And>i. i < length es \<Longrightarrow> f (g i) = cb (es ! i)"
  shows "n \<le> length es \<Longrightarrow> efold f (map g [0 ..< n]) s = efold cb (take n es) s"
proof (induction n)
  case (Suc n)
  then have "take (Suc n) es = take n es @ [es ! n]" by (simp add: take_Suc_conv_app_nth)
  with Suc assms [of n] show ?case by (simp add: efold_snoc)
qed simp

lemma wal_replay_rel:
  assumes rel: "wal_rel R w s"
  shows "wal_replay R cb w = spec_replay cb s"
proof
  fix s0
  define es where "es = spec_entries s"
  define n where "n = spec_committed s"
  define step where "step = (\<lambda>idx t. case db_get R (wal_db w) (wal_key idx) of
              None \<Rightarrow> Inr t
            | Some raw \<Rightarrow> ebind (decode_entry idx raw) (\<lambda>e. cb e t))"
  from rel have n: "n \<le> length es" "n < 2 ^ 64 - 1" and c: "committed w = word_of_nat n"
    and rd: "\<And>i. i < length es \<Longrightarrow> wal_read_entry R (word_of_nat (Suc i)) w = Inr (Some (es ! i))"
    using wal_relD [OF rel] by (simp_all add: es_def n_def del: of_nat_Suc)
  have "step (word_of_nat (Suc i)) = cb (es ! i)" if "i < length es" for i
    using rd [OF that] by (auto simp: step_def wal_read_entry_def split: option.splits)
  then have "efold step (map (\<lambda>i. word_of_nat (Suc i)) [0 ..< n]) s0 = efold cb (take n es) s0"
    using n(1) by (intro efold_indices)
  then show "wal_replay R cb w s0 = spec_replay cb s s0"
    using map_u64_range [OF n(2)] c
    by (simp add: wal_replay_def spec_replay_def step_def es_def n_def)
qed

section \<open>Operations on a reliable store\<close>

context reliable_rocksdb
begin

lemma append_result:
  assumes "payload_ok p"
  shows "wal_append R ty t p w =
    (Inr (last_index w + 1),
     \<lparr>wal_db = snd (db_put R (snd (db_put R (wal_db w) (wal_key (last_index w + 1))
         (char_of (unat (type_code ty)) # be64 t @ be32 (word_of_nat (length p)) @ p)))
         ''meta/last_index'' (be64 (last_index w + 1))),
      last_index = last_index w + 1, committed = committed w\<rparr>)"
  using assms encode_entry_ok [of "\<lparr>we_index = last_index w + 1, we_term = t, we_type = ty, we_payload = p\<rparr>"]
    put_ok [of "wal_db w" "wal_key (last_index w + 1)"]
  by (simp add: wal_append_def Let_def persist_last_index_def case_prod_beta)

lemma append_get:
  assumes "payload_ok p" and "wal_append R ty t p w = (r, w')"
  shows "db_get R (wal_db w') k = (if k = ''meta/last_index'' then Some (be64 (last_index w + 1))
    else if k = wal_key (last_index w + 1) then
      Some (char_of (unat (type_code ty)) # be64 t @ be32 (word_of_nat (length p)) @ p)
    else db_get R (wal_db w) k)"
proof -
  from assms(2) have "wal_db w' = snd (db_put R (snd (db_put R (wal_db w) (wal_key (last_index w + 1))
         (char_of (unat (type_code ty)) # be64 t @ be32 (word_of_nat (length p)) @ p)))
         ''meta/last_index'' (be64 (last_index w + 1)))"
    by (auto simp: append_result [OF assms(1)])
  then show ?thesis by (simp add: get_put)
qed

lemma append_read:
  assumes "payload_ok p" and "type_ok ty" and "wal_append R ty t p w = (r, w')"
  shows "wal_read_entry R i w' = (if i = last_index w + 1
    then Inr (Some \<lparr>we_index = i, we_term = t, we_type = ty, we_payload = p\<rparr>)
    else wal_read_entry R i w)"
proof (cases "i = last_index w + 1")
  case True
  define e where "e = \<lparr>we_index = i, we_term = t, we_type = ty, we_payload = p\<rparr>"
  have "encode_entry e = Inr (char_of (unat (type_code ty)) # be64 t @ be32 (word_of_nat (length p)) @ p)"
    using encode_entry_ok [of e] assms(1) by (simp add: e_def)
  then have "decode_entry i (char_of (unat (type_code ty)) # be64 t @ be32 (word_of_nat (length p)) @ p) = Inr e"
    using decode_encode_entry [of e] assms(1,2) by (simp add: e_def)
  with True append_get [OF assms(1,3), of "wal_key i"] show ?thesis
    by (simp add: wal_read_entry_def e_def)
next
  case False
  with append_get [OF assms(1,3), of "wal_key i"] show ?thesis
    by (simp add: wal_read_entry_def)
qed

lemma append_rel:
  assumes rel: "wal_rel R w s" and p: "payload_ok p" and ty: "type_ok ty"
    and room: "length (spec_entries s) < 2 ^ 64 - 2"
    and app: "wal_append R ty t p w = (r, w')"
  shows "r = Inr (word_of_nat (Suc (length (spec_entries s)))) \<and> wal_rel R w' (spec_append ty t p s)"
proof -
  define n where "n = length (spec_entries s)"
  have last: "last_index w = word_of_nat n" using wal_relD(3) [OF rel] by (simp add: n_def)
  have idx: "last_index w + 1 = word_of_nat (Suc n)" by (simp add: last)
  have r: "r = Inr (last_index w + 1)" and li: "last_index w' = last_index w + 1"
    and c: "committed w' = committed w" using app by (auto simp: append_result [OF p])
  have ne: "(word_of_nat (Suc i) :: u64) = word_of_nat (Suc n) \<longleftrightarrow> i = n" if "i \<le> n" for i
    using that room u64_Suc_eq_iff [of i n] by (simp add: n_def)
  have "wal_read_entry R (word_of_nat (Suc i)) w' = Inr (Some (spec_entries (spec_append ty t p s) ! i))"
    if "i < Suc n" for i
  proof (cases "i = n")
    case True
    then show ?thesis
      using append_read [OF p ty app, of "word_of_nat (Suc n)"] by (simp add: idx spec_append_def n_def nth_append)
  next
    case False
    with that have i: "i < n" by simp
    then have "wal_read_entry R (word_of_nat (Suc i)) w' = wal_read_entry R (word_of_nat (Suc i)) w"
      using append_read [OF p ty app] ne [of i] by (simp add: idx del: of_nat_Suc)
    also have "\<dots> = Inr (Some (spec_entries s ! i))" using wal_relD(5) [OF rel] i by (simp add: n_def)
    finally show ?thesis using i by (simp add: spec_append_def n_def nth_append)
  qed
  moreover have "counter_stored R (wal_db w') ''meta/last_index'' (last_index w')"
    using append_get [OF p app, of "''meta/last_index''"] li by (simp add: counter_stored_def)
  moreover have "counter_stored R (wal_db w') ''meta/committed'' (committed w')"
    using append_get [OF p app, of "''meta/committed''"] c wal_relD(7) [OF rel] by (simp add: counter_stored_def)
  ultimately have "wal_rel R w' (spec_append ty t p s)"
    using wal_relD [OF rel] room li c idx
    by (intro wal_relI) (simp_all add: spec_append_def n_def del: of_nat_Suc)
  then show ?thesis using r idx by (simp add: n_def)
qed

lemma commit_get:
  assumes "wal_commit R i w = Inr w'"
  shows "db_get R (wal_db w') k =
    (if k = ''meta/committed'' \<and> committed w < i then Some (be64 i)
     else if k = cmt_key i then Some ''1'' else db_get R (wal_db w) k)"
  using assms by (auto simp: wal_commit_def Let_def persist_committed_def get_put split: if_splits)

lemma commit_read: "wal_commit R i w = Inr w' \<Longrightarrow> wal_read_entry R j w' = wal_read_entry R j w"
  by (simp add: wal_read_entry_def commit_get)

lemma commit_rel:
  assumes rel: "wal_rel R w s" and i: "unat i \<le> length (spec_entries s)"
  shows "\<exists>w'. wal_commit R i w = Inr w' \<and> wal_rel R w' (spec_commit (unat i) s) \<and>
    last_index w' = last_index w"
proof -
  have le: "i \<le> last_index w" using wal_rel_last [OF rel] i by (simp add: word_le_nat_alt)
  define w' where "w' = (let w1 = w\<lparr>wal_db := snd (db_put R (wal_db w) (cmt_key i) ''1'')\<rparr>
    in if committed w1 < i then persist_committed R (w1\<lparr>committed := i\<rparr>) else w1)"
  have w': "wal_commit R i w = Inr w'" using le by (simp add: wal_commit_def w'_def Let_def)
  have c: "committed w' = (if committed w < i then i else committed w)" and li: "last_index w' = last_index w"
    by (simp_all add: w'_def Let_def persist_committed_def)
  have cc: "committed w' = word_of_nat (max (unat i) (spec_committed s))"
    using wal_rel_committed [OF rel] c
    by (simp add: word_less_nat_alt max_def wal_relD(4) [OF rel])
  have "counter_stored R (wal_db w') ''meta/committed'' (committed w')"
    using commit_get [OF w', of "''meta/committed''"] c wal_relD(7) [OF rel] by (auto simp: counter_stored_def)
  moreover have "counter_stored R (wal_db w') ''meta/last_index'' (last_index w')"
    using commit_get [OF w', of "''meta/last_index''"] li wal_relD(6) [OF rel] by (simp add: counter_stored_def)
  ultimately have "wal_rel R w' (spec_commit (unat i) s)"
    using wal_relD [OF rel] commit_read [OF w'] i li cc
    by (intro wal_relI) (simp_all add: spec_commit_def del: of_nat_Suc)
  with w' li show ?thesis by blast
qed

text \<open>
  A crash between the two writes of an append, after the entry but before the counter: the store
  then holds an entry beyond the persisted counter, and reopening gives the log without it.
\<close>

lemma append_torn_rel:
  assumes rel: "wal_rel R w s" and room: "length (spec_entries s) < 2 ^ 64 - 2"
  shows "\<exists>w'. wal_open R (Some (snd (db_put R (wal_db w) (wal_key (last_index w + 1)) raw))) = Inr w' \<and>
    wal_rel R w' s"
proof -
  define w' where "w' = w\<lparr>wal_db := snd (db_put R (wal_db w) (wal_key (last_index w + 1)) raw)\<rparr>"
  define n where "n = length (spec_entries s)"
  have idx: "last_index w + 1 = word_of_nat (Suc n)" using wal_relD(3) [OF rel] by (simp add: n_def)
  have "wal_read_entry R (word_of_nat (Suc i)) w' = Inr (Some (spec_entries s ! i))" if "i < n" for i
  proof -
    have "(word_of_nat (Suc i) :: u64) \<noteq> word_of_nat (Suc n)"
      using that room u64_Suc_eq_iff [of i n] by (simp add: n_def)
    with that wal_relD(5) [OF rel, of i] show ?thesis
      by (simp add: wal_read_entry_def w'_def get_put idx n_def del: of_nat_Suc)
  qed
  then have "wal_rel R w' s"
    using wal_relD [OF rel]
    by (intro wal_relI) (simp_all add: w'_def counter_stored_def get_put n_def del: of_nat_Suc)
  then show ?thesis using wal_rel_reopen [of R w' s] by (simp add: w'_def)
qed

end

section \<open>Histories with crashes\<close>

text \<open>
  A history of a log: appends, commits, restarts, and restarts that interrupt an append or a
  commit between its two writes.
\<close>

datatype wal_op =
    Op_append wal_entry_type u64 string
  | Op_commit u64
  | Op_restart
  | Op_torn_append wal_entry_type u64 string
  | Op_torn_commit u64

fun wal_op_step :: "'db rocksdb_ops \<Rightarrow> wal_op \<Rightarrow> 'db wal \<Rightarrow> cxx_exc + 'db wal" where
  "wal_op_step R (Op_append ty t p) w = (case wal_append R ty t p w of (Inl x, _) \<Rightarrow> Inl x | (Inr _, w') \<Rightarrow> Inr w')"
| "wal_op_step R (Op_commit i) w = wal_commit R i w"
| "wal_op_step R Op_restart w = wal_open R (Some (wal_db w))"
| "wal_op_step R (Op_torn_append ty t p) w =
     ebind (encode_entry \<lparr>we_index = last_index w + 1, we_term = t, we_type = ty, we_payload = p\<rparr>) (\<lambda>raw.
       wal_open R (Some (snd (db_put R (wal_db w) (wal_key (last_index w + 1)) raw))))"
| "wal_op_step R (Op_torn_commit i) w = wal_open R (Some (snd (db_put R (wal_db w) (cmt_key i) ''1'')))"

fun spec_op_step :: "wal_op \<Rightarrow> log_spec \<Rightarrow> log_spec" where
  "spec_op_step (Op_append ty t p) s = spec_append ty t p s"
| "spec_op_step (Op_commit i) s = spec_commit (unat i) s"
| "spec_op_step _ s = s"

text \<open>What the callers guarantee, on the abstract log.\<close>

fun wal_op_ok :: "wal_op \<Rightarrow> log_spec \<Rightarrow> bool" where
  "wal_op_ok (Op_append ty t p) s \<longleftrightarrow> type_ok ty \<and> payload_ok p \<and> length (spec_entries s) < 2 ^ 64 - 2"
| "wal_op_ok (Op_commit i) s \<longleftrightarrow> unat i \<le> length (spec_entries s)"
| "wal_op_ok (Op_torn_append ty t p) s \<longleftrightarrow> payload_ok p \<and> length (spec_entries s) < 2 ^ 64 - 2"
| "wal_op_ok _ s \<longleftrightarrow> True"

fun wal_ops_ok :: "wal_op list \<Rightarrow> log_spec \<Rightarrow> bool" where
  "wal_ops_ok [] s \<longleftrightarrow> True"
| "wal_ops_ok (p # ps) s \<longleftrightarrow> wal_op_ok p s \<and> wal_ops_ok ps (spec_op_step p s)"

context reliable_rocksdb
begin

lemma commit_torn_rel:
  assumes rel: "wal_rel R w s"
  shows "\<exists>w'. wal_open R (Some (snd (db_put R (wal_db w) (cmt_key i) ''1''))) = Inr w' \<and> wal_rel R w' s"
proof -
  define w' where "w' = w\<lparr>wal_db := snd (db_put R (wal_db w) (cmt_key i) ''1'')\<rparr>"
  have "wal_read_entry R j w' = wal_read_entry R j w" for j
    by (simp add: wal_read_entry_def w'_def get_put)
  then have "wal_rel R w' s"
    using wal_relD [OF rel]
    by (intro wal_relI) (simp_all add: w'_def counter_stored_def get_put del: of_nat_Suc)
  then show ?thesis using wal_rel_reopen [of R w' s] by (simp add: w'_def)
qed

lemma wal_op_step_rel:
  assumes rel: "wal_rel R w s" and ok: "wal_op_ok p s"
  shows "\<exists>w'. wal_op_step R p w = Inr w' \<and> wal_rel R w' (spec_op_step p s)"
proof (cases p)
  case (Op_append ty t pl)
  obtain r w' where wa: "wal_append R ty t pl w = (r, w')" by fastforce
  show ?thesis using append_rel [OF rel _ _ _ wa] ok Op_append wa by simp
next
  case (Op_commit i)
  then show ?thesis using commit_rel [OF rel] ok by auto
next
  case Op_restart
  then show ?thesis using wal_rel_reopen [OF rel] rel by simp
next
  case (Op_torn_append ty t pl)
  define e where "e = \<lparr>we_index = last_index w + 1, we_term = t, we_type = ty, we_payload = pl\<rparr>"
  show ?thesis using encode_entry_ok [of e] append_torn_rel [OF rel] ok Op_torn_append by (simp add: e_def)
next
  case (Op_torn_commit i)
  then show ?thesis using commit_torn_rel [OF rel] by simp
qed

lemma wal_ops_rel:
  "wal_rel R w s \<Longrightarrow> wal_ops_ok ps s \<Longrightarrow>
    \<exists>w'. efold (wal_op_step R) ps w = Inr w' \<and> wal_rel R w' (fold spec_op_step ps s)"
proof (induction ps arbitrary: w s)
  case (Cons p ps)
  obtain w1 where w1: "wal_op_step R p w = Inr w1" "wal_rel R w1 (spec_op_step p s)"
    using wal_op_step_rel [OF Cons.prems(1), of p] Cons.prems(2) by auto
  show ?case using Cons.IH [OF w1(2)] Cons.prems(2) w1(1) by simp
qed simp

end

section \<open>Properties\<close>

text \<open>An entry that fits the 32-bit length field is read back from its bytes as it was written.\<close>

theorem wal_entry_roundtrip:
  assumes "payload_ok (we_payload e)" and "type_ok (we_type e)"
  shows "\<exists>raw. encode_entry e = Inr raw \<and> length raw = 13 + length (we_payload e) \<and>
    decode_entry (we_index e) raw = Inr e"
  using decode_encode_entry [OF assms] encode_entry_ok [OF assms(1)] by simp

theorem wal_entry_roundtrip_witness:
  "\<exists>raw. encode_entry \<lparr>we_index = 7, we_term = 2, we_type = PUT_CHUNK, we_payload = ''c|5''\<rparr> = Inr raw \<and>
    length raw = 16 \<and> decode_entry 7 raw = Inr \<lparr>we_index = 7, we_term = 2, we_type = PUT_CHUNK, we_payload = ''c|5''\<rparr>"
  using wal_entry_roundtrip [of "\<lparr>we_index = 7, we_term = 2, we_type = PUT_CHUNK, we_payload = ''c|5''\<rparr>"]
  by (simp add: payload_ok_def)

text \<open>
  C5. The log implements its abstract specification through every history of appends, commits,
  restarts and crashes between the two writes of an append or a commit: no operation fails, the
  log read back is the list of appended entries, and replay visits exactly its committed prefix.
\<close>

theorem wal_refines_log_spec:
  assumes db: "reliable_rocksdb R" and empty: "\<forall>k. db_get R d k = None"
    and ok: "wal_ops_ok ops \<lparr>spec_entries = [], spec_committed = 0\<rparr>"
  shows "\<exists>w0 w s. wal_open R (Some d) = Inr w0 \<and> efold (wal_op_step R) ops w0 = Inr w \<and>
    s = fold spec_op_step ops \<lparr>spec_entries = [], spec_committed = 0\<rparr> \<and> wal_rel R w s \<and>
    (\<forall>i. 1 \<le> i \<and> i \<le> last_index w \<longrightarrow> wal_read_entry R i w = Inr (Some (spec_entries s ! (unat i - 1)))) \<and>
    (\<forall>(cb :: wal_entry \<Rightarrow> 's \<Rightarrow> cxx_exc + 's). wal_replay R cb w = efold cb (take (unat (committed w)) (spec_entries s)))"
proof -
  obtain w0 where w0: "wal_open R (Some d) = Inr w0" "wal_rel R w0 \<lparr>spec_entries = [], spec_committed = 0\<rparr>"
    using wal_rel_empty [of R d] empty by blast
  obtain w where w: "efold (wal_op_step R) ops w0 = Inr w"
      "wal_rel R w (fold spec_op_step ops \<lparr>spec_entries = [], spec_committed = 0\<rparr>)"
    using reliable_rocksdb.wal_ops_rel [OF db w0(2) ok] by blast
  have "wal_replay R cb w = efold cb (take (unat (committed w)) (spec_entries
      (fold spec_op_step ops \<lparr>spec_entries = [], spec_committed = 0\<rparr>)))" for cb :: "wal_entry \<Rightarrow> 's \<Rightarrow> cxx_exc + 's"
    by (simp add: wal_replay_rel [OF w(2)] spec_replay_def wal_rel_committed [OF w(2)])
  then show ?thesis using w0(1) w wal_rel_read [OF w(2)] wal_rel_last [OF w(2)] by (auto simp: word_le_nat_alt)
qed

theorem wal_refines_log_spec_witness:
  "\<exists>w. efold (wal_op_step mem_rocksdb) [Op_append PUT_CHUNK 1 ''a'', Op_torn_append PUT_CHUNK 1 ''lost'',
       Op_append DELETE_CHUNK 1 ''b'', Op_commit 1, Op_restart] \<lparr>wal_db = [], last_index = 0, committed = 0\<rparr> = Inr w \<and>
     wal_replay mem_rocksdb (\<lambda>e ps. Inr (ps @ [we_payload e])) w [] = Inr [''a'']"
proof -
  let ?ops = "[Op_append PUT_CHUNK 1 ''a'', Op_torn_append PUT_CHUNK 1 ''lost'',
       Op_append DELETE_CHUNK 1 ''b'', Op_commit 1, Op_restart]"
  let ?s = "fold spec_op_step ?ops \<lparr>spec_entries = [], spec_committed = 0\<rparr>"
  have e: "\<forall>k. db_get mem_rocksdb [] k = None" by (simp add: mem_rocksdb_def)
  then have op: "wal_open mem_rocksdb (Some []) = Inr \<lparr>wal_db = [], last_index = 0, committed = 0\<rparr>"
    by (simp add: wal_open_def)
  have ok: "wal_ops_ok ?ops \<lparr>spec_entries = [], spec_committed = 0\<rparr>"
    by (simp add: payload_ok_def spec_append_def spec_commit_def)
  have s: "map we_payload (spec_entries ?s) = [''a'', ''b'']" "spec_committed ?s = 1"
    by (simp_all add: spec_append_def spec_commit_def)
  obtain w where w: "efold (wal_op_step mem_rocksdb) ?ops \<lparr>wal_db = [], last_index = 0, committed = 0\<rparr> = Inr w"
      "wal_rel mem_rocksdb w ?s"
      "\<forall>cb :: wal_entry \<Rightarrow> string list \<Rightarrow> cxx_exc + string list.
         wal_replay mem_rocksdb cb w = efold cb (take (unat (committed w)) (spec_entries ?s))"
    using wal_refines_log_spec [OF mem.reliable_rocksdb_axioms e ok] op by auto
  have "take 1 (spec_entries ?s) = [hd (spec_entries ?s)]" "we_payload (hd (spec_entries ?s)) = ''a''"
    by (simp_all add: spec_append_def spec_commit_def)
  then have "wal_replay mem_rocksdb (\<lambda>e ps. Inr (ps @ [we_payload e])) w [] = Inr [''a'']"
    using w(3) wal_rel_committed [OF w(2)] s(2) by simp
  with w(1) show ?thesis by blast
qed

text \<open>
  The commit counter is a high-water mark: after a commit of entry 2 alone, replay also runs
  entry 1, whose own commit never happened. A write that timed out with
  \<^verbatim>\<open>UNAVAILABLE\<close> takes effect at the next restart once a later one commits.
\<close>

theorem commit_gap_replayed:
  "\<exists>w. efold (wal_op_step mem_rocksdb) [Op_append PUT_CHUNK 1 ''timed out'', Op_append PUT_CHUNK 1 ''ok'', Op_commit 2, Op_restart]
       \<lparr>wal_db = [], last_index = 0, committed = 0\<rparr> = Inr w \<and>
     wal_replay mem_rocksdb (\<lambda>e ps. Inr (ps @ [we_payload e])) w [] = Inr [''timed out'', ''ok'']"
proof -
  let ?ops = "[Op_append PUT_CHUNK 1 ''timed out'', Op_append PUT_CHUNK 1 ''ok'', Op_commit 2, Op_restart]"
  have "wal_rel mem_rocksdb \<lparr>wal_db = [], last_index = 0, committed = 0\<rparr> \<lparr>spec_entries = [], spec_committed = 0\<rparr>"
    using wal_rel_empty [of mem_rocksdb "[]"] by (simp add: wal_open_def mem_rocksdb_def)
  moreover have "wal_ops_ok ?ops \<lparr>spec_entries = [], spec_committed = 0\<rparr>"
    by (simp add: payload_ok_def spec_append_def spec_commit_def)
  ultimately obtain w where w: "efold (wal_op_step mem_rocksdb) ?ops \<lparr>wal_db = [], last_index = 0, committed = 0\<rparr> = Inr w"
      "wal_rel mem_rocksdb w (fold spec_op_step ?ops \<lparr>spec_entries = [], spec_committed = 0\<rparr>)"
    using mem.wal_ops_rel by blast
  have "wal_replay mem_rocksdb (\<lambda>e ps. Inr (ps @ [we_payload e])) w [] = Inr [''timed out'', ''ok'']"
    by (simp add: wal_replay_rel [OF w(2)] spec_replay_def spec_append_def spec_commit_def)
  with w(1) show ?thesis by blast
qed

end
