(* ===== verification/Wal_Apply.thy ===== *)
theory Wal_Apply
  imports Meta_Wal Meta_Coordinator
begin

text \<open>
  From a log entry to a change of the tables: the payload formats the leader writes
  (\<^verbatim>\<open>meta_rpc.cpp\<close>, \<^verbatim>\<open>reconfig_driver.cpp\<close>), \<^verbatim>\<open>apply_wal_entry\<close> and
  \<^verbatim>\<open>parse_heartbeat_payload\<close> of \<^verbatim>\<open>src/bin/meta_server.cpp\<close> that read them, and the
  removal of data written for uncommitted puts, \<^verbatim>\<open>src/meta/recovery.cpp\<close>. The abstract
  counterpart is a command (\<open>meta_cmd\<close>) applied to the tables; for well-formed commands the text
  that is logged denotes the command that was issued.
\<close>

section \<open>Payloads the leader writes\<close>

text \<open>The payload \<^verbatim>\<open>PutChunk\<close> builds.\<close>

definition encode_put_payload :: "string \<Rightarrow> u64 \<Rightarrow> int \<Rightarrow> u64 \<Rightarrow> string list \<Rightarrow> string" where
  "encode_put_payload cid size_bytes desired_rf version replicas =
     cid @ ''|'' @ to_string_u64 size_bytes @ ''|'' @ to_string_int desired_rf @ ''|'' @
     to_string_u64 version @ ''|'' @ join_csv replicas"

definition encode_reconfig_start :: "string \<Rightarrow> string list \<Rightarrow> string list \<Rightarrow> string" where
  "encode_reconfig_start cid old_set new_set = cid @ ''|'' @ join_csv old_set @ ''|'' @ join_csv new_set"

definition encode_reconfig_commit :: "string \<Rightarrow> string list \<Rightarrow> string" where
  "encode_reconfig_commit cid new_set = cid @ ''|'' @ join_csv new_set"

definition encode_heartbeat_payload :: "string \<Rightarrow> string \<Rightarrow> float32 \<Rightarrow> u64 \<Rightarrow> u64 \<Rightarrow> float32 \<Rightarrow> string" where
  "encode_heartbeat_payload nid address load free_bytes total_bytes fail_rate =
     nid @ ''|'' @ address @ ''|'' @ to_string_float load @ ''|'' @ to_string_u64 free_bytes @ ''|'' @
     to_string_u64 total_bytes @ ''|'' @ to_string_float fail_rate"

section \<open>Applying an entry\<close>

text \<open>
  \<^verbatim>\<open>parse_heartbeat_payload\<close>: the out-parameters as a tuple, \<open>None\<close> for
  \<^verbatim>\<open>false\<close>. Exceptions of the conversions are caught.
\<close>

definition parse_heartbeat_payload ::
  "string \<Rightarrow> (string \<times> string \<times> float32 \<times> u64 \<times> u64 \<times> float32) option" where
  "parse_heartbeat_payload payload = (let parts = split_nonempty payload CHR ''|'' in
     if length parts < 6 then None
     else case ebind (stof (parts ! 2)) (\<lambda>load.
               ebind (stoull (parts ! 3)) (\<lambda>fb.
               ebind (stoull (parts ! 4)) (\<lambda>tb.
               ebind (stof (parts ! 5)) (\<lambda>fr.
                 Inr (parts ! 0, parts ! 1, load, fb, tb, fr))))) of
            Inl _ \<Rightarrow> None
          | Inr r \<Rightarrow> Some r)"

text \<open>
  \<^verbatim>\<open>apply_wal_entry\<close>; \<open>now\<close> is what \<^verbatim>\<open>unix_ms()\<close> returns when a heartbeat is
  applied. The conversions of a put are not guarded: an exception leaves the function.
\<close>

definition apply_wal_entry :: "u64 \<Rightarrow> wal_entry \<Rightarrow> coordinator \<Rightarrow> cxx_exc + coordinator" where
  "apply_wal_entry now e coord = (case we_type e of
     PUT_CHUNK \<Rightarrow>
       (let parts = split_nonempty (we_payload e) CHR ''|'' in
        if length parts < 5 then Inr coord
        else let replicas = split_nonempty (parts ! 4) CHR '','' in
             ebind (stoull (parts ! 1)) (\<lambda>sz.
             ebind (stoi (parts ! 2)) (\<lambda>rf.
             ebind (stoull (parts ! 3)) (\<lambda>v.
               Inr (apply_put_chunk (parts ! 0) sz rf replicas v coord)))))
   | DELETE_CHUNK \<Rightarrow> Inr (apply_delete_chunk (we_payload e) coord)
   | RECONFIGURE_START \<Rightarrow>
       (let parts = split_nonempty (we_payload e) CHR ''|'' in
        if length parts < 3 then Inr coord
        else Inr (apply_reconfig_start (parts ! 0) (split_nonempty (parts ! 1) CHR '','')
                    (split_nonempty (parts ! 2) CHR '','') coord))
   | RECONFIGURE_COMMIT \<Rightarrow>
       (let parts = split_nonempty (we_payload e) CHR ''|'' in
        if length parts < 2 then Inr coord
        else Inr (apply_reconfig_commit (parts ! 0) (split_nonempty (parts ! 1) CHR '','') coord))
   | NODE_HEARTBEAT \<Rightarrow>
       (case parse_heartbeat_payload (we_payload e) of
          None \<Rightarrow> Inr coord
        | Some (nid, address, load, fb, tb, fr) \<Rightarrow> Inr (apply_heartbeat now nid address load fb tb fr coord))
   | _ \<Rightarrow> Inr coord)"

section \<open>Commands\<close>

datatype meta_cmd =
    Cmd_put string u64 int "string list" u64
  | Cmd_delete string
  | Cmd_reconfig_start string "string list" "string list"
  | Cmd_reconfig_commit string "string list"
  | Cmd_heartbeat string string float32 u64 u64 float32

fun cmd_type :: "meta_cmd \<Rightarrow> wal_entry_type" where
  "cmd_type (Cmd_put _ _ _ _ _) = PUT_CHUNK"
| "cmd_type (Cmd_delete _) = DELETE_CHUNK"
| "cmd_type (Cmd_reconfig_start _ _ _) = RECONFIGURE_START"
| "cmd_type (Cmd_reconfig_commit _ _) = RECONFIGURE_COMMIT"
| "cmd_type (Cmd_heartbeat _ _ _ _ _ _) = NODE_HEARTBEAT"

fun cmd_payload :: "meta_cmd \<Rightarrow> string" where
  "cmd_payload (Cmd_put cid sz rf reps v) = encode_put_payload cid sz rf v reps"
| "cmd_payload (Cmd_delete cid) = cid"
| "cmd_payload (Cmd_reconfig_start cid os ns) = encode_reconfig_start cid os ns"
| "cmd_payload (Cmd_reconfig_commit cid ns) = encode_reconfig_commit cid ns"
| "cmd_payload (Cmd_heartbeat nid a l fb tb fr) = encode_heartbeat_payload nid a l fb tb fr"

text \<open>What a command does to the tables, without the detour through text.\<close>

fun apply_cmd :: "u64 \<Rightarrow> meta_cmd \<Rightarrow> coordinator \<Rightarrow> coordinator" where
  "apply_cmd now (Cmd_put cid sz rf reps v) = apply_put_chunk cid sz rf reps v"
| "apply_cmd now (Cmd_delete cid) = apply_delete_chunk cid"
| "apply_cmd now (Cmd_reconfig_start cid os ns) = apply_reconfig_start cid os ns"
| "apply_cmd now (Cmd_reconfig_commit cid ns) = apply_reconfig_commit cid ns"
| "apply_cmd now (Cmd_heartbeat nid a l fb tb fr) =
     apply_heartbeat now nid a (fl32 (round6 l)) fb tb (fl32 (round6 fr))"

text \<open>Identifiers the formats can carry.\<close>

definition id_ok :: "string \<Rightarrow> bool" where
  "id_ok s \<longleftrightarrow> s \<noteq> [] \<and> CHR ''|'' \<notin> set s"

definition replica_ok :: "string \<Rightarrow> bool" where
  "replica_ok s \<longleftrightarrow> s \<noteq> [] \<and> CHR ''|'' \<notin> set s \<and> CHR '','' \<notin> set s"

definition replicas_ok :: "string list \<Rightarrow> bool" where
  "replicas_ok rs \<longleftrightarrow> rs \<noteq> [] \<and> list_all replica_ok rs"

fun cmd_ok :: "meta_cmd \<Rightarrow> bool" where
  "cmd_ok (Cmd_put cid sz rf reps v) = (id_ok cid \<and> int32 rf \<and> replicas_ok reps)"
| "cmd_ok (Cmd_delete cid) = True"
| "cmd_ok (Cmd_reconfig_start cid os ns) = (id_ok cid \<and> replicas_ok os \<and> replicas_ok ns)"
| "cmd_ok (Cmd_reconfig_commit cid ns) = (id_ok cid \<and> replicas_ok ns)"
| "cmd_ok (Cmd_heartbeat nid a l fb tb fr) = (id_ok nid \<and> id_ok a \<and> \<bar>l\<bar> \<le> pow2 126 \<and> \<bar>fr\<bar> \<le> pow2 126)"

lemma replicas_okD:
  assumes "replicas_ok rs"
  shows "join_csv rs \<noteq> []" "CHR ''|'' \<notin> set (join_csv rs)" "split_nonempty (join_csv rs) CHR '','' = rs"
  using assms
  by (auto simp: replicas_ok_def replica_ok_def list_all_iff dest!: join_csv_chars intro!: split_nonempty_join)

lemma apply_entry_of_cmd:
  assumes "cmd_ok cmd" and "we_type e = cmd_type cmd" and "we_payload e = cmd_payload cmd"
  shows "apply_wal_entry now e coord = Inr (apply_cmd now cmd coord)"
proof (cases cmd)
  case (Cmd_put cid sz rf reps v)
  then have ok: "id_ok cid" "int32 rf" "replicas_ok reps" using assms(1) by simp_all
  have "split_nonempty (we_payload e) CHR ''|'' =
      [cid, to_string_u64 sz, to_string_int rf, to_string_u64 v, join_csv reps]"
    using ok replicas_okD [OF ok(3)] assms(3) Cmd_put
    by (simp add: encode_put_payload_def id_ok_def split_nonempty_field split_nonempty_last)
  then show ?thesis
    using ok replicas_okD [OF ok(3)] assms(2) Cmd_put
    by (simp add: apply_wal_entry_def stoi_to_string)
next
  case (Cmd_reconfig_start cid os ns)
  then have ok: "id_ok cid" "replicas_ok os" "replicas_ok ns" using assms(1) by simp_all
  have "split_nonempty (we_payload e) CHR ''|'' = [cid, join_csv os, join_csv ns]"
    using ok replicas_okD [OF ok(2)] replicas_okD [OF ok(3)] assms(3) Cmd_reconfig_start
    by (simp add: encode_reconfig_start_def id_ok_def split_nonempty_field split_nonempty_last)
  then show ?thesis
    using replicas_okD [OF ok(2)] replicas_okD [OF ok(3)] assms(2) Cmd_reconfig_start
    by (simp add: apply_wal_entry_def)
next
  case (Cmd_reconfig_commit cid ns)
  then have ok: "id_ok cid" "replicas_ok ns" using assms(1) by simp_all
  have "split_nonempty (we_payload e) CHR ''|'' = [cid, join_csv ns]"
    using ok replicas_okD [OF ok(2)] assms(3) Cmd_reconfig_commit
    by (simp add: encode_reconfig_commit_def id_ok_def split_nonempty_field split_nonempty_last)
  then show ?thesis
    using replicas_okD [OF ok(2)] assms(2) Cmd_reconfig_commit
    by (simp add: apply_wal_entry_def)
next
  case (Cmd_heartbeat nid a l fb tb fr)
  then have ok: "id_ok nid" "id_ok a" "\<bar>l\<bar> \<le> pow2 126" "\<bar>fr\<bar> \<le> pow2 126" using assms(1) by simp_all
  have "split_nonempty (we_payload e) CHR ''|'' =
      [nid, a, to_string_float l, to_string_u64 fb, to_string_u64 tb, to_string_float fr]"
    using ok assms(3) Cmd_heartbeat
    by (simp add: encode_heartbeat_payload_def id_ok_def split_nonempty_field split_nonempty_last)
  then have "parse_heartbeat_payload (we_payload e) = Some (nid, a, fl32 (round6 l), fb, tb, fl32 (round6 fr))"
    using ok by (simp add: parse_heartbeat_payload_def stof_to_string)
  then show ?thesis using assms(2) Cmd_heartbeat by (simp add: apply_wal_entry_def)
next
  case (Cmd_delete cid)
  then show ?thesis using assms by (simp add: apply_wal_entry_def)
qed

lemma coord_inv_apply_entry:
  "coord_inv coord \<Longrightarrow> apply_wal_entry now e coord = Inr coord' \<Longrightarrow> coord_inv coord'"
  by (auto simp: apply_wal_entry_def Let_def coord_inv_ops
      split: wal_entry_type.splits if_splits option.splits)

lemma coord_inv_apply_cmd: "coord_inv coord \<Longrightarrow> coord_inv (apply_cmd now cmd coord)"
  by (cases cmd) (simp_all add: coord_inv_ops)

section \<open>Which entry decides a chunk\<close>

text \<open>
  The chunk an entry speaks about, and whether it fixes the chunk's metadata regardless of what
  was there before (a put or a delete) or only amends it.
\<close>

fun cmd_chunk :: "meta_cmd \<Rightarrow> string option" where
  "cmd_chunk (Cmd_put cid _ _ _ _) = Some cid"
| "cmd_chunk (Cmd_delete cid) = Some cid"
| "cmd_chunk (Cmd_reconfig_start cid _ _) = Some cid"
| "cmd_chunk (Cmd_reconfig_commit cid _) = Some cid"
| "cmd_chunk (Cmd_heartbeat _ _ _ _ _ _) = None"

fun cmd_decides :: "meta_cmd \<Rightarrow> bool" where
  "cmd_decides (Cmd_put _ _ _ _ _) = True"
| "cmd_decides (Cmd_delete _) = True"
| "cmd_decides _ = False"

lemma get_chunk_apply_other: "cmd_chunk cmd \<noteq> Some k \<Longrightarrow> get_chunk (apply_cmd now cmd c) k = get_chunk c k"
  by (cases cmd) auto

lemma get_chunk_apply_cong:
  "get_chunk c k = get_chunk d k \<Longrightarrow> get_chunk (apply_cmd now cmd c) k = get_chunk (apply_cmd now' cmd d) k"
  by (cases cmd) auto

lemma get_chunk_apply_decides:
  "cmd_decides cmd \<Longrightarrow> cmd_chunk cmd = Some k \<Longrightarrow>
     get_chunk (apply_cmd now cmd c) k = get_chunk (apply_cmd now' cmd d) k"
  by (cases cmd) auto

text \<open>Without an entry, amendments do nothing: a chunk that is absent stays absent.\<close>

lemma get_chunk_apply_None:
  "\<not> (cmd_decides cmd \<and> cmd_chunk cmd = Some k) \<Longrightarrow> get_chunk c k = None \<Longrightarrow>
     get_chunk (apply_cmd now cmd c) k = None"
  by (cases cmd) auto

text \<open>Running commands in log order; \<open>clk i\<close> is the time at which the \<open>i\<close>-th one is applied.\<close>

fun run_cmds :: "(u64 \<Rightarrow> u64) \<Rightarrow> nat \<Rightarrow> meta_cmd list \<Rightarrow> coordinator \<Rightarrow> coordinator" where
  "run_cmds clk i [] c = c"
| "run_cmds clk i (cmd # cmds) c = run_cmds clk (Suc i) cmds (apply_cmd (clk (word_of_nat (Suc i))) cmd c)"

lemma run_cmds_append:
  "run_cmds clk i (xs @ ys) c = run_cmds clk (i + length xs) ys (run_cmds clk i xs c)"
  by (induction xs arbitrary: i c) simp_all

lemma coord_inv_run_cmds: "coord_inv c \<Longrightarrow> coord_inv (run_cmds clk i cmds c)"
  by (induction cmds arbitrary: i c) (simp_all add: coord_inv_apply_cmd)

lemma run_cmds_cong:
  "get_chunk c k = get_chunk d k \<Longrightarrow> get_chunk (run_cmds clk i cmds c) k = get_chunk (run_cmds clk' j cmds d) k"
proof (induction cmds arbitrary: i j c d)
  case (Cons cmd cmds)
  from Cons.prems show ?case by (auto intro!: Cons.IH get_chunk_apply_cong)
qed simp

lemma run_cmds_None:
  "\<forall>cmd \<in> set cmds. \<not> (cmd_decides cmd \<and> cmd_chunk cmd = Some k) \<Longrightarrow> get_chunk c k = None \<Longrightarrow>
     get_chunk (run_cmds clk i cmds c) k = None"
  by (induction cmds arbitrary: i c) (auto simp: get_chunk_apply_None)

text \<open>
  The state of a chunk after a run depends only on the commands from its last put or delete on:
  with one in the run, the state before the run does not matter.
\<close>

lemma run_cmds_decided:
  assumes "\<exists>cmd \<in> set cmds. cmd_decides cmd \<and> cmd_chunk cmd = Some k"
  shows "get_chunk (run_cmds clk i cmds c) k = get_chunk (run_cmds clk' j cmds d) k"
  using assms
proof (induction cmds arbitrary: i j c d)
  case (Cons cmd cmds)
  show ?case
  proof (cases "\<exists>cmd \<in> set cmds. cmd_decides cmd \<and> cmd_chunk cmd = Some k")
    case True
    then show ?thesis using Cons.IH by simp
  next
    case False
    with Cons.prems have "cmd_decides cmd" "cmd_chunk cmd = Some k" by auto
    then show ?thesis by (simp add: run_cmds_cong get_chunk_apply_decides)
  qed
qed simp

text \<open>
  Applying a log a second time on top of its own result changes no chunk: what a follower
  does that installs a snapshot and is then sent the log from its start.
\<close>

lemma run_cmds_idem:
  assumes "get_chunk c k = None"
  shows "get_chunk (run_cmds clk' j cmds (run_cmds clk i cmds c)) k = get_chunk (run_cmds clk i cmds c) k"
proof (cases "\<exists>cmd \<in> set cmds. cmd_decides cmd \<and> cmd_chunk cmd = Some k")
  case True
  then show ?thesis by (rule run_cmds_decided)
next
  case False
  with assms have "get_chunk (run_cmds clk i cmds c) k = None" by (intro run_cmds_None) auto
  with False show ?thesis by (simp add: run_cmds_None)
qed

section \<open>Commands in the log\<close>

text \<open>The callback \<^verbatim>\<open>main\<close> passes to \<^verbatim>\<open>replay\<close>.\<close>

definition replay_callback :: "(u64 \<Rightarrow> u64) \<Rightarrow> wal_entry \<Rightarrow> coordinator \<Rightarrow> cxx_exc + coordinator" where
  "replay_callback clk e coord = apply_wal_entry (clk (we_index e)) e coord"

definition cmd_entry :: "u64 \<Rightarrow> u64 \<Rightarrow> meta_cmd \<Rightarrow> wal_entry" where
  "cmd_entry idx t cmd = \<lparr>we_index = idx, we_term = t, we_type = cmd_type cmd, we_payload = cmd_payload cmd\<rparr>"

fun cmd_entries :: "nat \<Rightarrow> u64 \<Rightarrow> meta_cmd list \<Rightarrow> wal_entry list" where
  "cmd_entries i t [] = []"
| "cmd_entries i t (cmd # cmds) = cmd_entry (word_of_nat (Suc i)) t cmd # cmd_entries (Suc i) t cmds"

lemma cmd_entries_append: "cmd_entries i t (xs @ ys) = cmd_entries i t xs @ cmd_entries (i + length xs) t ys"
  by (induction xs arbitrary: i) simp_all

lemma length_cmd_entries [simp]: "length (cmd_entries i t cmds) = length cmds"
  by (induction cmds arbitrary: i) simp_all

lemma take_cmd_entries: "take n (cmd_entries i t cmds) = cmd_entries i t (take n cmds)"
proof (induction cmds arbitrary: i n)
  case (Cons cmd cmds)
  then show ?case by (cases n) simp_all
qed simp

lemma nth_cmd_entries: "j < length cmds \<Longrightarrow> cmd_entries i t cmds ! j = cmd_entry (word_of_nat (Suc (i + j))) t (cmds ! j)"
proof (induction cmds arbitrary: i j)
  case (Cons cmd cmds)
  then show ?case by (cases j) simp_all
qed simp

lemma type_ok_cmd [simp]: "type_ok (cmd_type cmd)"
  by (cases cmd) simp_all

lemma apply_cmd_entry: "cmd_ok cmd \<Longrightarrow> apply_wal_entry now (cmd_entry i t cmd) coord = Inr (apply_cmd now cmd coord)"
  by (rule apply_entry_of_cmd) (simp_all add: cmd_entry_def)

lemma replay_cmd_entries:
  "\<forall>cmd \<in> set cmds. cmd_ok cmd \<Longrightarrow>
     efold (replay_callback clk) (cmd_entries i t cmds) coord = Inr (run_cmds clk i cmds coord)"
proof (induction cmds arbitrary: i coord)
  case (Cons cmd cmds)
  have "replay_callback clk (cmd_entry (word_of_nat (Suc i)) t cmd) coord =
      Inr (apply_cmd (clk (word_of_nat (Suc i))) cmd coord)"
    using Cons.prems apply_cmd_entry [of cmd "clk (word_of_nat (Suc i))" "word_of_nat (Suc i)" t coord]
    by (simp add: replay_callback_def cmd_entry_def del: of_nat_Suc)
  with Cons show ?case by (simp del: of_nat_Suc)
qed simp

lemma spec_append_cmd:
  assumes "spec_entries s = cmd_entries 0 t cmds"
  shows "spec_entries (spec_append (cmd_type cmd) t (cmd_payload cmd) s) = cmd_entries 0 t (cmds @ [cmd])"
  using assms by (simp add: spec_append_def cmd_entries_append cmd_entry_def)

section \<open>Recovery of data written for uncommitted puts\<close>

definition resolve_replica_address ::
  "(node_entry list \<Rightarrow> node_entry list) \<Rightarrow> coordinator \<Rightarrow> string \<Rightarrow> string" where
  "resolve_replica_address ord coord entry = (case find_char CHR ''='' entry of
     Some eq \<Rightarrow> drop (eq + 1) entry
   | None \<Rightarrow> (case List.find (\<lambda>n. ne_node_id n = entry) (get_alive_nodes ord coord) of
       Some n \<Rightarrow> ne_address n | None \<Rightarrow> []))"

text \<open>
  \<^verbatim>\<open>cleanup_uncommitted_puts\<close>: the calls \<^verbatim>\<open>delete_fn(addr, chunk_id)\<close> it makes,
  in order.
\<close>

definition cleanup_uncommitted_puts ::
  "'db rocksdb_ops \<Rightarrow> (node_entry list \<Rightarrow> node_entry list) \<Rightarrow> 'db wal \<Rightarrow> coordinator \<Rightarrow>
     cxx_exc + (string \<times> string) list" where
  "cleanup_uncommitted_puts R ord w coord =
     ebind (u64_loop (committed w + 1) (last_index w)) (\<lambda>idxs.
       efold (\<lambda>idx calls. ebind (wal_read_entry R idx w) (\<lambda>re. case re of
           None \<Rightarrow> Inr calls
         | Some e \<Rightarrow>
             if we_type e \<noteq> PUT_CHUNK then Inr calls
             else let parts = split_nonempty (we_payload e) CHR ''|'' in
               if length parts < 5 then Inr calls
               else Inr (calls @ map (\<lambda>r. (resolve_replica_address ord coord r, parts ! 0))
                                     (split_nonempty (parts ! 4) CHR '',''))))
         idxs [])"

text \<open>The deletions a put command stands for.\<close>

fun put_deletions :: "(node_entry list \<Rightarrow> node_entry list) \<Rightarrow> coordinator \<Rightarrow> meta_cmd \<Rightarrow> (string \<times> string) list" where
  "put_deletions ord coord (Cmd_put cid _ _ reps _) =
     map (\<lambda>r. (resolve_replica_address ord coord r, cid)) reps"
| "put_deletions ord coord _ = []"

lemma put_payload_parts:
  assumes "id_ok cid" and "replicas_ok reps"
  shows "split_nonempty (encode_put_payload cid sz rf v reps) CHR ''|'' =
     [cid, to_string_u64 sz, to_string_int rf, to_string_u64 v, join_csv reps]"
  using assms replicas_okD [OF assms(2)]
  by (simp add: encode_put_payload_def id_ok_def split_nonempty_field split_nonempty_last)

lemma map_u64_range_from:
  assumes "m \<le> n" and "n < 2 ^ 64 - 1"
  shows "u64_loop (word_of_nat m + 1) (word_of_nat n) = Inr (map (\<lambda>i. word_of_nat (Suc i)) [m ..< n])"
proof -
  have u: "unat (word_of_nat n :: u64) = n" using assms(2) by (simp add: unat_u64_of_nat)
  then have max: "(word_of_nat n :: u64) \<noteq> - 1" using assms(2) u64_not_max [of "word_of_nat n"] by auto
  have m: "(word_of_nat m + 1 :: u64) = word_of_nat (Suc m)" by simp
  have "unat (word_of_nat (Suc m) :: u64) = Suc m" using assms by (intro unat_u64_of_nat) auto
  moreover have "map word_of_nat [Suc m ..< Suc n] = map (\<lambda>i. word_of_nat (Suc i) :: u64) [m ..< n]"
    by (simp add: map_Suc_upt [symmetric] comp_def del: upt_Suc of_nat_Suc)
  ultimately show ?thesis using u max unfolding m by (simp add: u64_loop_def del: of_nat_Suc upt_Suc)
qed

lemma cleanup_calls:
  assumes rel: "wal_rel R w s" and es: "spec_entries s = cmd_entries 0 t cmds"
    and ok: "\<forall>cmd \<in> set cmds. cmd_ok cmd"
  shows "cleanup_uncommitted_puts R ord w coord =
    Inr (concat (map (put_deletions ord coord) (drop (spec_committed s) cmds)))"
proof -
  define n where "n = spec_committed s"
  define body where "body = (\<lambda>idx calls. ebind (wal_read_entry R idx w) (\<lambda>re. case re of
           None \<Rightarrow> Inr calls
         | Some e \<Rightarrow>
             if we_type e \<noteq> PUT_CHUNK then Inr calls
             else let parts = split_nonempty (we_payload e) CHR ''|'' in
               if length parts < 5 then Inr calls
               else Inr (calls @ map (\<lambda>r. (resolve_replica_address ord coord r, parts ! 0))
                                     (split_nonempty (parts ! 4) CHR '',''))))"
  have len: "n \<le> length cmds" "length cmds < 2 ^ 64 - 1"
    using wal_relD(1,2) [OF rel] es by (simp_all add: n_def)
  have step: "body (word_of_nat (Suc i)) calls = Inr (calls @ put_deletions ord coord (cmds ! i))"
    if "i < length cmds" for i calls
  proof -
    have rd: "wal_read_entry R (word_of_nat (Suc i)) w = Inr (Some (cmd_entry (word_of_nat (Suc i)) t (cmds ! i)))"
      using wal_relD(5) [OF rel, of i] that es nth_cmd_entries [OF that, of 0 t] by (simp del: of_nat_Suc)
    have "cmd_ok (cmds ! i)" using ok that by simp
    then show ?thesis
      by (cases "cmds ! i") (simp_all add: body_def rd cmd_entry_def put_payload_parts replicas_okD del: of_nat_Suc)
  qed
  have "efold body (map (\<lambda>i. word_of_nat (Suc i)) [n ..< m]) calls =
      Inr (calls @ concat (map (put_deletions ord coord) (take (m - n) (drop n cmds))))"
    if "n \<le> m" "m \<le> length cmds" for m calls
    using that
  proof (induction m rule: dec_induct)
    case (step m)
    have "take (Suc m - n) (drop n cmds) = take (m - n) (drop n cmds) @ [cmds ! m]"
      using step by (simp add: Suc_diff_le take_Suc_conv_app_nth)
    with step \<open>\<And>i calls. i < length cmds \<Longrightarrow> body (word_of_nat (Suc i)) calls = _\<close> show ?case
      by (simp add: efold_snoc del: of_nat_Suc)
  qed simp
  from this [of "length cmds" "[]"] len show ?thesis
    using map_u64_range_from [of n "length cmds"] wal_relD(3,4) [OF rel] es
    by (simp add: cleanup_uncommitted_puts_def body_def n_def del: of_nat_Suc)
qed

section \<open>Properties\<close>

text \<open>
  C12. What is logged is what is applied: for a command whose identifiers the text formats can carry,
  splitting and converting the payload the leader wrote gives the update the command stands for.
\<close>

theorem logged_command_applied:
  assumes "cmd_ok cmd"
  shows "apply_wal_entry now (cmd_entry i t cmd) coord = Inr (apply_cmd now cmd coord)"
  by (rule apply_cmd_entry [OF assms])

theorem logged_command_applied_witness:
  "apply_wal_entry 0 (cmd_entry 1 1 (Cmd_put ''c1'' 4096 (- 3) [''n1=h:1'', ''n2=h:2''] 7)) empty_coordinator =
     Inr (apply_put_chunk ''c1'' 4096 (- 3) [''n1=h:1'', ''n2=h:2''] 7 empty_coordinator)"
  using logged_command_applied [of "Cmd_put ''c1'' 4096 (- 3) [''n1=h:1'', ''n2=h:2''] 7" 0 1 1 empty_coordinator]
  by (simp add: id_ok_def int32_def replicas_ok_def replica_ok_def)

text \<open>
  A chunk name with a separator in it is logged and then cannot be applied: the conversion of the
  size field throws, on the commit and on every replay.
\<close>

theorem separator_in_chunk_id:
  "apply_wal_entry now (cmd_entry i t (Cmd_put ''a|b'' 5 2 [''n1=h:1''] 1)) coord = Inl Invalid_argument"
proof -
  have "split_nonempty (cmd_payload (Cmd_put ''a|b'' 5 2 [''n1=h:1''] 1)) CHR ''|'' =
      [''a'', ''b'', ''5'', ''2'', ''1'', ''n1=h:1,'']" by code_simp
  moreover have "stoull ''b'' = Inl Invalid_argument" by code_simp
  ultimately show ?thesis by (simp add: apply_wal_entry_def cmd_entry_def)
qed

text \<open>
  A heartbeat's fractions survive the six-digit text they are logged as up to one millionth;
  the other fields survive exactly.
\<close>

theorem heartbeat_logged_precision:
  assumes "id_ok nid" and "id_ok addr" and "\<bar>l\<bar> \<le> 1" and "\<bar>fr\<bar> \<le> 1"
  shows "\<exists>c n. apply_wal_entry now (cmd_entry i t (Cmd_heartbeat nid addr l fb tb fr)) coord = Inr c \<and>
    um_find (node_table c) nid = Some n \<and> \<bar>ne_load_fraction n - l\<bar> \<le> 1 / 10 ^ 6 \<and>
    \<bar>ne_failure_rate_7d n - fr\<bar> \<le> 1 / 10 ^ 6 \<and> ne_address n = addr \<and> ne_free_bytes n = fb \<and>
    ne_total_bytes n = tb \<and> ne_last_seen_ms n = now \<and> ne_alive n"
proof -
  have p: "(1 :: rat) \<le> pow2 126" by (simp add: pow2_def)
  have "cmd_ok (Cmd_heartbeat nid addr l fb tb fr)" using assms p by (simp add: order_trans [OF _ p])
  then show ?thesis
    using apply_cmd_entry [of "Cmd_heartbeat nid addr l fb tb fr" now i t coord]
      float_text_error [OF assms(3)] float_text_error [OF assms(4)] by (simp add: apply_heartbeat_def)
qed

theorem heartbeat_logged_precision_witness:
  "\<exists>c n. apply_wal_entry 50 (cmd_entry 1 1 (Cmd_heartbeat ''n1'' ''h:1'' (1 / 4) 10 20 0)) empty_coordinator = Inr c \<and>
    um_find (node_table c) ''n1'' = Some n \<and> \<bar>ne_load_fraction n - 1 / 4\<bar> \<le> 1 / 10 ^ 6 \<and> ne_free_bytes n = 10"
  using heartbeat_logged_precision [of "''n1''" "''h:1''" "1 / 4" 0 50 1 1 10 20 empty_coordinator]
  by (auto simp: id_ok_def)

text \<open>
  Replaying a log of well-formed commands over its own result changes no chunk, whatever the
  clock says the second time: a replica that already has the state may be sent the log again.
\<close>

theorem replay_idempotent:
  assumes "\<forall>cmd \<in> set cmds. cmd_ok cmd"
  shows "\<exists>c1 c2. efold (replay_callback clk) (cmd_entries 0 t cmds) empty_coordinator = Inr c1 \<and>
    efold (replay_callback clk') (cmd_entries 0 t cmds) c1 = Inr c2 \<and> (\<forall>k. get_chunk c2 k = get_chunk c1 k)"
  using assms by (simp add: replay_cmd_entries run_cmds_idem)

theorem replay_idempotent_witness:
  "\<exists>c1 c2. efold (replay_callback (\<lambda>_. 1)) (cmd_entries 0 1 [Cmd_reconfig_commit ''x'' [''n2''], Cmd_put ''x'' 9 2 [''n1''] 1, Cmd_delete ''y'']) empty_coordinator = Inr c1 \<and>
    efold (replay_callback (\<lambda>_. 2)) (cmd_entries 0 1 [Cmd_reconfig_commit ''x'' [''n2''], Cmd_put ''x'' 9 2 [''n1''] 1, Cmd_delete ''y'']) c1 = Inr c2 \<and>
    (\<forall>k. get_chunk c2 k = get_chunk c1 k)"
  by (rule replay_idempotent) (simp add: id_ok_def int32_def replicas_ok_def replica_ok_def)

text \<open>
  Recovery asks for the deletion of the data of exactly the uncommitted puts of the log: one call
  per replica of each, in log order, with the replica's address resolved against the tables.
\<close>

theorem cleanup_deletes_uncommitted_puts:
  assumes "wal_rel R w s" and "spec_entries s = cmd_entries 0 t cmds" and "\<forall>cmd \<in> set cmds. cmd_ok cmd"
  shows "cleanup_uncommitted_puts R ord w coord =
    Inr (concat (map (put_deletions ord coord) (drop (unat (committed w)) cmds)))"
  using cleanup_calls [OF assms] wal_rel_committed [OF assms(1)] by simp

lemma demo_log_rel:
  "\<exists>w. wal_rel mem_rocksdb w (fold spec_op_step [Op_append PUT_CHUNK 1 (cmd_payload (Cmd_put ''x'' 9 2 [''n1=h:1''] 1))]
     \<lparr>spec_entries = [], spec_committed = 0\<rparr>)"
proof -
  have "wal_rel mem_rocksdb \<lparr>wal_db = [], last_index = 0, committed = 0\<rparr> \<lparr>spec_entries = [], spec_committed = 0\<rparr>"
    using wal_rel_empty [of mem_rocksdb "[]"] by (simp add: wal_open_def mem_rocksdb_def)
  moreover have "wal_ops_ok [Op_append PUT_CHUNK 1 (cmd_payload (Cmd_put ''x'' 9 2 [''n1=h:1''] 1))]
      \<lparr>spec_entries = [], spec_committed = 0\<rparr>"
  proof -
    have "length (cmd_payload (Cmd_put ''x'' 9 2 [''n1=h:1''] 1)) = 15" by code_simp
    then show ?thesis by (simp add: payload_ok_def)
  qed
  ultimately show ?thesis using mem.wal_ops_rel by blast
qed

theorem cleanup_deletes_uncommitted_puts_witness:
  "\<exists>w. cleanup_uncommitted_puts mem_rocksdb (\<lambda>xs. xs) w empty_coordinator = Inr [(''h:1'', ''x'')]"
proof -
  obtain w where w: "wal_rel mem_rocksdb w (fold spec_op_step
      [Op_append PUT_CHUNK 1 (cmd_payload (Cmd_put ''x'' 9 2 [''n1=h:1''] 1))] \<lparr>spec_entries = [], spec_committed = 0\<rparr>)"
    using demo_log_rel by blast
  have "resolve_replica_address (\<lambda>xs. xs) empty_coordinator ''n1=h:1'' = ''h:1''" by (simp add: resolve_replica_address_def)
  moreover have "unat (committed w) = 0" using wal_rel_committed [OF w] by (simp add: spec_append_def)
  ultimately show ?thesis
    using cleanup_deletes_uncommitted_puts [OF w, of 1 "[Cmd_put ''x'' 9 2 [''n1=h:1''] 1]" "\<lambda>xs. xs" empty_coordinator]
    by (auto simp: spec_append_def cmd_entry_def id_ok_def int32_def replicas_ok_def replica_ok_def simp del: cmd_payload.simps)
qed

end
