(* ===== verification/Chunk_Store.thy ===== *)
theory Chunk_Store
  imports Cxx_Float RocksDB "HOL-Library.Sublist"
begin

text \<open>
  The storage node's chunk store, \<^verbatim>\<open>src/storage/chunk_store.{h,cpp}\<close>: every version of a chunk
  under a key built from the chunk's name and the version in ten decimal digits, in an ordered
  store. For names without a slash and versions of at most ten digits the order of the keys is the
  order of the versions, and the store is a map from names and versions to data.
\<close>

section \<open>Keys\<close>

text \<open>The format \<^verbatim>\<open>%010llu\<close>.\<close>

definition pad10 :: "nat \<Rightarrow> string" where
  "pad10 n = replicate (10 - length (dec_of_nat n)) CHR ''0'' @ dec_of_nat n"

definition chunk_prefix :: "string \<Rightarrow> string" where
  "chunk_prefix cid = ''chunk/'' @ cid @ ''/''"

definition make_key :: "string \<Rightarrow> u64 \<Rightarrow> string" where
  "make_key cid ver = ''chunk/'' @ cid @ ''/'' @ pad10 (unat ver)"

text \<open>\<^verbatim>\<open>key.rfind(prefix, 0) == 0\<close>.\<close>

definition starts_with :: "string \<Rightarrow> string \<Rightarrow> bool" where
  "starts_with key p \<longleftrightarrow> take (length p) key = p"

text \<open>\<^verbatim>\<open>key.rfind(c)\<close>.\<close>

definition rfind_char :: "char \<Rightarrow> string \<Rightarrow> nat option" where
  "rfind_char c s = map_option (\<lambda>i. length s - 1 - i) (find_char c (rev s))"

section \<open>Operations\<close>

text \<open>The store is \<open>None\<close> when it could not be opened.\<close>

definition store_write :: "'db rocksdb_ops \<Rightarrow> string \<Rightarrow> u64 \<Rightarrow> string \<Rightarrow> 'db option \<Rightarrow> bool \<times> 'db option" where
  "store_write R cid version data st = (case st of
     None \<Rightarrow> (False, st)
   | Some d \<Rightarrow> (let (ok, d1) = db_put R d (make_key cid version) data in (ok, Some d1)))"

definition store_read :: "'db rocksdb_ops \<Rightarrow> string \<Rightarrow> u64 \<Rightarrow> 'db option \<Rightarrow> (string \<times> u64) option" where
  "store_read R cid min_version st = (case st of
     None \<Rightarrow> None
   | Some d \<Rightarrow> (let p = chunk_prefix cid; seek_key = make_key cid 9999999999 in
       case db_seek_prev R d seek_key of
         None \<Rightarrow> None
       | Some (key, val) \<Rightarrow>
           if \<not> starts_with key p then None
           else (case stoull (drop (length p) key) of
                   Inl _ \<Rightarrow> None
                 | Inr found_ver \<Rightarrow> if found_ver < min_version then None else Some (val, found_ver))))"

definition store_remove :: "'db rocksdb_ops \<Rightarrow> string \<Rightarrow> 'db option \<Rightarrow> bool \<times> 'db option" where
  "store_remove R cid st = (case st of
     None \<Rightarrow> (False, st)
   | Some d \<Rightarrow> (let (ok, d1) = db_delete_range R d (make_key cid 0) (chunk_prefix cid @ ''~'') in (ok, Some d1)))"

definition latest_version :: "'db rocksdb_ops \<Rightarrow> string \<Rightarrow> 'db option \<Rightarrow> u64" where
  "latest_version R cid st = (case st of
     None \<Rightarrow> 0
   | Some d \<Rightarrow> (let p = chunk_prefix cid; seek_key = make_key cid 9999999999 in
       case db_seek_prev R d seek_key of
         None \<Rightarrow> 0
       | Some (key, _) \<Rightarrow>
           if \<not> starts_with key p then 0
           else (case stoull (drop (length p) key) of Inl _ \<Rightarrow> 0 | Inr v \<Rightarrow> v)))"

text \<open>\<open>ord\<close> arranges the hash set of names.\<close>

definition list_chunk_ids :: "'db rocksdb_ops \<Rightarrow> (string list \<Rightarrow> string list) \<Rightarrow> 'db option \<Rightarrow> string list" where
  "list_chunk_ids R ord st = (case st of
     None \<Rightarrow> []
   | Some d \<Rightarrow> (let keys = takeWhile (\<lambda>key. starts_with key ''chunk/'') (map fst (db_scan R d ''chunk/'')) in
       ord (remdups (concat (map (\<lambda>key. case rfind_char CHR ''/'' key of
                None \<Rightarrow> []
              | Some last_slash \<Rightarrow> if last_slash \<le> 6 then [] else [take (last_slash - 6) (drop 6 key)]) keys)))))"

section \<open>The order of keys\<close>

lemma append_le [simp]: "(p @ x :: string) \<le> p @ y \<longleftrightarrow> x \<le> y"
  by (induction p) simp_all

lemma append_less [simp]: "(p @ x :: string) < p @ y \<longleftrightarrow> x < y"
  by (induction p) simp_all

text \<open>A string that neither extends \<open>p\<close> nor is extended by it compares alike with all that extend \<open>p\<close>.\<close>

lemma compare_outside:
  fixes p :: string
  assumes "\<not> prefix p k" and "\<not> prefix k p"
  shows "k < p @ x \<longleftrightarrow> k < p @ y" and "p @ x < k \<longleftrightarrow> p @ y < k" and "k \<noteq> p @ x"
proof -
  have "(k < p @ x \<longleftrightarrow> k < p @ y) \<and> (p @ x < k \<longleftrightarrow> p @ y < k)"
    using assms
  proof (induction p arbitrary: k)
    case (Cons c p)
    then obtain d k' where k: "k = d # k'" by (cases k) auto
    show ?case
    proof (cases "c = d")
      case True
      then show ?thesis using Cons.prems Cons.IH [of k'] k by simp
    next
      case False
      then show ?thesis by (simp add: k)
    qed
  qed simp
  then show "k < p @ x \<longleftrightarrow> k < p @ y" and "p @ x < k \<longleftrightarrow> p @ y < k" by blast+
  show "k \<noteq> p @ x" using assms(1) by auto
qed

lemma pad10_digits: "c \<in> set (pad10 n) \<Longrightarrow> is_digit c"
  by (auto simp: pad10_def dest: dec_of_nat_digits) (simp add: is_digit_def)

lemma pad10_nonempty [simp]: "pad10 n \<noteq> []"
  by (simp add: pad10_def)

lemma digits_val_Cons: "digits_val (c # s) = digit_val c * 10 ^ length s + digits_val s"
proof -
  have "foldl (\<lambda>a c. a * 10 + digit_val c) a s = a * 10 ^ length s + foldl (\<lambda>a c. a * 10 + digit_val c) 0 s" for a
  proof (induction s rule: rev_induct)
    case (snoc x s)
    then show ?case by (simp add: algebra_simps)
  qed simp
  from this [of "digit_val c"] show ?thesis by (simp add: digits_val_def)
qed

lemma digits_val_bound: "\<forall>c \<in> set s. is_digit c \<Longrightarrow> digits_val s < 10 ^ length s"
proof (induction s)
  case (Cons c s)
  have "digit_val c \<le> 9" using Cons.prems by (auto simp: is_digit_def digit_val_def)
  then have "digit_val c * 10 ^ length s \<le> 9 * 10 ^ length s" by (intro mult_right_mono) simp_all
  moreover have "digits_val s < 10 ^ length s" using Cons by simp
  ultimately have "digit_val c * 10 ^ length s + digits_val s < 9 * 10 ^ length s + 10 ^ length s" by (rule add_le_less_mono)
  then show ?case by (simp add: digits_val_Cons)
qed (simp add: digits_val_def)

lemma digit_order: "is_digit c \<Longrightarrow> is_digit d \<Longrightarrow> c < d \<longleftrightarrow> digit_val c < digit_val d"
  by (auto simp: is_digit_def digit_val_def less_char_def)

lemma digit_val_inj: "is_digit c \<Longrightarrow> is_digit d \<Longrightarrow> digit_val c = digit_val d \<Longrightarrow> c = d"
  using digit_order [of c d] digit_order [of d c] by (metis less_irrefl linorder_neqE)

lemma digits_order:
  "length s = length t \<Longrightarrow> \<forall>c \<in> set s. is_digit c \<Longrightarrow> \<forall>c \<in> set t. is_digit c \<Longrightarrow>
    s < t \<longleftrightarrow> digits_val s < digits_val t"
proof (induction s t rule: list_induct2)
  case (Cons c s d t)
  have b: "digits_val s < 10 ^ length s" "digits_val t < 10 ^ length s"
    using digits_val_bound [of s] digits_val_bound [of t] Cons by simp_all
  have dg: "is_digit c" "is_digit d" using Cons.prems by simp_all
  show ?case
  proof (cases "digit_val c" "digit_val d" rule: linorder_cases)
    case less
    then have "Suc (digit_val c) * 10 ^ length s \<le> digit_val d * 10 ^ length s" by (intro mult_right_mono) simp_all
    then have "digits_val (c # s) < digits_val (d # t)" using b Cons.hyps by (simp add: digits_val_Cons)
    moreover have "c < d" using less digit_order [OF dg] by simp
    ultimately show ?thesis by simp
  next
    case equal
    then have "c = d" using digit_val_inj [OF dg] by simp
    then show ?thesis using Cons by (simp add: digits_val_Cons)
  next
    case greater
    then have "Suc (digit_val d) * 10 ^ length s \<le> digit_val c * 10 ^ length s" by (intro mult_right_mono) simp_all
    then have "\<not> digits_val (c # s) < digits_val (d # t)" using b Cons.hyps by (simp add: digits_val_Cons)
    moreover have "d < c" using greater digit_order [OF dg(2,1)] by simp
    ultimately show ?thesis by auto
  qed
qed (simp add: digits_val_def)

text \<open>Versions the ten digits can hold, and names the keys can carry.\<close>

definition version_ok :: "u64 \<Rightarrow> bool" where
  "version_ok v \<longleftrightarrow> unat v < 10 ^ 10"

definition name_ok :: "string \<Rightarrow> bool" where
  "name_ok cid \<longleftrightarrow> CHR ''/'' \<notin> set cid"

lemma length_pad10: "n < 10 ^ 10 \<Longrightarrow> length (pad10 n) = 10"
  using length_dec_of_nat [of n 9] by (simp add: pad10_def)

lemma digits_val_pad10 [simp]: "digits_val (pad10 n) = n"
  by (simp add: pad10_def digits_val_append)

lemma pad10_less: "m < 10 ^ 10 \<Longrightarrow> n < 10 ^ 10 \<Longrightarrow> pad10 m < pad10 n \<longleftrightarrow> m < n"
  using digits_order [of "pad10 m" "pad10 n"] by (simp add: length_pad10 pad10_digits)

lemma pad10_inj [simp]: "pad10 m = pad10 n \<longleftrightarrow> m = n"
  by (metis digits_val_pad10)

lemma make_key_prefix: "make_key cid v = chunk_prefix cid @ pad10 (unat v)"
  by (simp add: make_key_def chunk_prefix_def)

lemma make_key_less:
  "version_ok v \<Longrightarrow> version_ok w \<Longrightarrow> make_key cid v < make_key cid w \<longleftrightarrow> v < w"
  by (simp add: make_key_prefix pad10_less version_ok_def word_less_nat_alt)

lemma make_key_le: "version_ok v \<Longrightarrow> version_ok w \<Longrightarrow> make_key cid v \<le> make_key cid w \<longleftrightarrow> v \<le> w"
  using make_key_less [of w v cid] by (simp add: linorder_not_less [symmetric])

lemma make_key_version [simp]: "make_key cid v = make_key cid w \<longleftrightarrow> v = w"
  by (simp add: make_key_prefix word_unat_eq_iff)

lemma name_eq:
  assumes "c \<notin> set x" and "c \<notin> set y" and "x @ c # s = y @ c # t"
  shows "x = y"
proof -
  have "c \<notin> set z \<Longrightarrow> takeWhile (\<lambda>a. a \<noteq> c) (z @ c # u) = z" for z u by (induction z) auto
  then have "takeWhile (\<lambda>a. a \<noteq> c) (x @ c # s) = x" "takeWhile (\<lambda>a. a \<noteq> c) (y @ c # t) = y"
    using assms(1,2) by blast+
  with assms(3) show ?thesis by simp
qed

text \<open>The keys of another chunk lie entirely on one side of those of this one.\<close>

lemma other_key_outside:
  assumes "name_ok cid" and "name_ok cid'" and "cid \<noteq> cid'"
  shows "\<not> prefix (chunk_prefix cid) (make_key cid' v)" and "\<not> prefix (make_key cid' v) (chunk_prefix cid)"
proof -
  show "\<not> prefix (chunk_prefix cid) (make_key cid' v)"
  proof
    assume "prefix (chunk_prefix cid) (make_key cid' v)"
    then obtain zs where "cid' @ CHR ''/'' # pad10 (unat v) = cid @ CHR ''/'' # zs"
      by (auto simp: prefix_def chunk_prefix_def make_key_def)
    then show False using name_eq [of "CHR ''/''" cid' cid] assms by (auto simp: name_ok_def)
  qed
  show "\<not> prefix (make_key cid' v) (chunk_prefix cid)"
  proof
    assume "prefix (make_key cid' v) (chunk_prefix cid)"
    then obtain zs where "cid @ [CHR ''/''] = (cid' @ CHR ''/'' # pad10 (unat v)) @ zs"
      by (auto simp: prefix_def chunk_prefix_def make_key_def)
    then have "cid @ CHR ''/'' # [] = cid' @ CHR ''/'' # (pad10 (unat v) @ zs)" by simp
    then show False using name_eq [of "CHR ''/''" cid cid'] assms by (auto simp: name_ok_def)
  qed
qed

lemma starts_with_prefix: "starts_with k p \<longleftrightarrow> prefix p k"
  by (metis append_eq_conv_conj append_take_drop_id prefixI prefix_def starts_with_def)

lemma make_key_starts: "starts_with (make_key cid v) (chunk_prefix cid)"
  by (simp add: starts_with_prefix make_key_prefix)

lemma stoull_pad10: "stoull (pad10 (unat v)) = Inr v"
proof -
  have sp: "dropWhile is_space (pad10 n) = pad10 n" for n
    using pad10_digits [of "hd (pad10 n)" n] digit_not_space by (cases "pad10 n") auto
  have hd: "is_digit (hd (pad10 n))" for n using pad10_digits [of "hd (pad10 n)" n] by simp
  then have "hd (pad10 n) \<noteq> CHR ''-''" "hd (pad10 n) \<noteq> CHR ''+''" for n
    by (metis digit_ne)+
  moreover have tw: "takeWhile is_digit (pad10 n) = pad10 n" for n using pad10_digits by (simp add: takeWhile_eq_all_conv)
  ultimately have "scan_int (pad10 n) = Some (False, n)" for n by (simp add: scan_int_def sp tw Let_def)
  then show ?thesis using unat_u64_bound [of v] by (simp add: stoull_def)
qed

section \<open>The store as a map\<close>

definition store_abs :: "'db rocksdb_ops \<Rightarrow> 'db \<Rightarrow> string \<Rightarrow> u64 \<Rightarrow> string option" where
  "store_abs R d cid v = db_get R d (make_key cid v)"

text \<open>Every key in the store is that of a chunk whose name and version the keys can carry.\<close>

definition store_wf :: "'db rocksdb_ops \<Rightarrow> 'db \<Rightarrow> bool" where
  "store_wf R d \<longleftrightarrow> (\<forall>k. db_get R d k \<noteq> None \<longrightarrow> (\<exists>cid v. name_ok cid \<and> version_ok v \<and> k = make_key cid v))"

text \<open>The newest version of a chunk.\<close>

definition newest :: "'db rocksdb_ops \<Rightarrow> 'db \<Rightarrow> string \<Rightarrow> u64 \<Rightarrow> bool" where
  "newest R d cid v \<longleftrightarrow> store_abs R d cid v \<noteq> None \<and> (\<forall>w. store_abs R d cid w \<noteq> None \<longrightarrow> w \<le> v)"

lemma version_ok_max: "version_ok 9999999999" "version_ok 0"
  by (simp_all add: version_ok_def)

lemma version_le_max: "version_ok v \<Longrightarrow> v \<le> 9999999999"
  by (simp add: version_ok_def word_le_nat_alt)

lemma make_key_inj:
  "name_ok cid \<Longrightarrow> name_ok cid' \<Longrightarrow> make_key cid v = make_key cid' w \<longleftrightarrow> cid = cid' \<and> v = w"
proof (cases "cid = cid'")
  case False
  assume "name_ok cid" "name_ok cid'"
  with False have "\<not> prefix (chunk_prefix cid) (make_key cid' w)" by (intro other_key_outside)
  moreover have "prefix (chunk_prefix cid) (make_key cid v)" by (simp add: make_key_prefix)
  ultimately show ?thesis using False by auto
qed simp

context rocksdb
begin

lemma store_wf_version: "store_wf R d \<Longrightarrow> name_ok cid \<Longrightarrow> store_abs R d cid v \<noteq> None \<Longrightarrow> version_ok v"
  unfolding store_wf_def store_abs_def by (metis make_key_inj)

lemma seek_newest:
  assumes wf: "store_wf R d" and name: "name_ok cid" and new: "newest R d cid v"
  shows "\<exists>data. db_seek_prev R d (make_key cid 9999999999) = Some (make_key cid v, data) \<and> store_abs R d cid v = Some data"
proof -
  have v: "version_ok v" using store_wf_version [OF wf name] new by (auto simp: newest_def)
  have le: "make_key cid v \<le> make_key cid 9999999999"
    using make_key_le [OF v version_ok_max(1)] version_le_max [OF v] by simp
  have present: "db_get R d (make_key cid v) \<noteq> None" using new by (simp add: newest_def store_abs_def)
  obtain k data where kd: "db_seek_prev R d (make_key cid 9999999999) = Some (k, data)"
    using seek_prev_None [OF _ le] present by (cases "db_seek_prev R d (make_key cid 9999999999)") auto
  have k: "k \<le> make_key cid 9999999999" "db_get R d k = Some data" "make_key cid v \<le> k"
    using seek_prev_Some [OF kd] le present by auto
  obtain cid' w where kw: "name_ok cid'" "version_ok w" "k = make_key cid' w"
    using wf k(2) by (auto simp: store_wf_def)
  have "cid' = cid"
  proof (rule ccontr)
    assume "cid' \<noteq> cid"
    then have "\<not> prefix (chunk_prefix cid) k" "\<not> prefix k (chunk_prefix cid)"
      using other_key_outside [OF name kw(1)] kw(3) by auto
    note out = compare_outside [OF this]
    have "make_key cid v < k" "k < make_key cid 9999999999"
      using k(1,3) out(3) by (auto simp: make_key_prefix order_less_le)
    then show False using out(1) [of "pad10 (unat v)" "pad10 9999999999"]
      by (auto simp: make_key_prefix)
  qed
  moreover have "w \<le> v" using new kw k(2) \<open>cid' = cid\<close> by (auto simp: newest_def store_abs_def)
  moreover have "v \<le> w" using k(3) kw \<open>cid' = cid\<close> make_key_le [OF v kw(2)] by simp
  ultimately have "k = make_key cid v" using kw(3) by simp
  then show ?thesis using kd k(2) by (simp add: store_abs_def)
qed

lemma seek_absent:
  assumes wf: "store_wf R d" and name: "name_ok cid" and none: "\<And>v. store_abs R d cid v = None"
    and kd: "db_seek_prev R d t = Some (k, data)"
  shows "\<not> starts_with k (chunk_prefix cid)"
proof -
  obtain cid' w where kw: "name_ok cid'" "k = make_key cid' w" and g: "db_get R d k = Some data"
    using wf seek_prev_Some [OF kd] by (auto simp: store_wf_def)
  then have "cid' \<noteq> cid" using none [of w] by (auto simp: store_abs_def)
  then show ?thesis using other_key_outside(1) [OF name kw(1)] kw(2) by (auto simp: starts_with_prefix)
qed

lemma read_newest:
  assumes wf: "store_wf R d" and name: "name_ok cid" and new: "newest R d cid v"
  shows "store_read R cid mv (Some d) = (if v < mv then None else map_option (\<lambda>data. (data, v)) (store_abs R d cid v))"
    and "latest_version R cid (Some d) = v"
proof -
  obtain data where "db_seek_prev R d (make_key cid 9999999999) = Some (make_key cid v, data)" "store_abs R d cid v = Some data"
    using seek_newest [OF assms] by blast
  moreover have "drop (length (chunk_prefix cid)) (make_key cid v) = pad10 (unat v)" by (simp add: make_key_prefix)
  ultimately show "store_read R cid mv (Some d) = (if v < mv then None else map_option (\<lambda>data. (data, v)) (store_abs R d cid v))"
    and "latest_version R cid (Some d) = v"
    by (simp_all add: store_read_def latest_version_def Let_def make_key_starts stoull_pad10)
qed

lemma read_absent:
  assumes wf: "store_wf R d" and name: "name_ok cid" and none: "\<And>v. store_abs R d cid v = None"
  shows "store_read R cid mv (Some d) = None" and "latest_version R cid (Some d) = 0"
  using seek_absent [OF assms] by (auto simp: store_read_def latest_version_def Let_def split: option.split)

lemma write_abs:
  assumes "store_write R cid v data (Some d) = (True, Some d')" and "name_ok cid" and "name_ok cid'"
  shows "store_abs R d' cid' w = (if cid' = cid \<and> w = v then Some data else store_abs R d cid' w)"
proof -
  have p: "db_put R d (make_key cid v) data = (True, d')" using assms(1) by (auto simp: store_write_def split: prod.splits)
  show ?thesis using get_put_same [OF p] get_put_other [OF p, of "make_key cid' w"] make_key_inj [OF assms(3,2)]
    by (auto simp: store_abs_def)
qed

lemma write_wf:
  assumes "store_write R cid v data (Some d) = (ok, Some d')" and "store_wf R d" and "name_ok cid" and "version_ok v"
  shows "store_wf R d'"
proof -
  have p: "db_put R d (make_key cid v) data = (ok, d')" using assms(1) by (auto simp: store_write_def split: prod.splits)
  show ?thesis using get_put_other [OF p] assms(2-4) unfolding store_wf_def by metis
qed

lemma remove_range:
  assumes name: "name_ok cid" "name_ok cid'" and v: "version_ok v"
  shows "make_key cid 0 \<le> make_key cid' v \<and> make_key cid' v < chunk_prefix cid @ ''~'' \<longleftrightarrow> cid' = cid"
proof (cases "cid' = cid")
  case True
  have "is_digit c \<Longrightarrow> c < CHR ''~''" for c by (simp add: is_digit_def less_char_def)
  moreover obtain c cs where "pad10 (unat v) = c # cs" "is_digit c"
    using pad10_digits [of "hd (pad10 (unat v))" "unat v"] by (cases "pad10 (unat v)") auto
  ultimately have "pad10 (unat v) < ''~''" by simp
  then show ?thesis using True make_key_le [OF version_ok_max(2) v] by (simp add: make_key_prefix)
next
  case False
  then have "\<not> prefix (chunk_prefix cid) (make_key cid' v)" "\<not> prefix (make_key cid' v) (chunk_prefix cid)"
    using other_key_outside [OF name] by auto
  note out = compare_outside [OF this]
  have "\<not> (make_key cid 0 < make_key cid' v \<and> make_key cid' v < chunk_prefix cid @ ''~'')"
    using out(1) [of "pad10 0" "''~''"] by (auto simp: make_key_prefix [of cid])
  moreover have "make_key cid 0 \<noteq> make_key cid' v" using out(3) [of "pad10 0"] by (auto simp: make_key_prefix [of cid])
  ultimately show ?thesis using False by (auto simp: order_le_less)
qed

lemma remove_abs:
  assumes rm: "store_remove R cid (Some d) = (True, Some d')" and wf: "store_wf R d" and name: "name_ok cid"
  shows "store_wf R d' \<and> (\<forall>cid' w. name_ok cid' \<longrightarrow>
    store_abs R d' cid' w = (if cid' = cid then None else store_abs R d cid' w))"
proof -
  have p: "db_delete_range R d (make_key cid 0) (chunk_prefix cid @ ''~'') = (True, d')"
    using rm by (auto simp: store_remove_def split: prod.splits)
  note get = delete_range_ok [OF p]
  have "store_wf R d'" using wf get unfolding store_wf_def by metis
  moreover have "store_abs R d' cid' w = (if cid' = cid then None else store_abs R d cid' w)" if n: "name_ok cid'" for cid' w
  proof (cases "store_abs R d cid' w = None")
    case True
    then show ?thesis using get [of "make_key cid' w"] by (auto simp: store_abs_def)
  next
    case False
    then have "version_ok w" using store_wf_version [OF wf n] by blast
    then show ?thesis using get [of "make_key cid' w"] remove_range [OF name n] by (simp add: store_abs_def)
  qed
  ultimately show ?thesis by blast
qed

lemma rfind_slash: "CHR ''/'' \<notin> set t \<Longrightarrow> rfind_char CHR ''/'' (s @ CHR ''/'' # t) = Some (length s)"
  using find_char_append [of "CHR ''/''" "rev t" "rev s"] by (simp add: rfind_char_def)

lemma rfind_make_key: "rfind_char CHR ''/'' (make_key cid v) = Some (6 + length cid)"
proof -
  have "CHR ''/'' \<notin> set (pad10 (unat v))" using pad10_digits [of "CHR ''/''"] by (auto simp: is_digit_def)
  then show ?thesis using rfind_slash [of "pad10 (unat v)" "''chunk/'' @ cid"] by (simp add: make_key_def)
qed

lemma list_ids_set:
  assumes wf: "store_wf R d" and ord: "\<And>xs. set (ord xs) = set xs"
  shows "set (list_chunk_ids R ord (Some d)) = {cid. cid \<noteq> [] \<and> name_ok cid \<and> (\<exists>v. store_abs R d cid v \<noteq> None)}"
proof -
  define keys where "keys = map fst (db_scan R d ''chunk/'')"
  define ids where "ids = (\<lambda>key. case rfind_char CHR ''/'' key of None \<Rightarrow> []
     | Some last_slash \<Rightarrow> if last_slash \<le> 6 then [] else [take (last_slash - 6) (drop 6 key)])"
  have ids: "ids (make_key cid v) = (if cid = [] then [] else [cid])" for cid v
    by (simp add: ids_def rfind_make_key) (simp add: make_key_def)
  have keys: "set keys = {k. ''chunk/'' \<le> k \<and> db_get R d k \<noteq> None}"
  proof -
    have "set keys = {k. \<exists>v. (k, v) \<in> set (db_scan R d ''chunk/'')}" by (force simp: keys_def)
    then show ?thesis by (simp add: scan_set)
  qed
  have mk: "''chunk/'' \<le> make_key cid v" for cid v
    using append_le [of "''chunk/''" "[]" "cid @ ''/'' @ pad10 (unat v)"] by (simp add: make_key_def)
  have "starts_with k ''chunk/''" if "k \<in> set keys" for k
    using that keys wf by (auto simp: store_wf_def starts_with_def make_key_def)
  then have tw: "takeWhile (\<lambda>key. starts_with key ''chunk/'') keys = keys" by (simp add: takeWhile_eq_all_conv)
  have "set (list_chunk_ids R ord (Some d)) = (\<Union>k \<in> set keys. set (ids k))"
    by (simp add: list_chunk_ids_def keys_def [symmetric] tw ids_def [symmetric] ord)
  also have "\<dots> = {cid. cid \<noteq> [] \<and> name_ok cid \<and> (\<exists>v. store_abs R d cid v \<noteq> None)}"
  proof (intro set_eqI iffI)
    fix cid
    assume "cid \<in> (\<Union>k \<in> set keys. set (ids k))"
    then obtain k where k: "k \<in> set keys" "cid \<in> set (ids k)" by blast
    then obtain c v where cv: "name_ok c" "k = make_key c v" using keys wf by (auto simp: store_wf_def)
    then have "cid = c" "c \<noteq> []" using k(2) by (auto simp: ids split: if_splits)
    then show "cid \<in> {cid. cid \<noteq> [] \<and> name_ok cid \<and> (\<exists>v. store_abs R d cid v \<noteq> None)}"
      using cv k(1) keys by (auto simp: store_abs_def)
  next
    fix cid
    assume "cid \<in> {cid. cid \<noteq> [] \<and> name_ok cid \<and> (\<exists>v. store_abs R d cid v \<noteq> None)}"
    then obtain v where "cid \<noteq> []" "make_key cid v \<in> set keys" using keys mk by (auto simp: store_abs_def)
    then show "cid \<in> (\<Union>k \<in> set keys. set (ids k))" using ids [of cid v] by force
  qed
  finally show ?thesis .
qed

end

section \<open>Properties\<close>

text \<open>
  C25. Reading a chunk gives its newest version if that is new enough, and nothing if it is older than
  asked for or the chunk is not there; \<^verbatim>\<open>latest_version\<close> agrees.
\<close>

theorem store_read_newest:
  assumes db: "rocksdb R" and wf: "store_wf R d" and name: "name_ok cid"
  shows "(\<forall>v data. newest R d cid v \<and> store_abs R d cid v = Some data \<longrightarrow>
      store_read R cid mv (Some d) = (if mv \<le> v then Some (data, v) else None) \<and> latest_version R cid (Some d) = v) \<and>
    ((\<forall>v. store_abs R d cid v = None) \<longrightarrow>
      store_read R cid mv (Some d) = None \<and> latest_version R cid (Some d) = 0)"
  using rocksdb.read_newest [OF db wf name] rocksdb.read_absent [OF db wf name] by (auto simp: linorder_not_less)

text \<open>
  C26. The store is a map from names and versions to data: a successful write sets one version, a
  successful removal clears all versions of one chunk, neither touches another chunk, and both keep
  the keys well-formed.
\<close>

theorem store_write_remove:
  assumes db: "rocksdb R" and wf: "store_wf R d" and name: "name_ok cid" and ver: "version_ok v"
  shows "(\<forall>d'. store_write R cid v data (Some d) = (True, Some d') \<longrightarrow> store_wf R d' \<and>
      (\<forall>cid' w. name_ok cid' \<longrightarrow> store_abs R d' cid' w = (if cid' = cid \<and> w = v then Some data else store_abs R d cid' w))) \<and>
    (\<forall>d'. store_remove R cid (Some d) = (True, Some d') \<longrightarrow> store_wf R d' \<and>
      (\<forall>cid' w. name_ok cid' \<longrightarrow> store_abs R d' cid' w = (if cid' = cid then None else store_abs R d cid' w)))"
  using rocksdb.write_wf [OF db _ wf name ver] rocksdb.write_abs [OF db _ name] rocksdb.remove_abs [OF db _ wf name]
  by blast

text \<open>The listing names exactly the chunks of which a version is stored, each once.\<close>

theorem list_chunk_ids_exact:
  assumes db: "rocksdb R" and wf: "store_wf R d" and ord: "\<forall>xs. mset (ord xs) = mset xs"
  shows "distinct (list_chunk_ids R ord (Some d)) \<and>
    set (list_chunk_ids R ord (Some d)) = {cid. cid \<noteq> [] \<and> name_ok cid \<and> (\<exists>v. store_abs R d cid v \<noteq> None)}"
proof -
  have "set (ord xs) = set xs" "distinct (ord xs) = distinct xs" for xs
    using ord by (metis set_mset_mset, metis mset_eq_imp_distinct_iff)
  then show ?thesis using rocksdb.list_ids_set [OF db wf, of ord] by (simp add: list_chunk_ids_def Let_def)
qed

text \<open>
  With a slash in a name two chunks share keys: reading the chunk \<^verbatim>\<open>a\<close>, which was never
  written, returns the data of \<^verbatim>\<open>a/1\<close> as its version 1, and removing it removes the other.
\<close>

theorem slash_in_name_aliases:
  "store_read mem_rocksdb ''a'' 1 (snd (store_write mem_rocksdb ''a/1'' 5 ''secret'' (Some []))) = Some (''secret'', 1) \<and>
   store_read mem_rocksdb ''a/1'' 1 (snd (store_remove mem_rocksdb ''a''
     (snd (store_write mem_rocksdb ''a/1'' 5 ''secret'' (Some []))))) = None"
proof -
  have "store_read mem_rocksdb ''a'' 1 (Some [(''chunk/a/1/0000000005'', ''secret'')]) = Some (''secret'', 1)"
    by code_simp
  moreover have "store_write mem_rocksdb ''a/1'' 5 ''secret'' (Some []) = (True, Some [(''chunk/a/1/0000000005'', ''secret'')])"
    by code_simp
  moreover have "store_remove mem_rocksdb ''a'' (Some [(''chunk/a/1/0000000005'', ''secret'')]) = (True, Some [])"
    by code_simp
  moreover have "store_read mem_rocksdb ''a/1'' 1 (Some []) = None" by code_simp
  ultimately show ?thesis by simp
qed

section \<open>Concrete stores\<close>

lemma demo_store:
  "store_wf mem_rocksdb [(make_key ''a'' 3, ''old''), (make_key ''a'' 7, ''new''), (make_key ''b'' 9, ''x'')]"
proof -
  have "name_ok ''a''" "name_ok ''b''" "version_ok 3" "version_ok 7" "version_ok 9"
    by (simp_all add: name_ok_def version_ok_def)
  then show ?thesis by (auto simp: store_wf_def mem_rocksdb_def split: if_splits)
qed

lemma demo_newest:
  "newest mem_rocksdb [(make_key ''a'' 3, ''old''), (make_key ''a'' 7, ''new''), (make_key ''b'' 9, ''x'')] ''a'' 7"
proof -
  have "make_key ''b'' 9 \<noteq> make_key ''a'' w" for w by (simp add: make_key_def)
  then show ?thesis by (auto simp: newest_def store_abs_def mem_rocksdb_def split: if_splits)
qed

theorem store_read_newest_witness:
  "store_read mem_rocksdb ''a'' 4 (Some [(make_key ''a'' 3, ''old''), (make_key ''a'' 7, ''new''), (make_key ''b'' 9, ''x'')]) =
     Some (''new'', 7)"
proof -
  have "store_abs mem_rocksdb [(make_key ''a'' 3, ''old''), (make_key ''a'' 7, ''new''), (make_key ''b'' 9, ''x'')] ''a'' 7 = Some ''new''"
    by (simp add: store_abs_def mem_rocksdb_def)
  moreover have "name_ok ''a''" by (simp add: name_ok_def)
  ultimately have "store_read mem_rocksdb ''a'' 4
      (Some [(make_key ''a'' 3, ''old''), (make_key ''a'' 7, ''new''), (make_key ''b'' 9, ''x'')]) =
      (if (4 :: u64) \<le> 7 then Some (''new'', 7) else None)"
    using store_read_newest [OF mem.rocksdb_axioms demo_store, of "''a''" 4] demo_newest by blast
  then show ?thesis by simp
qed

theorem store_write_remove_witness:
  "\<exists>d'. store_remove mem_rocksdb ''a'' (Some [(make_key ''a'' 3, ''old''), (make_key ''a'' 7, ''new''), (make_key ''b'' 9, ''x'')]) =
     (True, Some d') \<and> store_abs mem_rocksdb d' ''a'' 7 = None \<and> store_abs mem_rocksdb d' ''b'' 9 = Some ''x''"
proof -
  obtain d' where d': "store_remove mem_rocksdb ''a'' (Some [(make_key ''a'' 3, ''old''), (make_key ''a'' 7, ''new''), (make_key ''b'' 9, ''x'')]) = (True, Some d')"
    by (simp add: store_remove_def mem_rocksdb_def mem_delete_range_def)
  have "store_abs mem_rocksdb [(make_key ''a'' 3, ''old''), (make_key ''a'' 7, ''new''), (make_key ''b'' 9, ''x'')] ''b'' 9 = Some ''x''"
    by (simp add: store_abs_def mem_rocksdb_def make_key_def)
  then show ?thesis
    using store_write_remove [OF mem.rocksdb_axioms demo_store, of "''a''" 8 "''y''"] d'
    by (simp add: name_ok_def version_ok_def)
qed

theorem list_chunk_ids_exact_witness:
  "''a'' \<in> set (list_chunk_ids mem_rocksdb rev (Some [(make_key ''a'' 3, ''old''), (make_key ''a'' 7, ''new''), (make_key ''b'' 9, ''x'')]))"
  using list_chunk_ids_exact [OF mem.rocksdb_axioms demo_store, of rev] demo_newest by (auto simp: name_ok_def newest_def)

end
