(* ===== verification/Storage_Node.thy ===== *)
theory Storage_Node
  imports Chunk_Store
begin

text \<open>
  A storage node: the handlers of \<^verbatim>\<open>src/storage/storage_rpc.cpp\<close>, the heartbeat of
  \<^verbatim>\<open>src/storage/stats_reporter.cpp\<close> and the repair pass of
  \<^verbatim>\<open>src/storage/replica_repair.cpp\<close>. What the operating system and the metadata server answer
  are arguments; a remote call that fails is \<open>None\<close>. A stream that breaks delivers some of its
  pieces and ends with a status that is not OK.
\<close>

section \<open>The reporter\<close>

record reporter =
  rp_stopped :: bool
  rp_access_counts :: "(string, u64) umap"
  rp_assigned :: "string list"
  rp_has_assignment :: bool

definition new_reporter :: reporter where
  "new_reporter = \<lparr>rp_stopped = False, rp_access_counts = [], rp_assigned = [], rp_has_assignment = False\<rparr>"

definition record_access :: "string \<Rightarrow> reporter \<Rightarrow> reporter" where
  "record_access cid rp = rp\<lparr>rp_access_counts := um_assign cid
     ((case um_find (rp_access_counts rp) cid of Some n \<Rightarrow> n | None \<Rightarrow> 0) + 1) (rp_access_counts rp)\<rparr>"

text \<open>\<open>loadavg\<close> is \<open>None\<close> when \<^verbatim>\<open>getloadavg\<close> fails.\<close>

definition compute_load_fraction :: "float64 option \<Rightarrow> int \<Rightarrow> float32" where
  "compute_load_fraction loadavg hardware_concurrency = (case loadavg of
     None \<Rightarrow> 0
   | Some load \<Rightarrow>
       (let cpus = (if hardware_concurrency \<le> 0 then 1 else hardware_concurrency);
            frac = fl64 (load / fl64 (of_int cpus));
            frac1 = (if frac < 0 then 0 else frac);
            frac2 = (if 1 < frac1 then 1 else frac1)
        in fl32 frac2))"

record statvfs =
  f_bavail :: u64
  f_bsize :: u64
  f_blocks :: u64
  f_frsize :: u64

definition compute_disk_usage :: "statvfs option \<Rightarrow> (u64 \<times> u64) option" where
  "compute_disk_usage st = map_option (\<lambda>s. (f_bavail s * f_bsize s, f_blocks s * f_frsize s)) st"

record heartbeat_req =
  hb_node_id :: string
  hb_address :: string
  hb_load_fraction :: float32
  hb_free_bytes :: u64
  hb_total_bytes :: u64
  hb_failure_rate_7d :: float32
  hb_access_counts :: "(string, u64) umap"

record heartbeat_resp =
  hr_ok :: bool
  hr_leader_hint :: string
  hr_assigned :: "string list"

text \<open>\<^verbatim>\<open>StatsReporter::run_once\<close>; \<open>rpc\<close> is what the call of \<^verbatim>\<open>NodeHeartbeat\<close> gives.\<close>

definition report_once :: "string \<Rightarrow> string \<Rightarrow> float32 \<Rightarrow> (u64 \<times> u64) option \<Rightarrow>
     (heartbeat_req \<Rightarrow> heartbeat_resp option) \<Rightarrow> reporter \<Rightarrow> reporter" where
  "report_once node_id address load disk rpc rp =
     (if rp_stopped rp then rp
      else let (free_bytes, total_bytes) = (case disk of Some ft \<Rightarrow> ft | None \<Rightarrow> (0, 0));
               req = \<lparr>hb_node_id = node_id, hb_address = address, hb_load_fraction = load,
                      hb_free_bytes = free_bytes, hb_total_bytes = total_bytes, hb_failure_rate_7d = 0,
                      hb_access_counts = rp_access_counts rp\<rparr>;
               rp1 = rp\<lparr>rp_access_counts := []\<rparr>
           in case rpc req of
                None \<Rightarrow> rp1
              | Some resp \<Rightarrow> rp1\<lparr>rp_assigned := hr_assigned resp, rp_has_assignment := True\<rparr>)"

definition reporter_stop :: "reporter \<Rightarrow> reporter" where
  "reporter_stop rp = rp\<lparr>rp_stopped := True\<rparr>"

section \<open>The handlers\<close>

record 'db storage_node =
  sn_store :: "'db option"
  sn_reporter :: reporter

definition WriteChunk :: "'db rocksdb_ops \<Rightarrow> string \<Rightarrow> u64 \<Rightarrow> string \<Rightarrow> 'db storage_node \<Rightarrow> bool \<times> 'db storage_node" where
  "WriteChunk R cid version data sn = (let (ok, st) = store_write R cid version data (sn_store sn) in (ok, sn\<lparr>sn_store := st\<rparr>))"

text \<open>\<open>Inl\<close> is the error text of a response that is not OK.\<close>

definition ReadChunk :: "'db rocksdb_ops \<Rightarrow> string \<Rightarrow> u64 \<Rightarrow> 'db storage_node \<Rightarrow> (string + string \<times> u64) \<times> 'db storage_node" where
  "ReadChunk R cid min_version sn = (case store_read R cid min_version (sn_store sn) of
     None \<Rightarrow> (Inl ''version too old or chunk missing'', sn)
   | Some (data, version) \<Rightarrow>
       if version < min_version then (Inl ''version too old'', sn)
       else (Inr (data, version), sn\<lparr>sn_reporter := record_access cid (sn_reporter sn)\<rparr>))"

record chunk_piece =
  cp_data :: string
  cp_version :: u64
  cp_is_last :: bool

text \<open>The loop of \<^verbatim>\<open>FetchChunk\<close>, from offset \<open>off\<close> on: pieces of at most 64 KiB.\<close>

function fetch_pieces :: "string \<Rightarrow> u64 \<Rightarrow> nat \<Rightarrow> chunk_piece list" where
  "fetch_pieces data version off =
     (if off < length data
      then let n = min (64 * 1024) (length data - off) in
           \<lparr>cp_data = take n (drop off data), cp_version = version, cp_is_last = length data \<le> off + n\<rparr> #
           fetch_pieces data version (off + n)
      else [])"
  by pat_completeness auto
termination
  by (relation "measure (\<lambda>(data, version, off). length data - off)") auto

declare fetch_pieces.simps [simp del]

text \<open>\<open>None\<close> is the status \<^verbatim>\<open>NOT_FOUND\<close>.\<close>

definition FetchChunk :: "'db rocksdb_ops \<Rightarrow> string \<Rightarrow> u64 \<Rightarrow> 'db storage_node \<Rightarrow> chunk_piece list option \<times> 'db storage_node" where
  "FetchChunk R cid version sn = (case store_read R cid version (sn_store sn) of
     None \<Rightarrow> (None, sn)
   | Some (data, v) \<Rightarrow>
       if v < version then (None, sn)
       else (Some (if data = [] then [\<lparr>cp_data = [], cp_version = v, cp_is_last = True\<rparr>] else fetch_pieces data v 0),
             sn\<lparr>sn_reporter := record_access cid (sn_reporter sn)\<rparr>))"

definition DeleteChunkData :: "'db rocksdb_ops \<Rightarrow> string \<Rightarrow> 'db storage_node \<Rightarrow> bool \<times> 'db storage_node" where
  "DeleteChunkData R cid sn = (let (ok, st) = store_remove R cid (sn_store sn) in (ok, sn\<lparr>sn_store := st\<rparr>))"

section \<open>Repair\<close>

definition parse_replica_endpoint :: "string \<Rightarrow> bool \<times> string \<times> string" where
  "parse_replica_endpoint entry = (case find_char CHR ''='' entry of
     None \<Rightarrow> (True, entry, [])
   | Some pos \<Rightarrow> (take pos entry \<noteq> [], take pos entry, drop (pos + 1) entry))"

text \<open>The reading loop of \<^verbatim>\<open>fetch_from_peer\<close>: data, version and whether anything was received.\<close>

fun read_pieces :: "chunk_piece list \<Rightarrow> string \<Rightarrow> u64 \<Rightarrow> bool \<Rightarrow> string \<times> u64 \<times> bool" where
  "read_pieces [] data streamed received = (data, streamed, received)"
| "read_pieces (p # ps) data streamed received =
     (let data1 = data @ cp_data p;
          streamed1 = (if streamed < cp_version p then cp_version p else streamed)
      in if cp_is_last p then (data1, streamed1, True) else read_pieces ps data1 streamed1 True)"

text \<open>
  \<open>brk\<close> is \<open>None\<close> when the stream is delivered, and otherwise the number of pieces that arrive
  before it breaks.
\<close>

definition fetch_from_peer :: "'db rocksdb_ops \<Rightarrow> nat option \<Rightarrow> string \<Rightarrow> string \<Rightarrow> u64 \<Rightarrow>
     (string, 'db storage_node) umap \<Rightarrow> (string \<times> u64) option \<times> (string, 'db storage_node) umap" where
  "fetch_from_peer R brk peer_addr cid target_version peers = (case um_find peers peer_addr of
     None \<Rightarrow> (None, peers)
   | Some peer \<Rightarrow>
       (let (stream, peer1) = FetchChunk R cid target_version peer;
            peers1 = um_assign peer_addr peer1 peers;
            (pieces, ok) = (case stream of None \<Rightarrow> ([], False)
              | Some ps \<Rightarrow> (case brk of None \<Rightarrow> (ps, True) | Some k \<Rightarrow> (take k ps, False)));
            (data, streamed_version, received) = read_pieces pieces [] 0 False
        in (if \<not> ok \<or> \<not> received \<or> streamed_version < target_version then None
            else Some (data, streamed_version), peers1)))"

text \<open>The loop over the replicas of one chunk: the first peer that delivers ends it.\<close>

fun repair_from :: "'db rocksdb_ops \<Rightarrow> (string \<Rightarrow> nat option) \<Rightarrow> string \<Rightarrow> string \<Rightarrow> string \<Rightarrow> u64 \<Rightarrow> string list \<Rightarrow>
     (string, 'db storage_node) umap \<Rightarrow> (string \<times> u64) option \<times> (string, 'db storage_node) umap" where
  "repair_from R breaks my_id my_addr cid target [] peers = (None, peers)"
| "repair_from R breaks my_id my_addr cid target (replica # rs) peers =
     (let (ok, peer_id, peer_addr) = parse_replica_endpoint replica in
      if \<not> ok \<or> peer_addr = [] \<or> peer_id = my_id \<or> peer_addr = my_addr
      then repair_from R breaks my_id my_addr cid target rs peers
      else case fetch_from_peer R (breaks peer_addr) peer_addr cid target peers of
             (Some r, peers1) \<Rightarrow> (Some r, peers1)
           | (None, peers1) \<Rightarrow> repair_from R breaks my_id my_addr cid target rs peers1)"

text \<open>
  One assigned chunk: \<open>info\<close> gives the version and the replicas the metadata server answers with,
  or \<open>None\<close>.
\<close>

definition repair_chunk :: "'db rocksdb_ops \<Rightarrow> (string \<Rightarrow> nat option) \<Rightarrow> string \<Rightarrow> string \<Rightarrow> (string \<Rightarrow> (u64 \<times> string list) option) \<Rightarrow>
     string \<Rightarrow> 'db option \<times> (string, 'db storage_node) umap \<Rightarrow> 'db option \<times> (string, 'db storage_node) umap" where
  "repair_chunk R breaks my_id my_addr info cid s = (let (st, peers) = s in
     case info cid of
       None \<Rightarrow> (st, peers)
     | Some (target_version, replicas) \<Rightarrow>
         if target_version \<le> latest_version R cid st then (st, peers)
         else (case repair_from R breaks my_id my_addr cid target_version replicas peers of
                 (None, peers1) \<Rightarrow> (st, peers1)
               | (Some (data, v), peers1) \<Rightarrow> (snd (store_write R cid v data st), peers1)))"

definition repair_once :: "'db rocksdb_ops \<Rightarrow> (string list \<Rightarrow> string list) \<Rightarrow> (string list \<Rightarrow> string list) \<Rightarrow>
     (string \<Rightarrow> nat option) \<Rightarrow> string \<Rightarrow> string \<Rightarrow> (string \<Rightarrow> (u64 \<times> string list) option) \<Rightarrow> bool \<Rightarrow> reporter \<Rightarrow>
     'db option \<Rightarrow> (string, 'db storage_node) umap \<Rightarrow> 'db option \<times> (string, 'db storage_node) umap" where
  "repair_once R ord_set ord_ids breaks my_id my_addr info stopped rp st peers =
     (if stopped \<or> \<not> rp_has_assignment rp \<or> rp_assigned rp = [] then (st, peers)
      else let assigned_set = ord_set (remdups (rp_assigned rp));
               (st1, peers1) = fold (repair_chunk R breaks my_id my_addr info) assigned_set (st, peers);
               local_chunks = list_chunk_ids R ord_ids st1
           in (fold (\<lambda>cid s. if cid \<notin> set assigned_set then snd (store_remove R cid s) else s) local_chunks st1, peers1))"

section \<open>Streaming a chunk\<close>

lemma fetch_pieces_data: "concat (map cp_data (fetch_pieces data v off)) = drop off data"
proof (induction data v off rule: fetch_pieces.induct)
  case (1 data v off)
  show ?case
  proof (cases "off < length data")
    case True
    define n where "n = min (64 * 1024) (length data - off)"
    have "concat (map cp_data (fetch_pieces data v (off + n))) = drop (off + n) data"
      using 1 True by (simp add: n_def)
    then have "concat (map cp_data (fetch_pieces data v off)) = take n (drop off data) @ drop (off + n) data"
      using True by (subst fetch_pieces.simps) (simp add: n_def Let_def)
    also have "\<dots> = drop off data" by (metis append_take_drop_id drop_drop add.commute)
    finally show ?thesis .
  qed (simp add: fetch_pieces.simps)
qed

lemma fetch_pieces_nonempty: "off < length data \<Longrightarrow> fetch_pieces data v off \<noteq> []"
  by (subst fetch_pieces.simps) (simp add: Let_def)

text \<open>Only the last piece says so, and every piece carries the version.\<close>

lemma fetch_pieces_last:
  "off < length data \<Longrightarrow> p \<in> set (butlast (fetch_pieces data v off)) \<Longrightarrow> \<not> cp_is_last p"
proof (induction data v off rule: fetch_pieces.induct)
  case (1 data v off)
  define n where "n = min (64 * 1024) (length data - off)"
  have eq: "fetch_pieces data v off = \<lparr>cp_data = take n (drop off data), cp_version = v, cp_is_last = length data \<le> off + n\<rparr> #
      fetch_pieces data v (off + n)"
    using "1.prems"(1) by (subst fetch_pieces.simps) (simp add: n_def Let_def)
  show ?case
  proof (cases "off + n < length data")
    case True
    then have ne: "fetch_pieces data v (off + n) \<noteq> []" by (rule fetch_pieces_nonempty)
    have "p \<in> set (butlast (fetch_pieces data v (off + n))) \<Longrightarrow> \<not> cp_is_last p"
      using "1.IH" [OF "1.prems"(1) n_def True] by blast
    then show ?thesis using "1.prems"(2) ne True unfolding eq by auto
  next
    case False
    then have "fetch_pieces data v (off + n) = []" by (simp add: fetch_pieces.simps)
    then show ?thesis using "1.prems"(2) eq by simp
  qed
qed

lemma fetch_pieces_version: "p \<in> set (fetch_pieces data v off) \<Longrightarrow> cp_version p = v"
proof (induction data v off rule: fetch_pieces.induct)
  case (1 data v off)
  then show ?case by (subst (asm) fetch_pieces.simps) (auto simp: Let_def split: if_splits)
qed

lemma read_pieces_all:
  assumes "\<forall>p \<in> set ps. cp_version p = v" and "\<forall>p \<in> set (butlast ps). \<not> cp_is_last p" and "ps \<noteq> []"
  shows "read_pieces ps data s rcv = (data @ concat (map cp_data ps), if s < v then v else s, True)"
  using assms
proof (induction ps arbitrary: data s rcv)
  case (Cons p ps)
  show ?case
  proof (cases "ps = []")
    case False
    then have nl: "\<not> cp_is_last p" and pv: "cp_version p = v" using Cons.prems by simp_all
    have "read_pieces ps (data @ cp_data p) (if s < v then v else s) True =
        ((data @ cp_data p) @ concat (map cp_data ps), if (if s < v then v else s) < v then v else (if s < v then v else s), True)"
      using False Cons.prems by (intro Cons.IH) auto
    then show ?thesis using nl pv by (auto simp: Let_def split: if_splits)
  qed (use Cons.prems in \<open>simp add: Let_def\<close>)
qed simp

text \<open>A stored chunk, streamed and read back.\<close>

definition stream_of :: "string \<Rightarrow> u64 \<Rightarrow> chunk_piece list" where
  "stream_of data v = (if data = [] then [\<lparr>cp_data = [], cp_version = v, cp_is_last = True\<rparr>] else fetch_pieces data v 0)"

lemma read_stream: "read_pieces (stream_of data v) [] 0 False = (data, v, True)"
proof (cases "data = []")
  case False
  then have "0 < length data" by simp
  then have "read_pieces (fetch_pieces data v 0) [] 0 False = ([] @ concat (map cp_data (fetch_pieces data v 0)), if 0 < v then v else 0, True)"
    using fetch_pieces_version fetch_pieces_last fetch_pieces_nonempty by (intro read_pieces_all) blast+
  moreover have "(if 0 < v then v else 0) = v" by (simp add: word_gt_0)
  ultimately show ?thesis using False by (simp add: stream_of_def fetch_pieces_data)
qed (simp add: stream_of_def word_gt_0)

lemma fetch_from_peer_read:
  "fst (fetch_from_peer R brk a cid target peers) = (case um_find peers a of None \<Rightarrow> None
     | Some sn \<Rightarrow> (if brk = None then (case store_read R cid target (sn_store sn) of None \<Rightarrow> None
         | Some (data, v) \<Rightarrow> if v < target then None else Some (data, v)) else None))"
proof (cases "um_find peers a")
  case (Some sn)
  show ?thesis
  proof (cases "store_read R cid target (sn_store sn)")
    case None
    then show ?thesis using Some by (simp add: fetch_from_peer_def FetchChunk_def)
  next
    case dv: (Some dv)
    obtain data v where dv': "dv = (data, v)" by fastforce
    show ?thesis
      using Some dv dv' read_stream [of data v]
      by (cases brk) (auto simp: fetch_from_peer_def FetchChunk_def stream_of_def Let_def split: prod.split if_splits)
  qed
qed (simp add: fetch_from_peer_def)

definition same_stores :: "(string, 'db storage_node) umap \<Rightarrow> (string, 'db storage_node) umap \<Rightarrow> bool" where
  "same_stores ps qs \<longleftrightarrow> (\<forall>a. map_option sn_store (um_find ps a) = map_option sn_store (um_find qs a))"

lemma same_stores_refl [simp]: "same_stores ps ps"
  by (simp add: same_stores_def)

lemma same_stores_trans: "same_stores ps qs \<Longrightarrow> same_stores qs rs \<Longrightarrow> same_stores ps rs"
  by (simp add: same_stores_def)

lemma fetch_from_peer_stores: "same_stores peers (snd (fetch_from_peer R brk a cid target peers))"
  by (auto simp: same_stores_def fetch_from_peer_def FetchChunk_def Let_def split: option.split prod.split)

section \<open>The repair pass\<close>

definition peers_wf :: "'db rocksdb_ops \<Rightarrow> (string, 'db storage_node) umap \<Rightarrow> bool" where
  "peers_wf R peers \<longleftrightarrow> (\<forall>a sn d. um_find peers a = Some sn \<and> sn_store sn = Some d \<longrightarrow> store_wf R d)"

text \<open>Where repaired data comes from: a peer's store holds it under that version.\<close>

definition peer_has :: "'db rocksdb_ops \<Rightarrow> (string, 'db storage_node) umap \<Rightarrow> string \<Rightarrow> u64 \<Rightarrow> string \<Rightarrow> bool" where
  "peer_has R peers cid v data \<longleftrightarrow>
     (\<exists>a sn d. um_find peers a = Some sn \<and> sn_store sn = Some d \<and> store_abs R d cid v = Some data)"

lemma same_stores_wf: "same_stores ps qs \<Longrightarrow> peers_wf R ps \<Longrightarrow> peers_wf R qs"
proof -
  assume same: "same_stores ps qs" and wf: "peers_wf R ps"
  have "store_wf R d" if "um_find qs a = Some sn" "sn_store sn = Some d" for a sn d
  proof -
    have "map_option sn_store (um_find ps a) = Some (Some d)" using same that by (simp add: same_stores_def)
    then show ?thesis using wf unfolding peers_wf_def by blast
  qed
  then show ?thesis unfolding peers_wf_def by blast
qed

lemma same_stores_has: "same_stores ps qs \<Longrightarrow> peer_has R qs cid v data \<Longrightarrow> peer_has R ps cid v data"
proof -
  assume same: "same_stores ps qs" and "peer_has R qs cid v data"
  then obtain a sn d where a: "um_find qs a = Some sn" "sn_store sn = Some d" "store_abs R d cid v = Some data"
    by (auto simp: peer_has_def)
  have "map_option sn_store (um_find ps a) = Some (Some d)" using same a by (simp add: same_stores_def)
  then show ?thesis using a(3) unfolding peer_has_def by blast
qed

lemma newest_exists:
  assumes "store_abs R d cid v \<noteq> None"
  shows "\<exists>w. newest R d cid w"
proof -
  define S where "S = {w. store_abs R d cid w \<noteq> None}"
  have "finite S" "S \<noteq> {}" using assms by (auto simp: S_def)
  then have "Max S \<in> S" "\<forall>w \<in> S. w \<le> Max S" by simp_all
  then show ?thesis by (auto simp: newest_def S_def)
qed

context rocksdb
begin

lemma store_read_Some:
  assumes wf: "store_wf R d" and name: "name_ok cid" and rd: "store_read R cid mv (Some d) = Some (data, v)"
  shows "newest R d cid v \<and> store_abs R d cid v = Some data \<and> mv \<le> v \<and> version_ok v"
proof (cases "\<exists>w. store_abs R d cid w \<noteq> None")
  case True
  then obtain w where w: "newest R d cid w" using newest_exists [of R d cid] by blast
  then have "w = v \<and> store_abs R d cid v = Some data \<and> mv \<le> v"
    using read_newest(1) [OF wf name w, of mv] rd by (cases "store_abs R d cid w") (auto split: if_splits)
  then show ?thesis using w store_wf_version [OF wf name, of v] by auto
next
  case False
  then show ?thesis using read_absent(1) [OF wf name, of mv] rd by auto
qed

lemma fetch_from_peer_has:
  assumes wf: "peers_wf R peers" and name: "name_ok cid"
    and f: "fetch_from_peer R brk a cid target peers = (Some (data, v), peers1)"
  shows "peer_has R peers cid v data \<and> target \<le> v \<and> version_ok v"
proof -
  have "fst (fetch_from_peer R brk a cid target peers) = Some (data, v)" using f by simp
  then obtain sn where sn: "um_find peers a = Some sn" "store_read R cid target (sn_store sn) = Some (data, v)"
    unfolding fetch_from_peer_read by (auto split: option.splits if_splits)
  then obtain d where d: "sn_store sn = Some d" by (cases "sn_store sn") (auto simp: store_read_def)
  then show ?thesis
    using store_read_Some [of d cid target data v] wf name sn unfolding peers_wf_def peer_has_def by metis
qed

lemma repair_from_has:
  assumes "peers_wf R peers" and "name_ok cid"
    and "repair_from R breaks my_id my_addr cid target replicas peers = (r, peers1)"
  shows "same_stores peers peers1 \<and>
    (\<forall>data v. r = Some (data, v) \<longrightarrow> peer_has R peers cid v data \<and> target \<le> v \<and> version_ok v)"
  using assms
proof (induction replicas arbitrary: peers)
  case (Cons replica rs)
  obtain ok pid addr where pe: "parse_replica_endpoint replica = (ok, pid, addr)" by (metis prod.exhaust)
  show ?case
  proof (cases "\<not> ok \<or> addr = [] \<or> pid = my_id \<or> addr = my_addr")
    case True
    then show ?thesis using Cons pe by simp
  next
    case False
    obtain f peers2 where f: "fetch_from_peer R (breaks addr) addr cid target peers = (f, peers2)" by fastforce
    have same: "same_stores peers peers2" using fetch_from_peer_stores [of peers R "breaks addr" addr cid target] f by simp
    show ?thesis
    proof (cases f)
      case None
      then have r: "repair_from R breaks my_id my_addr cid target rs peers2 = (r, peers1)"
        using Cons.prems(3) pe False f by (auto simp: Let_def)
      show ?thesis
        using Cons.IH [OF same_stores_wf [OF same Cons.prems(1)] Cons.prems(2) r] same_stores_trans [OF same]
          same_stores_has [OF same] by blast
    next
      case (Some dv)
      then show ?thesis
        using Cons.prems(3) pe False f same fetch_from_peer_has [OF Cons.prems(1,2)] by (cases dv) (auto simp: Let_def)
    qed
  qed
qed simp

end

text \<open>What a pass may do to a store: versions are kept, and new ones come from peers.\<close>

definition grows :: "'db rocksdb_ops \<Rightarrow> (string, 'db storage_node) umap \<Rightarrow> 'db \<Rightarrow> 'db \<Rightarrow> bool" where
  "grows R peers d d' \<longleftrightarrow> store_wf R d' \<and>
     (\<forall>c w x. name_ok c \<and> store_abs R d c w = Some x \<longrightarrow> store_abs R d' c w = Some x) \<and>
     (\<forall>c w x. name_ok c \<and> store_abs R d' c w = Some x \<longrightarrow> store_abs R d c w = Some x \<or> peer_has R peers c w x)"

lemma grows_trans: "grows R ps d d1 \<Longrightarrow> same_stores ps qs \<Longrightarrow> grows R qs d1 d2 \<Longrightarrow> grows R ps d d2"
  unfolding grows_def using same_stores_has by metis

context reliable_rocksdb
begin

lemma repair_chunk_grows:
  assumes wf: "store_wf R d" and pw: "peers_wf R peers" and name: "name_ok cid"
  shows "\<exists>d1 peers1. repair_chunk R breaks my_id my_addr info cid (Some d, peers) = (Some d1, peers1) \<and>
    grows R peers d d1 \<and> same_stores peers peers1"
proof (cases "info cid")
  case None
  then show ?thesis using wf by (simp add: repair_chunk_def grows_def)
next
  case (Some tr)
  obtain target replicas where tr: "tr = (target, replicas)" by fastforce
  show ?thesis
  proof (cases "target \<le> latest_version R cid (Some d)")
    case True
    then show ?thesis using wf Some tr by (simp add: repair_chunk_def grows_def)
  next
    case False
    obtain r peers1 where rf: "repair_from R breaks my_id my_addr cid target replicas peers = (r, peers1)" by fastforce
    note has = repair_from_has [OF pw name rf]
    show ?thesis
    proof (cases r)
      case None
      then show ?thesis using wf Some tr False rf has by (simp add: repair_chunk_def grows_def)
    next
      case dv: (Some dv)
      obtain data v where dv': "dv = (data, v)" by fastforce
      obtain ok d1 where w: "store_write R cid v data (Some d) = (ok, Some d1)"
        by (cases "db_put R d (make_key cid v) data") (auto simp: store_write_def)
      have ok: "ok" using w put_ok [of d "make_key cid v" data] by (auto simp: store_write_def split: prod.splits)
      have v: "peer_has R peers cid v data" "target \<le> v" "version_ok v" using has dv dv' by auto
      have fresh: "store_abs R d cid v = None"
      proof (rule ccontr)
        assume "store_abs R d cid v \<noteq> None"
        then obtain n where "newest R d cid n" "v \<le> n" using newest_exists [of R d cid v] by (auto simp: newest_def)
        then show False using read_newest(2) [OF wf name, of n] False v(2) by auto
      qed
      have "store_wf R d1" using write_wf [OF w wf name v(3)] .
      then have "grows R peers d d1"
        using write_abs [OF w [unfolded ok [THEN eqTrueI]] name] fresh v(1) unfolding grows_def by (auto split: if_splits)
      then show ?thesis using Some tr False rf dv dv' w has by (simp add: repair_chunk_def)
    qed
  qed
qed

lemma repair_fold_grows:
  assumes "store_wf R d" and "peers_wf R peers" and "\<forall>cid \<in> set cids. name_ok cid"
  shows "\<exists>d1 peers1. fold (repair_chunk R breaks my_id my_addr info) cids (Some d, peers) = (Some d1, peers1) \<and>
    grows R peers d d1 \<and> same_stores peers peers1"
  using assms
proof (induction cids arbitrary: d peers)
  case Nil
  then show ?case by (simp add: grows_def)
next
  case (Cons cid cids)
  obtain d1 ps1 where s1: "repair_chunk R breaks my_id my_addr info cid (Some d, peers) = (Some d1, ps1)"
      "grows R peers d d1" "same_stores peers ps1"
    using repair_chunk_grows [OF Cons.prems(1,2)] Cons.prems(3) by (metis list.set_intros(1))
  have "store_wf R d1" using s1(2) by (simp add: grows_def)
  then obtain d2 ps2 where s2: "fold (repair_chunk R breaks my_id my_addr info) cids (Some d1, ps1) = (Some d2, ps2)"
      "grows R ps1 d1 d2" "same_stores ps1 ps2"
    using Cons.IH [of d1 ps1] same_stores_wf [OF s1(3) Cons.prems(2)] Cons.prems(3) by auto
  show ?case using s1 s2 grows_trans [OF s1(2,3) s2(2)] same_stores_trans [OF s1(3) s2(3)] by simp
qed

lemma remove_fold:
  assumes "store_wf R d" and "\<forall>cid \<in> set cids. name_ok cid"
  shows "\<exists>d1. fold (\<lambda>cid s. if P cid then snd (store_remove R cid s) else s) cids (Some d) = Some d1 \<and> store_wf R d1 \<and>
    (\<forall>c w. name_ok c \<longrightarrow> store_abs R d1 c w = (if c \<in> set cids \<and> P c then None else store_abs R d c w))"
  using assms
proof (induction cids arbitrary: d)
  case (Cons cid cids)
  show ?case
  proof (cases "P cid")
    case True
    obtain ok d1 where rm: "store_remove R cid (Some d) = (ok, Some d1)"
      by (cases "db_delete_range R d (make_key cid 0) (chunk_prefix cid @ ''~'')") (auto simp: store_remove_def)
    have "ok" using rm delete_succeeds [of d "make_key cid 0" "chunk_prefix cid @ ''~''"]
      by (auto simp: store_remove_def split: prod.splits)
    then have a: "store_wf R d1" "\<And>c w. name_ok c \<Longrightarrow> store_abs R d1 c w = (if c = cid then None else store_abs R d c w)"
      using remove_abs [of cid d d1] rm Cons.prems by auto
    obtain d2 where d2: "fold (\<lambda>cid s. if P cid then snd (store_remove R cid s) else s) cids (Some d1) = Some d2"
        "store_wf R d2" "\<forall>c w. name_ok c \<longrightarrow> store_abs R d2 c w = (if c \<in> set cids \<and> P c then None else store_abs R d1 c w)"
      using Cons.IH [OF a(1)] Cons.prems(2) by auto
    have "store_abs R d2 c w = (if c \<in> set (cid # cids) \<and> P c then None else store_abs R d c w)" if "name_ok c" for c w
      using d2(3) a(2) [OF that, of w] that True by (cases "c = cid") simp_all
    then show ?thesis using d2(1,2) True rm by simp
  next
    case False
    then have same: "c \<in> set (cid # cids) \<and> P c \<longleftrightarrow> c \<in> set cids \<and> P c" for c by auto
    show ?thesis unfolding same using Cons.IH [OF Cons.prems(1)] Cons.prems(2) False by simp
  qed
qed simp

lemma repair_once_result:
  assumes wf: "store_wf R d" and pw: "peers_wf R peers" and names: "\<forall>cid \<in> set (rp_assigned rp). name_ok cid"
    and ord: "\<And>xs. set (ord_set xs) = set xs" "\<And>xs. set (ord_ids xs) = set xs"
    and on: "\<not> stopped" "rp_has_assignment rp" "rp_assigned rp \<noteq> []"
  shows "\<exists>d' peers'. repair_once R ord_set ord_ids breaks my_id my_addr info stopped rp (Some d) peers = (Some d', peers') \<and>
    store_wf R d' \<and>
    (\<forall>cid v. name_ok cid \<and> cid \<noteq> [] \<and> cid \<notin> set (rp_assigned rp) \<longrightarrow> store_abs R d' cid v = None) \<and>
    (\<forall>cid \<in> set (rp_assigned rp). \<forall>v x. store_abs R d cid v = Some x \<longrightarrow> store_abs R d' cid v = Some x) \<and>
    (\<forall>cid \<in> set (rp_assigned rp). \<forall>v x. store_abs R d' cid v = Some x \<longrightarrow>
       store_abs R d cid v = Some x \<or> peer_has R peers cid v x)"
proof -
  define as where "as = ord_set (remdups (rp_assigned rp))"
  have as: "set as = set (rp_assigned rp)" by (simp add: as_def ord)
  obtain d1 ps1 where s1: "fold (repair_chunk R breaks my_id my_addr info) as (Some d, peers) = (Some d1, ps1)"
      "grows R peers d d1"
    using repair_fold_grows [OF wf pw, of as breaks my_id my_addr info] names as by blast
  have wf1: "store_wf R d1" using s1(2) by (simp add: grows_def)
  define ids where "ids = list_chunk_ids R ord_ids (Some d1)"
  have ids: "set ids = {cid. cid \<noteq> [] \<and> name_ok cid \<and> (\<exists>v. store_abs R d1 cid v \<noteq> None)}"
    using list_ids_set [OF wf1, of ord_ids] ord(2) by (simp add: ids_def)
  obtain d2 where d2: "fold (\<lambda>cid s. if cid \<notin> set as then snd (store_remove R cid s) else s) ids (Some d1) = Some d2"
      "store_wf R d2" "\<And>c w. name_ok c \<Longrightarrow> store_abs R d2 c w = (if c \<in> set ids \<and> c \<notin> set as then None else store_abs R d1 c w)"
    using remove_fold [OF wf1, of ids "\<lambda>c. c \<notin> set as"] ids by auto
  have "repair_once R ord_set ord_ids breaks my_id my_addr info stopped rp (Some d) peers = (Some d2, ps1)"
    using on s1(1) d2(1) by (simp add: repair_once_def Let_def as_def [symmetric] ids_def [symmetric])
  moreover have "store_abs R d2 cid v = None" if "name_ok cid" "cid \<noteq> []" "cid \<notin> set as" for cid v
    using d2(3) [OF that(1), of v] that ids by auto
  moreover have "store_abs R d2 cid v = store_abs R d1 cid v" if "cid \<in> set as" for cid v
    using d2(3) [of cid v] that names as by simp
  ultimately show ?thesis using d2(2) s1(2) names unfolding as grows_def by auto
qed

end

section \<open>Properties\<close>

text \<open>
  Fetching a chunk from a peer gives the peer's newest version whole, streamed in pieces of at
  most 64 KiB, if it is new enough; a stream that breaks gives nothing.
\<close>

theorem fetch_from_peer_whole:
  assumes db: "rocksdb R" and peer: "um_find peers a = Some sn" "sn_store sn = Some d" and wf: "store_wf R d"
    and name: "name_ok cid" and new: "newest R d cid v" and data: "store_abs R d cid v = Some data"
  shows "fst (fetch_from_peer R brk a cid target peers) = (if brk = None \<and> target \<le> v then Some (data, v) else None)"
  using rocksdb.read_newest(1) [OF db wf name new, of target] peer data
  by (auto simp: fetch_from_peer_read linorder_not_less)

theorem fetch_from_peer_whole_witness:
  "fst (fetch_from_peer mem_rocksdb None ''h:1'' ''a'' 4 [(''h:1'', \<lparr>sn_store = Some [(make_key ''a'' 3, ''old''), (make_key ''a'' 7, ''new''), (make_key ''b'' 9, ''x'')],
     sn_reporter = new_reporter\<rparr>)]) = Some (''new'', 7)"
proof -
  have "store_abs mem_rocksdb [(make_key ''a'' 3, ''old''), (make_key ''a'' 7, ''new''), (make_key ''b'' 9, ''x'')] ''a'' 7 = Some ''new''"
    by (simp add: store_abs_def mem_rocksdb_def)
  from fetch_from_peer_whole [OF mem.rocksdb_axioms _ _ demo_store _ demo_newest this, of "[(''h:1'', \<lparr>sn_store = Some [(make_key ''a'' 3, ''old''), (make_key ''a'' 7, ''new''), (make_key ''b'' 9, ''x'')],
     sn_reporter = new_reporter\<rparr>)]" "''h:1''" _ None 4]
  show ?thesis by (simp add: name_ok_def)
qed

text \<open>
  C24. A repair pass against a non-empty assignment leaves no data of a chunk outside it, loses no
  version of a chunk inside it, and adds to those only data a peer's store holds under that name
  and version.
\<close>

theorem repair_once_exact:
  assumes db: "reliable_rocksdb R" and wf: "store_wf R d" and pw: "peers_wf R peers"
    and names: "\<forall>cid \<in> set (rp_assigned rp). name_ok cid"
    and ord: "\<forall>xs. mset (ord_set xs) = mset xs" "\<forall>xs. mset (ord_ids xs) = mset xs"
    and on: "\<not> stopped" "rp_has_assignment rp" "rp_assigned rp \<noteq> []"
  shows "\<exists>d' peers'. repair_once R ord_set ord_ids breaks my_id my_addr info stopped rp (Some d) peers = (Some d', peers') \<and>
    store_wf R d' \<and>
    (\<forall>cid v. name_ok cid \<and> cid \<noteq> [] \<and> cid \<notin> set (rp_assigned rp) \<longrightarrow> store_abs R d' cid v = None) \<and>
    (\<forall>cid \<in> set (rp_assigned rp). \<forall>v x. store_abs R d cid v = Some x \<longrightarrow> store_abs R d' cid v = Some x) \<and>
    (\<forall>cid \<in> set (rp_assigned rp). \<forall>v x. store_abs R d' cid v = Some x \<longrightarrow>
       store_abs R d cid v = Some x \<or> peer_has R peers cid v x)"
proof -
  have o: "\<And>xs. set (ord_set xs) = set xs" "\<And>xs. set (ord_ids xs) = set xs" using ord by (metis set_mset_mset)+
  show ?thesis by (rule reliable_rocksdb.repair_once_result [OF db wf pw names o on])
qed

theorem repair_once_exact_witness:
  "\<exists>d' peers'. repair_once mem_rocksdb rev rev (\<lambda>_. None) ''n1'' ''h:0'' (\<lambda>_. None) False
       (new_reporter\<lparr>rp_assigned := [''a''], rp_has_assignment := True\<rparr>)
       (Some [(make_key ''a'' 3, ''old''), (make_key ''a'' 7, ''new''), (make_key ''b'' 9, ''x'')]) [] = (Some d', peers') \<and>
     store_abs mem_rocksdb d' ''b'' 9 = None \<and> store_abs mem_rocksdb d' ''a'' 7 = Some ''new''"
proof -
  have "store_abs mem_rocksdb [(make_key ''a'' 3, ''old''), (make_key ''a'' 7, ''new''), (make_key ''b'' 9, ''x'')] ''a'' 7 = Some ''new''"
    by (simp add: store_abs_def mem_rocksdb_def)
  moreover have "name_ok ''a''" "name_ok ''b''" by (simp_all add: name_ok_def)
  moreover have "peers_wf mem_rocksdb []" by (simp add: peers_wf_def)
  moreover have "\<forall>xs :: string list. mset (rev xs) = mset xs" by simp
  ultimately obtain d' peers' where
    "repair_once mem_rocksdb rev rev (\<lambda>_. None) ''n1'' ''h:0'' (\<lambda>_. None) False
       (new_reporter\<lparr>rp_assigned := [''a''], rp_has_assignment := True\<rparr>)
       (Some [(make_key ''a'' 3, ''old''), (make_key ''a'' 7, ''new''), (make_key ''b'' 9, ''x'')]) [] = (Some d', peers')"
    "\<forall>cid v. name_ok cid \<and> cid \<noteq> [] \<and> cid \<notin> {''a''} \<longrightarrow> store_abs mem_rocksdb d' cid v = None"
    "store_abs mem_rocksdb d' ''a'' 7 = Some ''new''"
    using repair_once_exact [OF mem.reliable_rocksdb_axioms demo_store, of "[]" "new_reporter\<lparr>rp_assigned := [''a''], rp_has_assignment := True\<rparr>"
        rev rev False "\<lambda>_. None" "''n1''" "''h:0''" "\<lambda>_. None"] by fastforce
  then show ?thesis using \<open>name_ok ''b''\<close> by auto
qed

end
