(* ===== verification/Reconfig_Driver.thy ===== *)
theory Reconfig_Driver
  imports Placement Wal_Apply Storage_Node
begin

text \<open>
  Changing the replicas of a chunk, \<^verbatim>\<open>src/meta/reconfig_driver.{h,cpp}\<close>: choose the new set,
  log the start, copy the data, verify it, log the commit. A call of \<^verbatim>\<open>MetaReplication::write\<close>
  is seen here the way its caller sees it (\<open>logged_write\<close>): either it returns OK at some index, with
  the entry applied to the tables, or it does not. \<open>up addr\<close> tells whether calls to an address get
  through during the operation; one that does not has no effect.
\<close>

section \<open>Replica entries\<close>

definition extract_node_id :: "string \<Rightarrow> string" where
  "extract_node_id entry = (case find_char CHR ''='' entry of Some eq \<Rightarrow> take eq entry | None \<Rightarrow> entry)"

definition resolve_address :: "string \<Rightarrow> node_entry list \<Rightarrow> string" where
  "resolve_address entry alive = (case find_char CHR ''='' entry of
     Some eq \<Rightarrow> drop (eq + 1) entry
   | None \<Rightarrow> (case List.find (\<lambda>n. ne_node_id n = entry) alive of Some n \<Rightarrow> ne_address n | None \<Rightarrow> []))"

definition encode_replica_entry :: "string \<Rightarrow> node_entry list \<Rightarrow> string" where
  "encode_replica_entry nid alive = (case List.find (\<lambda>n. ne_node_id n = nid) alive of
     Some n \<Rightarrow> nid @ ''='' @ ne_address n | None \<Rightarrow> nid)"

section \<open>Writing through the log\<close>

definition logged_write :: "(wal_entry_type \<Rightarrow> string \<Rightarrow> u64 option) \<Rightarrow> (u64 \<Rightarrow> u64) \<Rightarrow> wal_entry_type \<Rightarrow> string \<Rightarrow>
     coordinator \<Rightarrow> cxx_exc + bool \<times> coordinator" where
  "logged_write outcome clk ty payload coord = (case outcome ty payload of
     None \<Rightarrow> Inr (False, coord)
   | Some idx \<Rightarrow> ebind (apply_wal_entry (clk idx) \<lparr>we_index = idx, we_term = 1, we_type = ty, we_payload = payload\<rparr> coord)
       (\<lambda>c. Inr (True, c)))"

section \<open>The new replica set\<close>

text \<open>Inserting into \<^verbatim>\<open>target_set\<close> and, when new, appending to \<^verbatim>\<open>target_ids\<close>.\<close>

definition insert_new :: "string \<Rightarrow> string list \<Rightarrow> string list" where
  "insert_new nid ids = (if nid \<in> set ids then ids else ids @ [nid])"

definition kept_ids :: "string list \<Rightarrow> string \<Rightarrow> string list" where
  "kept_ids old_set must_exclude = fold (\<lambda>e ids. let nid = extract_node_id e in
     if must_exclude \<noteq> [] \<and> nid = must_exclude then ids else insert_new nid ids) old_set []"

definition trim_ids :: "int \<Rightarrow> string \<Rightarrow> string list \<Rightarrow> string list" where
  "trim_ids new_rf must_include ids =
     (let trimmed = take (nat new_rf) (filter (\<lambda>nid. nid \<noteq> must_include) ids)
      in if must_include \<noteq> [] \<and> cast_int (length trimmed) < new_rf then trimmed @ [must_include] else trimmed)"

text \<open>The node ids of the new set; \<open>None\<close> where \<^verbatim>\<open>reconfig\<close> returns false before it logs anything.\<close>

definition target_ids :: "placement_config \<Rightarrow> (node_entry list \<Rightarrow> node_entry list) \<Rightarrow> node_entry list \<Rightarrow> string list \<Rightarrow>
     int \<Rightarrow> string \<Rightarrow> string \<Rightarrow> string list option" where
  "target_ids cfg shuffle alive old_set new_rf must_include must_exclude =
     (let ids1 = kept_ids old_set must_exclude in
      if must_include \<noteq> [] \<and> must_include \<notin> set (map ne_node_id alive) then None
      else let ids2 = (if must_include \<noteq> [] then insert_new must_include ids1 else ids1) in
      if new_rf < 0 then None
      else let ids3 = (if new_rf < cast_int (length ids2) then trim_ids new_rf must_include ids2 else ids2);
               ids4 = (if cast_int (length ids3) < new_rf
                       then fold insert_new (select_nodes cfg shuffle (new_rf - cast_int (length ids3)) alive ids3) ids3
                       else ids3)
           in if cast_int (length ids4) < new_rf then None else Some ids4)"

section \<open>Copying and verifying\<close>

fun first_address :: "string list \<Rightarrow> node_entry list \<Rightarrow> string" where
  "first_address [] alive = []"
| "first_address (src # srcs) alive = (let addr = resolve_address src alive in if addr \<noteq> [] then addr else first_address srcs alive)"

text \<open>The call of \<^verbatim>\<open>FetchChunk\<close> with the loop that assembles the pieces; \<open>None\<close> when the status is not OK.\<close>

definition fetch_assembled :: "'db rocksdb_ops \<Rightarrow> (string \<Rightarrow> bool) \<Rightarrow> string \<Rightarrow> string \<Rightarrow> u64 \<Rightarrow>
     (string, 'db storage_node) umap \<Rightarrow> string option \<times> (string, 'db storage_node) umap" where
  "fetch_assembled R up src cid version nodes = (case um_find nodes src of
     None \<Rightarrow> (None, nodes)
   | Some sn \<Rightarrow>
       if \<not> up src then (None, nodes)
       else (let (stream, sn1) = FetchChunk R cid version sn
             in (map_option (\<lambda>ps. fst (read_pieces ps [] 0 False)) stream, um_assign src sn1 nodes)))"

definition write_remote :: "'db rocksdb_ops \<Rightarrow> (string \<Rightarrow> bool) \<Rightarrow> string \<Rightarrow> string \<Rightarrow> u64 \<Rightarrow> string \<Rightarrow>
     (string, 'db storage_node) umap \<Rightarrow> bool \<times> (string, 'db storage_node) umap" where
  "write_remote R up addr cid version data nodes = (case um_find nodes addr of
     None \<Rightarrow> (False, nodes)
   | Some sn \<Rightarrow> if \<not> up addr then (False, nodes)
                else (let (ok, sn1) = WriteChunk R cid version data sn in (ok, um_assign addr sn1 nodes)))"

fun copy_loop :: "'db rocksdb_ops \<Rightarrow> (string \<Rightarrow> bool) \<Rightarrow> node_entry list \<Rightarrow> string list \<Rightarrow> string \<Rightarrow> string \<Rightarrow> u64 \<Rightarrow>
     string list \<Rightarrow> (string, 'db storage_node) umap \<Rightarrow> bool \<times> (string, 'db storage_node) umap" where
  "copy_loop R up alive src_ids src_addr cid version [] nodes = (True, nodes)"
| "copy_loop R up alive src_ids src_addr cid version (dst # dsts) nodes =
     (if extract_node_id dst \<in> set src_ids then copy_loop R up alive src_ids src_addr cid version dsts nodes
      else if src_addr = [] then (False, nodes)
      else let dst_addr = resolve_address dst alive in
        if dst_addr = [] then (False, nodes)
        else case fetch_assembled R up src_addr cid version nodes of
               (None, nodes1) \<Rightarrow> (False, nodes1)
             | (Some data, nodes1) \<Rightarrow>
                 (case write_remote R up dst_addr cid version data nodes1 of
                    (False, nodes2) \<Rightarrow> (False, nodes2)
                  | (True, nodes2) \<Rightarrow> copy_loop R up alive src_ids src_addr cid version dsts nodes2))"

definition copy_to_new_replicas :: "'db rocksdb_ops \<Rightarrow> (string \<Rightarrow> bool) \<Rightarrow> node_entry list \<Rightarrow> string \<Rightarrow> u64 \<Rightarrow>
     string list \<Rightarrow> string list \<Rightarrow> (string, 'db storage_node) umap \<Rightarrow> bool \<times> (string, 'db storage_node) umap" where
  "copy_to_new_replicas R up alive cid version src_nodes new_nodes nodes =
     (if src_nodes = [] then (True, nodes)
      else copy_loop R up alive (map extract_node_id src_nodes) (first_address src_nodes alive) cid version new_nodes nodes)"

fun verify_replicas :: "'db rocksdb_ops \<Rightarrow> (string \<Rightarrow> bool) \<Rightarrow> node_entry list \<Rightarrow> string \<Rightarrow> u64 \<Rightarrow> string list \<Rightarrow>
     (string, 'db storage_node) umap \<Rightarrow> bool \<times> (string, 'db storage_node) umap" where
  "verify_replicas R up alive cid required_version [] nodes = (True, nodes)"
| "verify_replicas R up alive cid required_version (entry # entries) nodes =
     (let addr = resolve_address entry alive in
      if addr = [] then (False, nodes)
      else case um_find nodes addr of
             None \<Rightarrow> (False, nodes)
           | Some sn \<Rightarrow>
               if \<not> up addr then (False, nodes)
               else (case ReadChunk R cid required_version sn of
                       (Inl _, sn1) \<Rightarrow> (False, um_assign addr sn1 nodes)
                     | (Inr (_, v), sn1) \<Rightarrow>
                         if v < required_version then (False, um_assign addr sn1 nodes)
                         else verify_replicas R up alive cid required_version entries (um_assign addr sn1 nodes)))"

section \<open>The whole change\<close>

text \<open>\<^verbatim>\<open>ReconfigDriver::reconfig\<close>: its result, the tables and the storage nodes after it.\<close>

definition reconfig :: "'db rocksdb_ops \<Rightarrow> (node_entry list \<Rightarrow> node_entry list) \<Rightarrow> placement_config \<Rightarrow>
     (node_entry list \<Rightarrow> node_entry list) \<Rightarrow> (string \<Rightarrow> bool) \<Rightarrow> (wal_entry_type \<Rightarrow> string \<Rightarrow> u64 option) \<Rightarrow> (u64 \<Rightarrow> u64) \<Rightarrow>
     string \<Rightarrow> int \<Rightarrow> string \<Rightarrow> string \<Rightarrow> coordinator \<times> (string, 'db storage_node) umap \<Rightarrow>
     cxx_exc + bool \<times> coordinator \<times> (string, 'db storage_node) umap" where
  "reconfig R ord cfg shuffle up outcome clk cid new_rf must_include must_exclude s = (let (coord, nodes) = s in
     case get_chunk coord cid of
       None \<Rightarrow> Inr (False, coord, nodes)
     | Some entry \<Rightarrow>
         if ce_config_state entry = TRANSITIONING then Inr (False, coord, nodes)
         else let old_set = ce_replica_set entry;
                  current_version = ce_version entry;
                  alive = get_alive_nodes ord coord
              in case target_ids cfg shuffle alive old_set new_rf must_include must_exclude of
                   None \<Rightarrow> Inr (False, coord, nodes)
                 | Some ids \<Rightarrow>
                     (let new_nodes = map (\<lambda>nid. encode_replica_entry nid alive) ids in
                      ebind (logged_write outcome clk RECONFIGURE_START (encode_reconfig_start cid old_set new_nodes) coord)
                        (\<lambda>(ok, coord1).
                      if \<not> ok then Inr (False, coord1, nodes)
                      else let alive1 = get_alive_nodes ord coord1;
                               (copied, nodes1) = copy_to_new_replicas R up alive1 cid current_version old_set new_nodes nodes
                           in if \<not> copied then Inr (False, coord1, nodes1)
                              else let (verified, nodes2) = verify_replicas R up alive1 cid current_version new_nodes nodes1
                                   in if \<not> verified then Inr (False, coord1, nodes2)
                                      else ebind (logged_write outcome clk RECONFIGURE_COMMIT
                                                    (encode_reconfig_commit cid new_nodes) coord1)
                                             (\<lambda>(ok, coord2). Inr (ok, coord2, nodes2)))))"

section \<open>The target set\<close>

lemma insert_new_props:
  "distinct ids \<Longrightarrow> distinct (insert_new x ids)" "set (insert_new x ids) = insert x (set ids)"
  by (auto simp: insert_new_def)

lemma fold_insert_new: "distinct ids \<Longrightarrow> distinct (fold insert_new xs ids) \<and> set (fold insert_new xs ids) = set ids \<union> set xs"
  by (induction xs arbitrary: ids) (auto simp: insert_new_props)

lemma fold_insert_new_distinct:
  "distinct (ids @ xs) \<Longrightarrow> fold insert_new xs ids = ids @ xs"
  by (induction xs arbitrary: ids) (auto simp: insert_new_def)

lemma kept_ids_props:
  "distinct (kept_ids old excl)"
  "set (kept_ids old excl) = {x \<in> extract_node_id ` set old. excl = [] \<or> x \<noteq> excl}"
proof -
  have "distinct ids \<Longrightarrow>
      distinct (fold (\<lambda>e ids. let nid = extract_node_id e in if excl \<noteq> [] \<and> nid = excl then ids else insert_new nid ids) old ids) \<and>
      set (fold (\<lambda>e ids. let nid = extract_node_id e in if excl \<noteq> [] \<and> nid = excl then ids else insert_new nid ids) old ids) =
        set ids \<union> {x \<in> extract_node_id ` set old. excl = [] \<or> x \<noteq> excl}" for ids
    by (induction old arbitrary: ids) (auto simp: insert_new_props Let_def)
  from this [of "[]"] show "distinct (kept_ids old excl)"
    "set (kept_ids old excl) = {x \<in> extract_node_id ` set old. excl = [] \<or> x \<noteq> excl}"
    by (simp_all add: kept_ids_def)
qed

lemma kept_ids_distinct:
  assumes "distinct (map extract_node_id old)"
  shows "kept_ids old excl = filter (\<lambda>x. excl = [] \<or> x \<noteq> excl) (map extract_node_id old)"
proof -
  have "distinct (ids @ map extract_node_id old) \<Longrightarrow>
      fold (\<lambda>e ids. let nid = extract_node_id e in if excl \<noteq> [] \<and> nid = excl then ids else insert_new nid ids) old ids =
        ids @ filter (\<lambda>x. excl = [] \<or> x \<noteq> excl) (map extract_node_id old)" for ids
  proof (induction old arbitrary: ids)
    case (Cons e old)
    then show ?case using Cons.IH [of "insert_new (extract_node_id e) ids"] Cons.IH [of ids]
      by (auto simp: Let_def insert_new_def)
  qed simp
  from this [of "[]"] assms show ?thesis by (simp add: kept_ids_def)
qed

text \<open>
  What the set consists of: as many distinct nodes as asked for, each a replica that is kept or an
  alive node; nobody who is kept goes unless the set shrinks, and nobody joins unless it has room.
\<close>

lemma cast_int_length: "length xs < 2 ^ 31 \<Longrightarrow> cast_int (length xs) = int (length xs)"
  by (simp add: cast_int_id)

lemma trim_ids_props:
  assumes "distinct ids" and "0 \<le> n" and "n < int (length ids)" and "length ids < 2 ^ 31"
  shows "distinct (trim_ids n inc ids) \<and> length (trim_ids n inc ids) = nat n \<and> set (trim_ids n inc ids) \<subseteq> set ids"
proof -
  define os where "os = filter (\<lambda>x. x \<noteq> inc) ids"
  have os: "distinct os" "inc \<notin> set os" "set os \<subseteq> set ids" using assms(1) by (auto simp: os_def)
  have "set os = set ids - {inc}" by (auto simp: os_def)
  then have "length os = card (set ids - {inc})" using os(1) by (metis distinct_card)
  then have len: "length ids \<le> Suc (length os)"
    using distinct_card [OF assms(1)] by (cases "inc \<in> set ids") auto
  have "nat n \<le> length os" using len assms(2,3) by linarith
  then have "length (take (nat n) os) = nat n" by simp
  moreover have "cast_int (length (take (nat n) os)) = n" using calculation assms(2-4) by (simp add: cast_int_id)
  ultimately show ?thesis using os by (auto simp: trim_ids_def os_def [symmetric] Let_def dest: in_set_takeD)
qed


lemma target_ids_props:
  assumes sh: "visits_all shuffle" and al: "distinct (map ne_node_id alive)" "length alive < 2 ^ 31"
    and old: "length old < 2 ^ 31 - 1" and n: "n < 2 ^ 31"
    and t: "target_ids cfg shuffle alive old n inc exc = Some ids"
  shows "distinct ids \<and> 0 \<le> n \<and> length ids = nat n \<and>
    set ids \<subseteq> extract_node_id ` set old \<union> ne_node_id ` set alive \<and>
    (card {x \<in> extract_node_id ` set old. exc = [] \<or> x \<noteq> exc} < nat n \<longrightarrow>
       {x \<in> extract_node_id ` set old. exc = [] \<or> x \<noteq> exc} \<subseteq> set ids \<and> (inc \<noteq> [] \<longrightarrow> inc \<in> set ids))"
proof -
  define ids1 where "ids1 = kept_ids old exc"
  define ids2 where "ids2 = (if inc \<noteq> [] then insert_new inc ids1 else ids1)"
  define ids3 where "ids3 = (if n < cast_int (length ids2) then trim_ids n inc ids2 else ids2)"
  define sel where "sel = select_nodes cfg shuffle (n - cast_int (length ids3)) alive ids3"
  define ids4 where "ids4 = (if cast_int (length ids3) < n then fold insert_new sel ids3 else ids3)"
  have t': "target_ids cfg shuffle alive old n inc exc =
      (if inc \<noteq> [] \<and> inc \<notin> set (map ne_node_id alive) then None else if n < 0 then None
       else if cast_int (length ids4) < n then None else Some ids4)"
    unfolding target_ids_def Let_def ids4_def sel_def ids3_def ids2_def ids1_def by (rule refl)
  have n0: "0 \<le> n" and inc: "inc \<noteq> [] \<longrightarrow> inc \<in> ne_node_id ` set alive" and ids: "ids = ids4" and ge: "\<not> cast_int (length ids4) < n"
    using t unfolding t' by (auto split: if_splits)
  have d1: "distinct ids1" and s1: "set ids1 = {x \<in> extract_node_id ` set old. exc = [] \<or> x \<noteq> exc}"
    using kept_ids_props [of old exc] by (simp_all add: ids1_def)
  have "card (set ids1) \<le> card (set old)" unfolding s1
    by (rule order_trans [OF card_mono card_image_le [of "set old" extract_node_id]]) auto
  then have l1: "length ids1 \<le> length old" using distinct_card [OF d1] card_length [of old] by linarith
  have d2: "distinct ids2" and s2: "set ids2 = set ids1 \<union> (if inc = [] then {} else {inc})" and l2: "length ids2 \<le> Suc (length ids1)"
    using d1 by (auto simp: ids2_def insert_new_props) (simp add: insert_new_def)
  have b2: "length ids2 < 2 ^ 31" using l1 l2 old by simp
  have "distinct ids3 \<and> length ids3 \<le> nat n \<and> set ids3 \<subseteq> set ids2 \<and> (length ids2 \<le> nat n \<longrightarrow> ids3 = ids2)"
    using trim_ids_props [OF d2 n0 _ b2, of inc] b2 n0 d2 by (auto simp: ids3_def cast_int_length)
  then have d3: "distinct ids3" and l3: "length ids3 \<le> nat n" and s3: "set ids3 \<subseteq> set ids2" and e3: "length ids2 \<le> nat n \<longrightarrow> ids3 = ids2"
    by blast+
  have nn: "nat n < 2 ^ 31" using n by simp
  have b3: "cast_int (length ids3) = int (length ids3)" using le_less_trans [OF l3 nn] by (rule cast_int_length)
  then have sel: "distinct sel" "set sel \<subseteq> ne_node_id ` set alive - set ids3" "length sel \<le> nat (n - int (length ids3))"
    using select_nodes_props [OF sh al, of "n - int (length ids3)" cfg ids3] l3 n0 by (auto simp: sel_def)
  have "fold insert_new sel ids3 = ids3 @ sel" using d3 sel(1,2) by (intro fold_insert_new_distinct) auto
  then have ids4: "ids4 = (if int (length ids3) < n then ids3 @ sel else ids3)" using b3 by (simp add: ids4_def)
  have l4: "length ids4 \<le> nat n" using ids4 sel(3) l3 by auto
  then have "cast_int (length ids4) = int (length ids4)" using le_less_trans [OF _ nn] by (intro cast_int_length)
  then have len: "length ids = nat n" using ge l4 ids by simp
  moreover have "distinct ids" "set ids \<subseteq> extract_node_id ` set old \<union> ne_node_id ` set alive"
    using d3 sel(1,2) s3 s2 s1 inc by (auto simp: ids ids4 split: if_splits)
  moreover have "set ids1 \<subseteq> set ids \<and> (inc \<noteq> [] \<longrightarrow> inc \<in> set ids)" if "card (set ids1) < nat n"
  proof -
    have "ids3 = ids2" using e3 l2 that distinct_card [OF d1] by simp
    then show ?thesis using s2 by (auto simp: ids ids4)
  qed
  ultimately show ?thesis using n0 s1 by simp
qed

text \<open>The two uses that change one replica: the set is then fully determined.\<close>

lemma target_ids_add:
  assumes d: "distinct (map extract_node_id old)" and inc: "inc \<noteq> []" "inc \<in> ne_node_id ` set alive" "inc \<notin> extract_node_id ` set old"
    and len: "length old < 2 ^ 31 - 1"
  shows "target_ids cfg shuffle alive old (cast_int (length old) + 1) inc [] = Some (map extract_node_id old @ [inc])"
proof -
  have k: "kept_ids old [] = map extract_node_id old" using kept_ids_distinct [OF d, of "[]"] by simp
  have "insert_new inc (map extract_node_id old) = map extract_node_id old @ [inc]" using inc(3) by (simp add: insert_new_def)
  moreover have "cast_int (length old) = int (length old)" "cast_int (Suc (length old)) = int (length old) + 1"
    using len by (simp_all add: cast_int_id)
  ultimately show ?thesis using inc k by (simp add: target_ids_def Let_def)
qed

lemma target_ids_remove:
  assumes d: "distinct (map extract_node_id old)" and exc: "exc \<noteq> []" "exc \<in> extract_node_id ` set old"
    and len: "length old < 2 ^ 31"
  shows "target_ids cfg shuffle alive old (cast_int (length old) - 1) [] exc =
    Some (filter (\<lambda>x. x \<noteq> exc) (map extract_node_id old))"
proof -
  define ids where "ids = filter (\<lambda>x. x \<noteq> exc) (map extract_node_id old)"
  have k: "kept_ids old exc = ids" using kept_ids_distinct [OF d, of exc] exc(1) by (simp add: ids_def)
  have "length ids = card (set ids)" using distinct_card [of ids] distinct_filter [OF d] by (simp add: ids_def)
  also have "set ids = set (map extract_node_id old) - {exc}" by (auto simp: ids_def)
  also have "card \<dots> = length old - 1" using exc(2) distinct_card [OF d] by simp
  finally have l: "length ids = length old - 1" .
  moreover have "1 \<le> length old" using exc(2) by (cases old) auto
  ultimately have "cast_int (length ids) = cast_int (length old) - 1" using len by (simp add: cast_int_id of_nat_diff)
  moreover have "0 \<le> cast_int (length old) - 1" using \<open>1 \<le> length old\<close> len by (cases old) (simp_all add: cast_int_id)
  ultimately show ?thesis using k by (simp add: target_ids_def Let_def ids_def)
qed

section \<open>Data reaches the new replicas\<close>

text \<open>The node at an address stores these bytes as this version of the chunk.\<close>

definition node_has :: "'db rocksdb_ops \<Rightarrow> (string, 'db storage_node) umap \<Rightarrow> string \<Rightarrow> string \<Rightarrow> u64 \<Rightarrow> string \<Rightarrow> bool" where
  "node_has R nodes a cid v data \<longleftrightarrow>
     (\<exists>sn d. um_find nodes a = Some sn \<and> sn_store sn = Some d \<and> store_abs R d cid v = Some data)"

text \<open>The newest version of the chunk at an address.\<close>

definition node_newest :: "'db rocksdb_ops \<Rightarrow> (string, 'db storage_node) umap \<Rightarrow> string \<Rightarrow> string \<Rightarrow> u64 \<Rightarrow> string \<Rightarrow> bool" where
  "node_newest R nodes a cid v data \<longleftrightarrow>
     (\<exists>sn d. um_find nodes a = Some sn \<and> sn_store sn = Some d \<and> newest R d cid v \<and> store_abs R d cid v = Some data)"

lemma same_stores_sym: "same_stores ps qs \<Longrightarrow> same_stores qs ps"
  by (simp add: same_stores_def)

lemma same_stores_node:
  assumes "same_stores ps qs"
  shows "node_has R ps a cid v x \<longleftrightarrow> node_has R qs a cid v x" "node_newest R ps a cid v x \<longleftrightarrow> node_newest R qs a cid v x"
proof -
  have has: "node_has R ns a cid v x \<longleftrightarrow> (\<exists>d. map_option sn_store (um_find ns a) = Some (Some d) \<and> store_abs R d cid v = Some x)" for ns
    by (auto simp: node_has_def)
  have new: "node_newest R ns a cid v x \<longleftrightarrow> (\<exists>d. map_option sn_store (um_find ns a) = Some (Some d) \<and>
      newest R d cid v \<and> store_abs R d cid v = Some x)" for ns
    by (auto simp: node_newest_def)
  have eq: "map_option sn_store (um_find ps a) = map_option sn_store (um_find qs a)" using assms by (simp add: same_stores_def)
  show "node_has R ps a cid v x \<longleftrightarrow> node_has R qs a cid v x" unfolding has eq by (rule refl)
  show "node_newest R ps a cid v x \<longleftrightarrow> node_newest R qs a cid v x" unfolding new eq by (rule refl)
qed

lemma fetch_assembled_read:
  "fst (fetch_assembled R up src cid version nodes) = (case um_find nodes src of None \<Rightarrow> None
     | Some sn \<Rightarrow> if \<not> up src then None else (case store_read R cid version (sn_store sn) of None \<Rightarrow> None
         | Some (data, v) \<Rightarrow> if v < version then None else Some data))"
proof (cases "um_find nodes src")
  case (Some sn)
  show ?thesis
  proof (cases "store_read R cid version (sn_store sn)")
    case None
    then show ?thesis using Some by (simp add: fetch_assembled_def FetchChunk_def)
  next
    case dv: (Some dv)
    obtain data v where dv': "dv = (data, v)" by fastforce
    have "fst (read_pieces (if data = [] then [\<lparr>cp_data = [], cp_version = v, cp_is_last = True\<rparr>] else fetch_pieces data v 0) [] 0 False) = data"
      using read_stream [of data v] by (simp add: stream_of_def split: if_splits)
    then show ?thesis using Some dv dv' by (auto simp: fetch_assembled_def FetchChunk_def Let_def)
  qed
qed (simp add: fetch_assembled_def)

lemma fetch_assembled_stores: "same_stores nodes (snd (fetch_assembled R up src cid version nodes))"
  by (auto simp: same_stores_def fetch_assembled_def FetchChunk_def Let_def split: option.split prod.split)

lemma write_remote_ok:
  assumes "write_remote R up addr cid version data nodes = (True, nodes')"
  obtains sn d d' where "um_find nodes addr = Some sn" "sn_store sn = Some d"
    "store_write R cid version data (Some d) = (True, Some d')"
    "\<And>a. um_find nodes' a = (if a = addr then Some (sn\<lparr>sn_store := Some d'\<rparr>) else um_find nodes a)"
proof -
  obtain sn where sn: "um_find nodes addr = Some sn" and up: "up addr"
    using assms by (auto simp: write_remote_def split: option.splits if_splits)
  obtain ok st where w: "store_write R cid version data (sn_store sn) = (ok, st)" by fastforce
  then have nodes': "ok" "nodes' = um_assign addr (sn\<lparr>sn_store := st\<rparr>) nodes"
    using assms sn up by (auto simp: write_remote_def WriteChunk_def)
  then obtain d where d: "sn_store sn = Some d" using w by (cases "sn_store sn") (auto simp: store_write_def)
  then obtain d' where "st = Some d'" using w by (auto simp: store_write_def split: prod.splits)
  then show thesis using that [OF sn d, of d'] w d nodes' by simp
qed

lemma write_remote_other: "a \<noteq> addr \<Longrightarrow> um_find (snd (write_remote R up addr cid v data nodes)) a = um_find nodes a"
  by (simp add: write_remote_def split: option.split prod.split)

context rocksdb
begin

lemma write_newest:
  assumes "store_write R cid v data (Some d) = (True, Some d')" and name: "name_ok cid"
    and "newest R d cid vs" "store_abs R d cid vs = Some data" "v \<le> vs"
  shows "newest R d' cid vs \<and> store_abs R d' cid vs = Some data"
  using write_abs [OF assms(1) name name] assms(3-5) by (auto simp: newest_def split: if_splits)

text \<open>One copy: the destination has the bytes, the source still has its newest version, nothing else is touched.\<close>

lemma write_remote_keeps:
  assumes w: "write_remote R up addr cid v data nodes = (True, nodes')"
    and wf: "peers_wf R nodes" and name: "name_ok cid" and ver: "version_ok v"
    and src: "node_newest R nodes src cid vs data" "v \<le> vs"
  shows "peers_wf R nodes' \<and> node_newest R nodes' src cid vs data \<and> node_has R nodes' addr cid v data \<and>
    (\<forall>a. node_has R nodes a cid v data \<longrightarrow> node_has R nodes' a cid v data)"
proof -
  obtain sn d d' where n: "um_find nodes addr = Some sn" "sn_store sn = Some d"
      "store_write R cid v data (Some d) = (True, Some d')"
      "\<And>a. um_find nodes' a = (if a = addr then Some (sn\<lparr>sn_store := Some d'\<rparr>) else um_find nodes a)"
    using write_remote_ok [OF w] by metis
  have "store_wf R d" using wf n(1,2) unfolding peers_wf_def by blast
  then have d': "store_wf R d'" using write_wf [OF n(3) _ name ver] by blast
  have "peers_wf R nodes'" using wf d' n(4) unfolding peers_wf_def by (auto split: if_splits)
  moreover have "node_newest R nodes' src cid vs data"
    using src write_newest [OF n(3) name] n(1,2,4) by (auto simp: node_newest_def)
  moreover have "store_abs R d' cid v = Some data" using write_abs [OF n(3) name name] by simp
  then have "node_has R nodes' addr cid v data" "node_has R nodes a cid v data \<Longrightarrow> node_has R nodes' a cid v data" for a
    using n(4) by (auto simp: node_has_def)
  ultimately show ?thesis by blast
qed

lemma fetch_assembled_newest:
  assumes f: "fetch_assembled R up src cid v nodes = (Some data, nodes1)" and wf: "peers_wf R nodes" and name: "name_ok cid"
  shows "\<exists>vs. node_newest R nodes src cid vs data \<and> v \<le> vs"
proof -
  have "fst (fetch_assembled R up src cid v nodes) = Some data" using f by simp
  then obtain sn vs where sn: "um_find nodes src = Some sn" "store_read R cid v (sn_store sn) = Some (data, vs)"
    unfolding fetch_assembled_read by (auto split: option.splits if_splits)
  then obtain d where d: "sn_store sn = Some d" by (cases "sn_store sn") (auto simp: store_read_def)
  then have "store_wf R d" using wf sn(1) unfolding peers_wf_def by blast
  then show ?thesis using store_read_Some [of d cid v data vs] name sn d unfolding node_newest_def by auto
qed

lemma node_newest_unique:
  "node_newest R nodes a cid v x \<Longrightarrow> node_newest R nodes a cid w y \<Longrightarrow> v = w \<and> x = y"
proof -
  assume "node_newest R nodes a cid v x" "node_newest R nodes a cid w y"
  then obtain d where d: "newest R d cid v" "store_abs R d cid v = Some x" "newest R d cid w" "store_abs R d cid w = Some y"
    by (auto simp: node_newest_def)
  then have "v = w" by (auto simp: newest_def intro: order_antisym)
  with d show ?thesis by simp
qed

lemma copy_loop_delivers:
  assumes "copy_loop R up alive src_ids src cid v dsts nodes = (True, nodes')"
    and "peers_wf R nodes" and name: "name_ok cid" and ver: "version_ok v"
    and "node_newest R nodes src cid vs data" and le: "v \<le> vs"
  shows "peers_wf R nodes' \<and> node_newest R nodes' src cid vs data \<and>
    (\<forall>a. node_has R nodes a cid v data \<longrightarrow> node_has R nodes' a cid v data) \<and>
    (\<forall>dst \<in> set dsts. extract_node_id dst \<notin> set src_ids \<longrightarrow> node_has R nodes' (resolve_address dst alive) cid v data)"
  using assms(1,2,5)
proof (induction dsts arbitrary: nodes)
  case (Cons dst dsts)
  show ?case
  proof (cases "extract_node_id dst \<in> set src_ids")
    case True
    then show ?thesis using Cons by auto
  next
    case False
    obtain fd nodes1 where f: "fetch_assembled R up src cid v nodes = (fd, nodes1)" by fastforce
    obtain dat where dat: "fd = Some dat" using Cons.prems(1) False f by (cases fd) (auto simp: Let_def split: if_splits)
    obtain nodes2 where w: "write_remote R up (resolve_address dst alive) cid v dat nodes1 = (True, nodes2)"
        and rest: "copy_loop R up alive src_ids src cid v dsts nodes2 = (True, nodes')"
      using Cons.prems(1) False f dat by (auto simp: Let_def split: if_splits prod.splits bool.splits)
    have "dat = data" using fetch_assembled_newest [of up src cid v nodes dat nodes1] f dat Cons.prems(2,3) name node_newest_unique by blast
    have same: "same_stores nodes nodes1" using fetch_assembled_stores [of nodes R up src cid v] f by simp
    note n1 = same_stores_node [OF same]
    note k = write_remote_keeps [OF w [unfolded \<open>dat = data\<close>] same_stores_wf [OF same Cons.prems(2)] name ver _ le]
    have k2: "peers_wf R nodes2" "node_newest R nodes2 src cid vs data" "node_has R nodes2 (resolve_address dst alive) cid v data"
      "\<And>a. node_has R nodes a cid v data \<Longrightarrow> node_has R nodes2 a cid v data"
      using k [of src] Cons.prems(3) n1 by blast+
    show ?thesis using Cons.IH [OF rest k2(1,2)] k2(3,4) by auto
  qed
qed simp

lemma copy_loop_fetches:
  assumes "copy_loop R up alive src_ids src cid v dsts nodes = (True, nodes')"
    and "dst \<in> set dsts" "extract_node_id dst \<notin> set src_ids" and "peers_wf R nodes" and "name_ok cid"
  shows "\<exists>data vs. node_newest R nodes src cid vs data \<and> v \<le> vs"
  using assms
proof (induction dsts)
  case (Cons e dsts)
  show ?case
  proof (cases "extract_node_id e \<in> set src_ids")
    case True
    then show ?thesis using Cons by auto
  next
    case False
    obtain fd nodes1 where f: "fetch_assembled R up src cid v nodes = (fd, nodes1)" by fastforce
    obtain dat where "fd = Some dat" using Cons.prems(1) False f by (cases fd) (auto simp: Let_def split: if_splits)
    then show ?thesis using fetch_assembled_newest [of up src cid v nodes dat nodes1] f Cons.prems(4,5) by blast
  qed
qed simp

end

text \<open>The copy writes to the replicas outside the old set only.\<close>

lemma copy_loop_skips:
  assumes "\<forall>dst \<in> set dsts. extract_node_id dst \<in> set src_ids \<or> resolve_address dst alive \<noteq> a"
  shows "map_option sn_store (um_find (snd (copy_loop R up alive src_ids src cid v dsts nodes)) a) = map_option sn_store (um_find nodes a)"
  using assms
proof (induction dsts arbitrary: nodes)
  case (Cons dst dsts)
  obtain fd n1 where f: "fetch_assembled R up src cid v nodes = (fd, n1)" by fastforce
  have same: "map_option sn_store (um_find n1 a) = map_option sn_store (um_find nodes a)"
    using fetch_assembled_stores [of nodes R up src cid v] f by (simp add: same_stores_def)
  show ?case
  proof (cases "extract_node_id dst \<in> set src_ids")
    case False
    then have "um_find (snd (write_remote R up (resolve_address dst alive) cid v data n1)) a = um_find n1 a" for data
      using Cons.prems by (intro write_remote_other) auto
    then show ?thesis using Cons False f same by (auto simp: Let_def split: option.split prod.split bool.split) (metis snd_conv)+
  qed (use Cons in simp)
qed simp

section \<open>Verified replicas\<close>

text \<open>The node at an address answers a read with at least this version.\<close>

definition serves :: "'db rocksdb_ops \<Rightarrow> (string, 'db storage_node) umap \<Rightarrow> string \<Rightarrow> string \<Rightarrow> u64 \<Rightarrow> bool" where
  "serves R nodes a cid v \<longleftrightarrow>
     (\<exists>st data w. map_option sn_store (um_find nodes a) = Some st \<and> store_read R cid v st = Some (data, w) \<and> v \<le> w)"

lemma same_stores_serves: "same_stores ps qs \<Longrightarrow> serves R ps a cid v \<longleftrightarrow> serves R qs a cid v"
  by (simp add: same_stores_def serves_def)

lemma verify_replicas_ok:
  assumes "verify_replicas R up alive cid v entries nodes = (True, nodes')"
  shows "same_stores nodes nodes' \<and>
    (\<forall>entry \<in> set entries. resolve_address entry alive \<noteq> [] \<and> serves R nodes' (resolve_address entry alive) cid v)"
  using assms
proof (induction entries arbitrary: nodes)
  case (Cons entry entries)
  let ?a = "resolve_address entry alive"
  obtain sn where sn: "?a \<noteq> []" "um_find nodes ?a = Some sn" "up ?a"
    using Cons.prems by (auto simp: Let_def split: option.splits if_splits)
  obtain r sn1 where rd: "ReadChunk R cid v sn = (r, sn1)" by fastforce
  then obtain data w where r: "r = Inr (data, w)" and vw: "v \<le> w"
      and rest: "verify_replicas R up alive cid v entries (um_assign ?a sn1 nodes) = (True, nodes')"
    using Cons.prems sn by (auto simp: Let_def linorder_not_less split: sum.splits if_splits)
  have st: "sn_store sn1 = sn_store sn" "store_read R cid v (sn_store sn) = Some (data, w)"
    using rd r by (auto simp: ReadChunk_def split: option.splits if_splits)
  have same: "same_stores nodes (um_assign ?a sn1 nodes)" using sn(2) st(1) by (simp add: same_stores_def)
  note IH = Cons.IH [OF rest]
  have "serves R nodes ?a cid v" using sn(2) st(2) vw by (auto simp: serves_def)
  then have "serves R nodes' ?a cid v" using same_stores_serves same IH by blast
  then show ?case using IH same_stores_trans [OF same] sn(1) by auto
qed simp

lemma verify_replicas_no_address:
  "entry \<in> set entries \<Longrightarrow> resolve_address entry alive = [] \<Longrightarrow> \<not> fst (verify_replicas R up alive cid v entries nodes)"
  using verify_replicas_ok [of R up alive cid v entries nodes] by (cases "verify_replicas R up alive cid v entries nodes") auto

section \<open>The log entries of a change\<close>

definition node_ok :: "node_entry \<Rightarrow> bool" where
  "node_ok n \<longleftrightarrow> replica_ok (ne_node_id n) \<and> CHR ''|'' \<notin> set (ne_address n) \<and> CHR '','' \<notin> set (ne_address n)"

definition entry_ok :: "string \<Rightarrow> bool" where
  "entry_ok e \<longleftrightarrow> replica_ok e \<and> extract_node_id e \<noteq> []"

lemma extract_node_id_subset: "set (extract_node_id e) \<subseteq> set e"
  by (auto simp: extract_node_id_def split: option.splits dest: in_set_takeD)

lemma encode_replica_entry_ok:
  assumes "\<forall>n \<in> set alive. node_ok n" and "nid \<in> extract_node_id ` Collect entry_ok \<union> ne_node_id ` set alive"
  shows "replica_ok (encode_replica_entry nid alive)"
proof (cases "List.find (\<lambda>n. ne_node_id n = nid) alive")
  case None
  then have "nid \<notin> ne_node_id ` set alive" by (auto simp: find_None_iff)
  then obtain e where "entry_ok e" "nid = extract_node_id e" using assms(2) by blast
  then show ?thesis using None extract_node_id_subset [of e]
    by (auto simp: encode_replica_entry_def entry_ok_def replica_ok_def)
next
  case (Some n)
  then have "n \<in> set alive" "ne_node_id n = nid" by (auto simp: find_Some_iff)
  then show ?thesis using assms(1) Some by (auto simp: encode_replica_entry_def node_ok_def replica_ok_def)
qed

lemma find_char_eq: "CHR ''='' \<notin> set nid \<Longrightarrow> find_char CHR ''='' (nid @ CHR ''='' # a) = Some (length nid)"
  by (rule find_char_append)

lemma extract_no_eq: "CHR ''='' \<notin> set (extract_node_id e)"
  by (auto simp: extract_node_id_def split: option.splits dest: find_char_Some)

lemma extract_encode: "CHR ''='' \<notin> set nid \<Longrightarrow> extract_node_id (encode_replica_entry nid alive) = nid"
  by (cases "List.find (\<lambda>n. ne_node_id n = nid) alive")
    (simp_all add: encode_replica_entry_def extract_node_id_def find_char_eq find_char_None [THEN iffD2])

lemma find_alive:
  assumes "visits_all ord" and "coord_inv coord" and "n \<in> set (get_alive_nodes ord coord)"
  shows "List.find (\<lambda>m. ne_node_id m = ne_node_id n) (get_alive_nodes ord coord) = Some n"
proof (cases "List.find (\<lambda>m. ne_node_id m = ne_node_id n) (get_alive_nodes ord coord)")
  case None
  then show ?thesis using assms(3) by (auto simp: find_None_iff)
next
  case (Some m)
  then have "m \<in> set (get_alive_nodes ord coord)" "ne_node_id m = ne_node_id n" by (auto simp: find_Some_iff)
  then show ?thesis using Some alive_nodes_iff [OF assms(1,2)] assms(3) by metis
qed

lemma resolve_encode:
  assumes "CHR ''='' \<notin> set nid"
  shows "resolve_address (encode_replica_entry nid alive) alive =
    (case List.find (\<lambda>n. ne_node_id n = nid) alive of Some n \<Rightarrow> ne_address n | None \<Rightarrow> [])"
  using assms by (auto simp: encode_replica_entry_def resolve_address_def find_char_eq find_char_None [THEN iffD2] split: option.split)

lemma logged_write_cmd:
  "cmd_ok cmd \<Longrightarrow> logged_write outcome clk (cmd_type cmd) (cmd_payload cmd) coord =
     Inr (case outcome (cmd_type cmd) (cmd_payload cmd) of None \<Rightarrow> (False, coord)
          | Some idx \<Rightarrow> (True, apply_cmd (clk idx) cmd coord))"
  using apply_entry_of_cmd [of cmd] by (simp add: logged_write_def split: option.split)

lemma node_table_reconfig [simp]:
  "node_table (apply_reconfig_start cid os ns c) = node_table c" "node_table (apply_reconfig_commit cid ns c) = node_table c"
  by (auto simp: apply_reconfig_start_def apply_reconfig_commit_def split: option.split)

lemma get_alive_nodes_cong: "node_table c = node_table d \<Longrightarrow> get_alive_nodes ord c = get_alive_nodes ord d"
  by (simp add: get_alive_nodes_def)

text \<open>A change whose entries are well-formed, step by step.\<close>

lemma reconfig_steps:
  assumes chunk: "get_chunk coord cid = Some e" and st: "ce_config_state e \<noteq> TRANSITIONING"
    and alive: "alive = get_alive_nodes ord coord"
    and t: "target_ids cfg shuffle alive (ce_replica_set e) n inc exc = Some ids"
    and new: "new_nodes = map (\<lambda>nid. encode_replica_entry nid alive) ids"
    and ok: "id_ok cid" "replicas_ok (ce_replica_set e)" "replicas_ok new_nodes"
  shows "reconfig R ord cfg shuffle up outcome clk cid n inc exc (coord, nodes) =
    (case outcome RECONFIGURE_START (encode_reconfig_start cid (ce_replica_set e) new_nodes) of
       None \<Rightarrow> Inr (False, coord, nodes)
     | Some i \<Rightarrow>
         let c1 = apply_reconfig_start cid (ce_replica_set e) new_nodes coord;
             (copied, nodes1) = copy_to_new_replicas R up alive cid (ce_version e) (ce_replica_set e) new_nodes nodes;
             (verified, nodes2) = verify_replicas R up alive cid (ce_version e) new_nodes nodes1
         in if \<not> copied then Inr (False, c1, nodes1)
            else if \<not> verified then Inr (False, c1, nodes2)
            else case outcome RECONFIGURE_COMMIT (encode_reconfig_commit cid new_nodes) of
                   None \<Rightarrow> Inr (False, c1, nodes2)
                 | Some j \<Rightarrow> Inr (True, apply_reconfig_commit cid new_nodes c1, nodes2))"
proof -
  let ?c1 = "apply_reconfig_start cid (ce_replica_set e) new_nodes coord"
  have al: "get_alive_nodes ord ?c1 = alive" unfolding alive by (rule get_alive_nodes_cong) simp
  have start: "logged_write outcome clk RECONFIGURE_START (encode_reconfig_start cid (ce_replica_set e) new_nodes) coord =
      Inr (case outcome RECONFIGURE_START (encode_reconfig_start cid (ce_replica_set e) new_nodes) of
        None \<Rightarrow> (False, coord) | Some i \<Rightarrow> (True, ?c1))"
    using logged_write_cmd [of "Cmd_reconfig_start cid (ce_replica_set e) new_nodes" outcome clk coord] ok by (simp split: option.split)
  have commit: "logged_write outcome clk RECONFIGURE_COMMIT (encode_reconfig_commit cid new_nodes) ?c1 =
      Inr (case outcome RECONFIGURE_COMMIT (encode_reconfig_commit cid new_nodes) of
        None \<Rightarrow> (False, ?c1) | Some j \<Rightarrow> (True, apply_reconfig_commit cid new_nodes ?c1))"
    using logged_write_cmd [of "Cmd_reconfig_commit cid new_nodes" outcome clk ?c1] ok by (simp split: option.split)
  show ?thesis
    using chunk st t al
    by (simp add: reconfig_def alive [symmetric] new [symmetric] start Let_def commit
        split: option.split prod.split)
qed

lemma new_nodes_ok:
  assumes "\<forall>x \<in> set alive. node_ok x" and "\<forall>r \<in> set old. entry_ok r"
    and "set ids \<subseteq> extract_node_id ` set old \<union> ne_node_id ` set alive" and "ids \<noteq> []"
  shows "replicas_ok (map (\<lambda>nid. encode_replica_entry nid alive) ids)"
proof -
  have "nid \<in> extract_node_id ` Collect entry_ok \<union> ne_node_id ` set alive" if "nid \<in> set ids" for nid
    using assms(2,3) that by blast
  then show ?thesis using encode_replica_entry_ok [OF assms(1)] assms(4) by (simp add: replicas_ok_def list_all_iff)
qed

lemma entry_ok_replicas: "\<forall>r \<in> set old. entry_ok r \<Longrightarrow> old \<noteq> [] \<Longrightarrow> replicas_ok old"
  by (simp add: replicas_ok_def list_all_iff entry_ok_def)

lemma alive_length:
  assumes "visits_all ord"
  shows "length (get_alive_nodes ord c) \<le> length (node_table c)"
proof -
  have "length (get_alive_nodes ord c) \<le> length (ord (um_values (node_table c)))" by (simp add: get_alive_nodes_def)
  then show ?thesis using assms by (simp add: visits_all_simps um_values_def)
qed

lemma reconfig_started:
  assumes chunk: "get_chunk coord cid = Some e" and st: "ce_config_state e \<noteq> TRANSITIONING"
    and alive: "alive = get_alive_nodes ord coord"
    and t: "target_ids cfg shuffle alive (ce_replica_set e) n inc exc = Some ids"
    and new: "new_nodes = map (\<lambda>nid. encode_replica_entry nid alive) ids"
    and ok: "id_ok cid" "replicas_ok (ce_replica_set e)" "replicas_ok new_nodes"
    and i: "outcome RECONFIGURE_START (encode_reconfig_start cid (ce_replica_set e) new_nodes) = Some i"
    and len: "cast_int (length new_nodes) = n"
  shows "\<exists>ok coord' nodes'. reconfig R ord cfg shuffle up outcome clk cid n inc exc (coord, nodes) = Inr (ok, coord', nodes') \<and>
    node_table coord' = node_table coord \<and> (\<forall>k. k \<noteq> cid \<longrightarrow> get_chunk coord' k = get_chunk coord k) \<and>
    (if ok
     then get_chunk coord' cid = Some (e\<lparr>ce_config_state := STABLE, ce_replication_factor := n,
            ce_replica_set := new_nodes, ce_old_replica_set := []\<rparr>) \<and>
          (\<forall>r \<in> set new_nodes. resolve_address r alive \<noteq> [] \<and> serves R nodes' (resolve_address r alive) cid (ce_version e))
     else get_chunk coord' cid = Some (e\<lparr>ce_config_state := TRANSITIONING, ce_replication_factor := n,
            ce_old_replica_set := ce_replica_set e, ce_replica_set := new_nodes\<rparr>))"
proof -
  obtain copied nodes1 where cp: "copy_to_new_replicas R up alive cid (ce_version e) (ce_replica_set e) new_nodes nodes = (copied, nodes1)"
    by fastforce
  obtain verified nodes2 where vf: "verify_replicas R up alive cid (ce_version e) new_nodes nodes1 = (verified, nodes2)" by fastforce
  have ver: "verified \<Longrightarrow> \<forall>r \<in> set new_nodes. resolve_address r alive \<noteq> [] \<and> serves R nodes2 (resolve_address r alive) cid (ce_version e)"
    using verify_replicas_ok [of R up alive cid "ce_version e" new_nodes nodes1 nodes2] vf by auto
  define k where "k = (copied \<and> verified \<and> outcome RECONFIGURE_COMMIT (encode_reconfig_commit cid new_nodes) \<noteq> None)"
  define c' where "c' = (let c1 = apply_reconfig_start cid (ce_replica_set e) new_nodes coord
    in if k then apply_reconfig_commit cid new_nodes c1 else c1)"
  have r: "reconfig R ord cfg shuffle up outcome clk cid n inc exc (coord, nodes) = Inr (k, c', if copied then nodes2 else nodes1)"
    unfolding reconfig_steps [OF chunk st alive t new ok] using i cp vf by (auto simp: k_def c'_def Let_def split: option.split)
  have c': "node_table c' = node_table coord" "\<forall>k. k \<noteq> cid \<longrightarrow> get_chunk c' k = get_chunk coord k"
    "get_chunk c' cid = Some (if k then e\<lparr>ce_config_state := STABLE, ce_replication_factor := n,
            ce_replica_set := new_nodes, ce_old_replica_set := []\<rparr>
      else e\<lparr>ce_config_state := TRANSITIONING, ce_replication_factor := n,
            ce_old_replica_set := ce_replica_set e, ce_replica_set := new_nodes\<rparr>)"
    using chunk len by (simp_all add: c'_def Let_def)
  show ?thesis
    using r c' ver by (intro exI [of _ k] exI [of _ c'] exI conjI) (auto simp: k_def)
qed

lemma reconfig_cases:
  assumes inv: "coord_inv coord" and vis: "visits_all ord" "visits_all shuffle"
    and chunk: "get_chunk coord cid = Some e" and st: "ce_config_state e \<noteq> TRANSITIONING" and id: "id_ok cid"
    and old: "\<forall>r \<in> set (ce_replica_set e). entry_ok r" "ce_replica_set e \<noteq> []" "length (ce_replica_set e) < 2 ^ 31 - 1"
    and alive: "\<forall>x \<in> set (get_alive_nodes ord coord). node_ok x" "length (node_table coord) < 2 ^ 31"
    and n: "0 < n" "n < 2 ^ 31"
  shows "\<exists>ok coord' nodes'. reconfig R ord cfg shuffle up outcome clk cid n inc exc (coord, nodes) = Inr (ok, coord', nodes') \<and>
    node_table coord' = node_table coord \<and> (\<forall>k. k \<noteq> cid \<longrightarrow> get_chunk coord' k = get_chunk coord k) \<and>
    ((\<not> ok \<and> coord' = coord \<and> nodes' = nodes) \<or>
     (\<exists>ids new_nodes. target_ids cfg shuffle (get_alive_nodes ord coord) (ce_replica_set e) n inc exc = Some ids \<and>
        distinct ids \<and> length ids = nat n \<and>
        new_nodes = map (\<lambda>nid. encode_replica_entry nid (get_alive_nodes ord coord)) ids \<and>
        (if ok
         then get_chunk coord' cid = Some (e\<lparr>ce_config_state := STABLE, ce_replication_factor := n,
                ce_replica_set := new_nodes, ce_old_replica_set := []\<rparr>) \<and>
              (\<forall>r \<in> set new_nodes. serves R nodes' (resolve_address r (get_alive_nodes ord coord)) cid (ce_version e))
         else get_chunk coord' cid = Some (e\<lparr>ce_config_state := TRANSITIONING, ce_replication_factor := n,
                ce_old_replica_set := ce_replica_set e, ce_replica_set := new_nodes\<rparr>))))"
proof -
  let ?alive = "get_alive_nodes ord coord"
  show ?thesis
  proof (cases "target_ids cfg shuffle ?alive (ce_replica_set e) n inc exc")
    case None
    then show ?thesis using chunk st by (auto simp: reconfig_def)
  next
    case (Some ids)
    have al: "length ?alive < 2 ^ 31" using alive_length [OF vis(1), of coord] alive(2) by linarith
    have ids: "distinct ids" "length ids = nat n" "set ids \<subseteq> extract_node_id ` set (ce_replica_set e) \<union> ne_node_id ` set ?alive"
      using target_ids_props [OF vis(2) alive_nodes_distinct [OF vis(1) inv] al old(3) n(2) Some] by blast+
    define new_nodes where "new_nodes = map (\<lambda>nid. encode_replica_entry nid ?alive) ids"
    have ne: "ids \<noteq> []" using ids(2) n(1) by auto
    have ok: "replicas_ok (ce_replica_set e)" "replicas_ok new_nodes"
      using entry_ok_replicas [OF old(1,2)] new_nodes_ok [OF alive(1) old(1) ids(3) ne] by (simp_all add: new_nodes_def)
    have len: "cast_int (length new_nodes) = n" using ids(2) n by (simp add: new_nodes_def cast_int_id)
    show ?thesis
    proof (cases "outcome RECONFIGURE_START (encode_reconfig_start cid (ce_replica_set e) new_nodes)")
      case None
      then show ?thesis using reconfig_steps [OF chunk st refl Some new_nodes_def id ok, of R up outcome clk nodes] by auto
    next
      case i: (Some i)
      from reconfig_started [where outcome = outcome, OF chunk st refl Some new_nodes_def id ok i len, of R up clk nodes]
      obtain k c' ns where run:
        "reconfig R ord cfg shuffle up outcome clk cid n inc exc (coord, nodes) = Inr (k, c', ns)" "node_table c' = node_table coord"
        "\<forall>k. k \<noteq> cid \<longrightarrow> get_chunk c' k = get_chunk coord k"
        "if k then get_chunk c' cid = Some (e\<lparr>ce_config_state := STABLE, ce_replication_factor := n,
              ce_replica_set := new_nodes, ce_old_replica_set := []\<rparr>) \<and>
            (\<forall>r \<in> set new_nodes. resolve_address r ?alive \<noteq> [] \<and> serves R ns (resolve_address r ?alive) cid (ce_version e))
         else get_chunk c' cid = Some (e\<lparr>ce_config_state := TRANSITIONING, ce_replication_factor := n,
              ce_old_replica_set := ce_replica_set e, ce_replica_set := new_nodes\<rparr>)" by blast
      then have "if k then get_chunk c' cid = Some (e\<lparr>ce_config_state := STABLE, ce_replication_factor := n,
              ce_replica_set := new_nodes, ce_old_replica_set := []\<rparr>) \<and>
            (\<forall>r \<in> set new_nodes. serves R ns (resolve_address r ?alive) cid (ce_version e))
         else get_chunk c' cid = Some (e\<lparr>ce_config_state := TRANSITIONING, ce_replication_factor := n,
              ce_old_replica_set := ce_replica_set e, ce_replica_set := new_nodes\<rparr>)" by (simp split: if_splits)
      then show ?thesis using run(1-3) Some ids(1,2) new_nodes_def by blast
    qed
  qed
qed

section \<open>Properties\<close>


text \<open>A small cluster: one chunk on two nodes, of which the second is down; a third node is free.\<close>

definition demo_node :: "string \<Rightarrow> string \<Rightarrow> bool \<Rightarrow> node_entry" where
  "demo_node nid address up = \<lparr>ne_node_id = nid, ne_address = address, ne_load_fraction = 0, ne_free_bytes = 1,
     ne_total_bytes = 2, ne_failure_rate_7d = 0, ne_last_seen_ms = 0, ne_alive = up\<rparr>"

definition demo_chunk :: chunk_entry where
  "demo_chunk = \<lparr>ce_chunk_id = ''c'', ce_version = 7, ce_replica_set = [''n1=h:1'', ''n2=h:2''], ce_replication_factor = 2,
     ce_config_state = STABLE, ce_old_replica_set = [], ce_size_bytes = 3\<rparr>"

definition demo_coord :: "bool \<Rightarrow> coordinator" where
  "demo_coord second = \<lparr>chunk_table = [(''c'', demo_chunk)], node_table = [(''n1'', demo_node ''n1'' ''h:1'' True),
     (''n2'', demo_node ''n2'' ''h:2'' second), (''n3'', demo_node ''n3'' ''h:3'' True)]\<rparr>"

lemma demo_coord_facts:
  "coord_inv (demo_coord second)" "get_chunk (demo_coord second) ''c'' = Some demo_chunk" "id_ok ''c''"
  "\<forall>r \<in> set (ce_replica_set demo_chunk). entry_ok r" "ce_config_state demo_chunk = STABLE"
  "\<forall>x \<in> set (get_alive_nodes (\<lambda>xs. xs) (demo_coord second)). node_ok x" "length (node_table (demo_coord second)) = 3"
  "ce_replica_set demo_chunk = [''n1=h:1'', ''n2=h:2'']"
  by (auto simp: demo_coord_def demo_chunk_def demo_node_def coord_inv_def um_wf_def get_chunk_def chunk_ok_def id_ok_def
      entry_ok_def replica_ok_def extract_node_id_def get_alive_nodes_def um_values_def node_ok_def split: if_splits)

lemma demo_target:
  "target_ids (default_placement_config\<lparr>random_placement := True\<rparr>) (\<lambda>xs. xs) (get_alive_nodes (\<lambda>xs. xs) (demo_coord second))
     (ce_replica_set demo_chunk) 3 [] [] = Some [''n1'', ''n2'', ''n3'']"
  by (simp add: target_ids_def demo_coord_def demo_chunk_def demo_node_def get_alive_nodes_def um_values_def Let_def
      kept_ids_def insert_new_def extract_node_id_def select_nodes_def cast_int_def)


text \<open>
  Growing the replica set of a chunk while the node of one of its replicas is down never succeeds
  once the start of the change is logged: the dead replica stays in the new set without an address,
  the verification fails, and the chunk remains in transition. From then on every further change of
  it is refused, with no effect.
\<close>

theorem reconfig_dead_replica_stuck:
  assumes inv: "coord_inv coord" and vis: "visits_all ord" "visits_all shuffle"
    and chunk: "get_chunk coord cid = Some e" and st: "ce_config_state e \<noteq> TRANSITIONING" and id: "id_ok cid"
    and old: "\<forall>r \<in> set (ce_replica_set e). entry_ok r" "length (ce_replica_set e) < 2 ^ 31 - 1"
    and alive: "\<forall>x \<in> set (get_alive_nodes ord coord). node_ok x" "length (node_table coord) < 2 ^ 31"
    and n: "int (length (ce_replica_set e)) < n" "n < 2 ^ 31"
    and dead: "r \<in> set (ce_replica_set e)" "extract_node_id r \<notin> ne_node_id ` set (get_alive_nodes ord coord)"
    and t: "target_ids cfg shuffle (get_alive_nodes ord coord) (ce_replica_set e) n inc [] = Some ids"
    and start: "outcome RECONFIGURE_START (encode_reconfig_start cid (ce_replica_set e)
        (map (\<lambda>nid. encode_replica_entry nid (get_alive_nodes ord coord)) ids)) = Some i"
  shows "\<exists>coord' nodes' e'. reconfig R ord cfg shuffle up outcome clk cid n inc [] (coord, nodes) = Inr (False, coord', nodes') \<and>
    get_chunk coord' cid = Some e' \<and> ce_config_state e' = TRANSITIONING \<and>
    (\<forall>R' ord' cfg' shuffle' up' outcome' clk' n' inc' exc' nodes''.
       reconfig (R' :: 'db rocksdb_ops) ord' cfg' shuffle' up' outcome' clk' cid n' inc' exc' (coord', nodes'') = Inr (False, coord', nodes''))"
proof -
  let ?alive = "get_alive_nodes ord coord"
  define new_nodes where "new_nodes = map (\<lambda>nid. encode_replica_entry nid ?alive) ids"
  have al: "length ?alive < 2 ^ 31" using alive_length [OF vis(1), of coord] alive(2) by linarith
  have props: "length ids = nat n" "set ids \<subseteq> extract_node_id ` set (ce_replica_set e) \<union> ne_node_id ` set ?alive"
      "card (extract_node_id ` set (ce_replica_set e)) < nat n \<longrightarrow> extract_node_id ` set (ce_replica_set e) \<subseteq> set ids"
    using target_ids_props [OF vis(2) alive_nodes_distinct [OF vis(1) inv] al old(2) n(2) t] by simp_all
  have "card (extract_node_id ` set (ce_replica_set e)) \<le> length (ce_replica_set e)"
    using card_image_le [of "set (ce_replica_set e)" extract_node_id] card_length [of "ce_replica_set e"] by simp
  then have r: "extract_node_id r \<in> set ids" using props(3) n(1) dead(1) by auto
  have ne: "ids \<noteq> []" "ce_replica_set e \<noteq> []" using r dead(1) by auto
  have ok: "replicas_ok (ce_replica_set e)" "replicas_ok new_nodes"
    using entry_ok_replicas [OF old(1) ne(2)] new_nodes_ok [OF alive(1) old(1) props(2) ne(1)] by (simp_all add: new_nodes_def)
  have len: "cast_int (length new_nodes) = n" using props(1) n by (simp add: new_nodes_def cast_int_id)
  have "CHR ''='' \<notin> set (extract_node_id r)" by (auto simp: extract_node_id_def split: option.splits dest: find_char_Some)
  moreover have "List.find (\<lambda>x. ne_node_id x = extract_node_id r) ?alive = None" using dead(2) by (force simp: find_None_iff image_iff)
  ultimately have noaddr: "resolve_address (encode_replica_entry (extract_node_id r) ?alive) ?alive = []"
    by (simp add: encode_replica_entry_def resolve_address_def find_char_None [THEN iffD2])
  obtain k c' ns where run: "reconfig R ord cfg shuffle up outcome clk cid n inc [] (coord, nodes) = Inr (k, c', ns)"
      "if k then \<forall>r \<in> set new_nodes. serves R ns (resolve_address r ?alive) cid (ce_version e) \<and> resolve_address r ?alive \<noteq> []
       else get_chunk c' cid = Some (e\<lparr>ce_config_state := TRANSITIONING, ce_replication_factor := n,
            ce_old_replica_set := ce_replica_set e, ce_replica_set := new_nodes\<rparr>)"
    using reconfig_started [where outcome = outcome, OF chunk st refl t new_nodes_def id ok start [folded new_nodes_def] len, of R up clk nodes]
    by (auto split: if_splits)
  have "\<not> k" using run(2) noaddr r by (auto simp: new_nodes_def)
  then show ?thesis using run by (auto simp: reconfig_def)
qed

theorem reconfig_dead_replica_stuck_witness:
  "\<exists>coord' nodes' e'. reconfig mem_rocksdb (\<lambda>xs. xs) (default_placement_config\<lparr>random_placement := True\<rparr>) (\<lambda>xs. xs)
      (\<lambda>_. True) (\<lambda>_ _. Some 1) (\<lambda>_. 0) ''c'' 3 [] [] (demo_coord False, []) = Inr (False, coord', nodes') \<and>
     get_chunk coord' ''c'' = Some e' \<and> ce_config_state e' = TRANSITIONING"
proof -
  have dead: "extract_node_id ''n2=h:2'' \<notin> ne_node_id ` set (get_alive_nodes (\<lambda>xs. xs) (demo_coord False))"
    by (simp add: demo_coord_def demo_node_def get_alive_nodes_def um_values_def extract_node_id_def)
  from reconfig_dead_replica_stuck [where 'db = mem_db and n = 3 and R = mem_rocksdb and outcome = "\<lambda>_ _. Some 1" and up = "\<lambda>_. True"
      and clk = "\<lambda>_. 0" and nodes = "[]", OF demo_coord_facts(1) visits_all_id visits_all_id demo_coord_facts(2) _
      demo_coord_facts(3,4) _ demo_coord_facts(6) _ _ _ _ dead demo_target refl]
  show ?thesis by (auto simp: demo_coord_facts)
qed

text \<open>
  C39. A node of the old set need not hold the data: a put is acknowledged by a majority, and its other replicas
  may lack the version. A change that keeps such a replica, alive and under an address of its own, does not copy to
  it, so that the verification fails once the start is logged: the chunk remains in transition, and
  every further change of it is refused.
\<close>

theorem reconfig_behind_replica_stuck:
  assumes inv: "coord_inv coord" and vis: "visits_all ord" "visits_all shuffle"
    and chunk: "get_chunk coord cid = Some e" and st: "ce_config_state e \<noteq> TRANSITIONING" and id: "id_ok cid"
    and old: "\<forall>r \<in> set (ce_replica_set e). entry_ok r" "length (ce_replica_set e) < 2 ^ 31 - 1"
    and alive: "\<forall>x \<in> set (get_alive_nodes ord coord). node_ok x \<and> CHR ''='' \<notin> set (ne_node_id x)" "length (node_table coord) < 2 ^ 31"
    and n: "n < 2 ^ 31" and t: "target_ids cfg shuffle (get_alive_nodes ord coord) (ce_replica_set e) n inc exc = Some ids"
    and kept: "r \<in> set (ce_replica_set e)" "extract_node_id r \<in> set ids"
    and node: "x \<in> set (get_alive_nodes ord coord)" "ne_node_id x = extract_node_id r"
      "\<forall>y \<in> set (get_alive_nodes ord coord). ne_address y = ne_address x \<longrightarrow> y = x"
    and behind: "\<not> serves R nodes (ne_address x) cid (ce_version e)"
    and start: "outcome RECONFIGURE_START (encode_reconfig_start cid (ce_replica_set e)
        (map (\<lambda>nid. encode_replica_entry nid (get_alive_nodes ord coord)) ids)) = Some i"
  shows "\<exists>coord' nodes' e'. reconfig R ord cfg shuffle up outcome clk cid n inc exc (coord, nodes) = Inr (False, coord', nodes') \<and>
    get_chunk coord' cid = Some e' \<and> ce_config_state e' = TRANSITIONING \<and>
    (\<forall>R' ord' cfg' shuffle' up' outcome' clk' n' inc' exc' nodes''.
       reconfig (R' :: 'db rocksdb_ops) ord' cfg' shuffle' up' outcome' clk' cid n' inc' exc' (coord', nodes'') = Inr (False, coord', nodes''))"
proof -
  let ?alive = "get_alive_nodes ord coord" and ?a = "ne_address x"
  define new_nodes where "new_nodes = map (\<lambda>nid. encode_replica_entry nid ?alive) ids"
  have al: "length ?alive < 2 ^ 31" using alive_length [OF vis(1), of coord] alive(2) by linarith
  note dis = alive_nodes_distinct [OF vis(1) inv]
  have sub: "set ids \<subseteq> extract_node_id ` set (ce_replica_set e) \<union> ne_node_id ` set ?alive"
    using target_ids_props [OF vis(2) dis al old(2) n t] by simp
  have ne: "ids \<noteq> []" "ce_replica_set e \<noteq> []" and nok: "\<forall>x \<in> set ?alive. node_ok x" using kept alive(1) by auto
  have ok: "replicas_ok (ce_replica_set e)" "replicas_ok new_nodes"
    using entry_ok_replicas [OF old(1) ne(2)] new_nodes_ok [OF nok old(1) sub ne(1)] by (simp_all add: new_nodes_def)
  have eq: "CHR ''='' \<notin> set nid" if "nid \<in> set ids" for nid using that sub alive(1) extract_no_eq by blast
  have find: "List.find (\<lambda>n. ne_node_id n = extract_node_id r) ?alive = Some x" using find_alive [OF vis(1) inv node(1)] node(2) by simp
  have addr: "extract_node_id dst \<in> extract_node_id ` set (ce_replica_set e) \<or> resolve_address dst ?alive \<noteq> ?a"
    if "dst \<in> set new_nodes" "?a \<noteq> []" for dst
  proof -
    obtain nid where nid: "nid \<in> set ids" "dst = encode_replica_entry nid ?alive" using \<open>dst \<in> set new_nodes\<close> by (auto simp: new_nodes_def)
    show ?thesis using nid eq [OF nid(1)] node that(2) kept(1) unfolding nid(2) resolve_encode [OF eq [OF nid(1)]] extract_encode [OF eq [OF nid(1)]]
      by (auto simp: find_Some_iff split: option.splits)
  qed
  have x: "encode_replica_entry (extract_node_id r) ?alive \<in> set new_nodes"
      "resolve_address (encode_replica_entry (extract_node_id r) ?alive) ?alive = ?a"
    using kept(2) find resolve_encode [OF extract_no_eq] by (auto simp: new_nodes_def)
  obtain copied nodes1 where cp: "copy_to_new_replicas R up ?alive cid (ce_version e) (ce_replica_set e) new_nodes nodes = (copied, nodes1)" by fastforce
  obtain verified nodes2 where vf: "verify_replicas R up ?alive cid (ce_version e) new_nodes nodes1 = (verified, nodes2)" by fastforce
  have "\<not> verified"
  proof
    assume verified
    then have same: "same_stores nodes1 nodes2" and all: "\<forall>d \<in> set new_nodes. resolve_address d ?alive \<noteq> [] \<and> serves R nodes2 (resolve_address d ?alive) cid (ce_version e)"
      using verify_replicas_ok [of R up ?alive cid "ce_version e" new_nodes nodes1 nodes2] vf by auto
    have s2: "?a \<noteq> []" "serves R nodes1 ?a cid (ce_version e)"
      using bspec [OF all x(1)] same_stores_serves [OF same, of R ?a cid "ce_version e"] unfolding x(2) by simp_all
    have "\<forall>dst \<in> set new_nodes. extract_node_id dst \<in> set (map extract_node_id (ce_replica_set e)) \<or> resolve_address dst ?alive \<noteq> ?a"
      using addr [OF _ s2(1)] by simp
    from copy_loop_skips [OF this, of R up "first_address (ce_replica_set e) ?alive" cid "ce_version e" nodes]
    have "map_option sn_store (um_find nodes1 ?a) = map_option sn_store (um_find nodes ?a)"
      using cp by (simp add: copy_to_new_replicas_def split: if_splits)
    then show False using s2(2) behind by (simp add: serves_def)
  qed
  then obtain ns where "reconfig R ord cfg shuffle up outcome clk cid n inc exc (coord, nodes) =
      Inr (False, apply_reconfig_start cid (ce_replica_set e) new_nodes coord, ns)"
    using reconfig_steps [OF chunk st refl t new_nodes_def id ok, of R up outcome clk nodes] start [folded new_nodes_def] cp vf
    by (cases copied) (auto simp: Let_def)
  then show ?thesis using chunk by (auto simp: reconfig_def)
qed

theorem reconfig_behind_replica_stuck_witness:
  "\<exists>coord' nodes' e'. reconfig mem_rocksdb (\<lambda>xs. xs) (default_placement_config\<lparr>random_placement := True\<rparr>) (\<lambda>xs. xs)
      (\<lambda>_. True) (\<lambda>_ _. Some 1) (\<lambda>_. 0) ''c'' 3 [] [] (demo_coord True, []) = Inr (False, coord', nodes') \<and>
     get_chunk coord' ''c'' = Some e' \<and> ce_config_state e' = TRANSITIONING"
proof -
  let ?alive = "get_alive_nodes (\<lambda>xs. xs) (demo_coord True)" and ?x = "demo_node ''n2'' ''h:2'' True"
  have al: "?alive = [demo_node ''n1'' ''h:1'' True, ?x, demo_node ''n3'' ''h:3'' True]"
    by (simp add: demo_coord_def demo_node_def get_alive_nodes_def um_values_def)
  have 1: "\<forall>x \<in> set ?alive. node_ok x \<and> CHR ''='' \<notin> set (ne_node_id x)" "?x \<in> set ?alive"
    "\<forall>y \<in> set ?alive. ne_address y = ne_address ?x \<longrightarrow> y = ?x" unfolding al by (simp_all add: demo_node_def node_ok_def replica_ok_def)
  have 2: "\<not> serves mem_rocksdb [] (ne_address ?x) ''c'' (ce_version demo_chunk)" by (simp add: serves_def)
  have 3: "''n2=h:2'' \<in> set (ce_replica_set demo_chunk)" "extract_node_id ''n2=h:2'' \<in> set [''n1'', ''n2'', ''n3'']"
    "ne_node_id ?x = extract_node_id ''n2=h:2''" by (simp_all add: demo_coord_facts extract_node_id_def demo_node_def)
  from reconfig_behind_replica_stuck [where 'db = mem_db and n = 3 and R = mem_rocksdb and outcome = "\<lambda>_ _. Some 1" and up = "\<lambda>_. True"
      and clk = "\<lambda>_. 0" and nodes = "[]", OF demo_coord_facts(1) visits_all_id visits_all_id demo_coord_facts(2) _
      demo_coord_facts(3,4) _ 1(1) _ _ demo_target 3(1,2) 1(2) 3(3) 1(3) 2 refl]
  show ?thesis by (auto simp: demo_coord_facts)
qed

text \<open>
  C23. When the copy phase of a change succeeds, every replica that is not in the old set holds, under
  the version the metadata records, the bytes of the newest version of the one source it copies from,
  the first old replica with an address; that version is at least the recorded one.
\<close>

theorem copy_delivers:
  assumes db: "rocksdb R" and wf: "peers_wf R nodes" and name: "name_ok cid" and ver: "version_ok v"
    and run: "copy_to_new_replicas R up alive cid v old new_nodes nodes = (True, nodes')" and old: "old \<noteq> []"
    and dst: "dst \<in> set new_nodes" "extract_node_id dst \<notin> extract_node_id ` set old"
  shows "\<exists>data vs. node_newest R nodes (first_address old alive) cid vs data \<and> v \<le> vs \<and>
    node_has R nodes' (resolve_address dst alive) cid v data"
proof -
  have loop: "copy_loop R up alive (map extract_node_id old) (first_address old alive) cid v new_nodes nodes = (True, nodes')"
    using run old by (simp add: copy_to_new_replicas_def)
  have dst2: "extract_node_id dst \<notin> set (map extract_node_id old)" using dst(2) by simp
  obtain data vs where src: "node_newest R nodes (first_address old alive) cid vs data" "v \<le> vs"
    using rocksdb.copy_loop_fetches [OF db loop dst(1) dst2 wf name] by blast
  have "\<forall>e \<in> set new_nodes. extract_node_id e \<notin> set (map extract_node_id old) \<longrightarrow> node_has R nodes' (resolve_address e alive) cid v data"
    using rocksdb.copy_loop_delivers [OF db loop wf name ver src] by blast
  then show ?thesis using src dst(1) dst2 by blast
qed

definition demo_nodes :: "(string, mem_db storage_node) umap" where
  "demo_nodes = [(''h:1'', \<lparr>sn_store = Some [(make_key ''a'' 3, ''old''), (make_key ''a'' 7, ''new''), (make_key ''b'' 9, ''x'')],
     sn_reporter = new_reporter\<rparr>), (''h:3'', \<lparr>sn_store = Some [], sn_reporter = new_reporter\<rparr>)]"

lemma demo_nodes_wf: "peers_wf mem_rocksdb demo_nodes"
proof -
  have "store_wf mem_rocksdb []" by (simp add: store_wf_def mem_rocksdb_def)
  then show ?thesis using demo_store by (auto simp: peers_wf_def demo_nodes_def split: if_splits)
qed

lemma demo_copy:
  "\<exists>nodes'. copy_to_new_replicas mem_rocksdb (\<lambda>_. True) [] ''a'' 7 [''n1=h:1''] [''n1=h:1'', ''n3=h:3''] demo_nodes = (True, nodes')"
proof -
  have ids: "extract_node_id ''n1=h:1'' = ''n1''" "extract_node_id ''n3=h:3'' = ''n3''"
    "resolve_address ''n1=h:1'' [] = ''h:1''" "resolve_address ''n3=h:3'' [] = ''h:3''"
    by (simp_all add: extract_node_id_def resolve_address_def)
  have abs: "store_abs mem_rocksdb [(make_key ''a'' 3, ''old''), (make_key ''a'' 7, ''new''), (make_key ''b'' 9, ''x'')] ''a'' 7 = Some ''new''"
    by (simp add: store_abs_def mem_rocksdb_def)
  have rd: "store_read mem_rocksdb ''a'' 7 (Some [(make_key ''a'' 3, ''old''), (make_key ''a'' 7, ''new''), (make_key ''b'' 9, ''x'')]) = Some (''new'', 7)"
    using mem.read_newest(1) [OF demo_store _ demo_newest, of 7] abs by (simp add: name_ok_def)
  obtain nodes1 where f: "fetch_assembled mem_rocksdb (\<lambda>_. True) ''h:1'' ''a'' 7 demo_nodes = (Some ''new'', nodes1)"
    using fetch_assembled_read [of mem_rocksdb "\<lambda>_. True" "''h:1''" "''a''" 7 demo_nodes] rd
    by (cases "fetch_assembled mem_rocksdb (\<lambda>_. True) ''h:1'' ''a'' 7 demo_nodes") (simp add: demo_nodes_def)
  have "same_stores demo_nodes nodes1"
    using fetch_assembled_stores [of demo_nodes mem_rocksdb "\<lambda>_. True" "''h:1''" "''a''" 7] f by simp
  then have "map_option sn_store (um_find demo_nodes ''h:3'') = map_option sn_store (um_find nodes1 ''h:3'')"
    unfolding same_stores_def by blast
  then have "map_option sn_store (um_find nodes1 ''h:3'') = Some (Some [])" by (simp add: demo_nodes_def)
  then have "fst (write_remote mem_rocksdb (\<lambda>_. True) ''h:3'' ''a'' 7 ''new'' nodes1)"
    by (auto simp: write_remote_def WriteChunk_def store_write_def mem_rocksdb_def mem_put_def split: option.split)
  then obtain nodes2 where "write_remote mem_rocksdb (\<lambda>_. True) ''h:3'' ''a'' 7 ''new'' nodes1 = (True, nodes2)"
    by (cases "write_remote mem_rocksdb (\<lambda>_. True) ''h:3'' ''a'' 7 ''new'' nodes1") auto
  then show ?thesis using f ids by (simp add: copy_to_new_replicas_def Let_def)
qed

theorem copy_delivers_witness:
  "\<exists>nodes'. copy_to_new_replicas mem_rocksdb (\<lambda>_. True) [] ''a'' 7 [''n1=h:1''] [''n1=h:1'', ''n3=h:3''] demo_nodes = (True, nodes') \<and>
     (\<exists>data vs. node_newest mem_rocksdb demo_nodes ''h:1'' ''a'' vs data \<and> 7 \<le> vs \<and> node_has mem_rocksdb nodes' ''h:3'' ''a'' 7 data)"
proof -
  obtain nodes' where run: "copy_to_new_replicas mem_rocksdb (\<lambda>_. True) [] ''a'' 7 [''n1=h:1''] [''n1=h:1'', ''n3=h:3''] demo_nodes = (True, nodes')"
    using demo_copy by blast
  from copy_delivers [OF mem.rocksdb_axioms demo_nodes_wf _ _ run, of "''n3=h:3''"] run
  show ?thesis by (simp add: name_ok_def version_ok_def extract_node_id_def resolve_address_def)
qed

end
