(* ===== verification/Policy.thy ===== *)
theory Policy
  imports Cxx_Float
begin

text \<open>
  The adaptive replication policy, \<^verbatim>\<open>src/meta/policy.{h,cpp}\<close>: access counts per chunk, a rate
  per evaluation window, a tier per chunk with hysteresis. \<^verbatim>\<open>std::exp\<close> is a parameter and
  \<^verbatim>\<open>unix_ms()\<close> an argument.
\<close>

section \<open>Model\<close>

datatype chunk_tier = COLD | WARM | HOT

text \<open>The comparisons of the enumeration are on its values.\<close>

fun tier_rank :: "chunk_tier \<Rightarrow> nat" where
  "tier_rank COLD = 0"
| "tier_rank WARM = 1"
| "tier_rank HOT = 2"

instantiation chunk_tier :: linorder
begin

definition less_eq_chunk_tier :: "chunk_tier \<Rightarrow> chunk_tier \<Rightarrow> bool" where
  "less_eq_chunk_tier a b \<longleftrightarrow> tier_rank a \<le> tier_rank b"

definition less_chunk_tier :: "chunk_tier \<Rightarrow> chunk_tier \<Rightarrow> bool" where
  "less_chunk_tier a b \<longleftrightarrow> tier_rank a < tier_rank b"

instance
proof
  fix a b :: chunk_tier
  show "a \<le> b \<Longrightarrow> b \<le> a \<Longrightarrow> a = b" by (cases a; cases b) (simp_all add: less_eq_chunk_tier_def)
qed (auto simp: less_eq_chunk_tier_def less_chunk_tier_def)

end

record policy_config =
  cold_threshold :: float64
  hot_threshold :: float64
  cold_rf :: int
  warm_rf :: int
  hot_rf :: int
  ewma_half_life_s :: float64
  promote_windows :: int
  demote_windows :: int

definition default_policy_config :: policy_config where
  "default_policy_config = \<lparr>cold_threshold = fl64 (1 / 10), hot_threshold = 1, cold_rf = 2, warm_rf = 3,
     hot_rf = 5, ewma_half_life_s = 60, promote_windows = 3, demote_windows = 5\<rparr>"

record chunk_access_state =
  ewma_rate :: float64
  last_window_rate :: float64
  last_update_ms :: u64
  windows_above :: int
  windows_below :: int
  tier :: chunk_tier
  pending_count :: u64
  last_eval_ms :: u64

definition new_access_state :: chunk_access_state where
  "new_access_state = \<lparr>ewma_rate = 0, last_window_rate = 0, last_update_ms = 0, windows_above = 0,
     windows_below = 0, tier = WARM, pending_count = 0, last_eval_ms = 0\<rparr>"

record policy_decision =
  pd_chunk_id :: string
  pd_new_rf :: int
  pd_new_tier :: chunk_tier
  pd_changed :: bool

type_synonym policy_state = "(string, chunk_access_state) umap"

text \<open>\<^verbatim>\<open>state_[chunk_id]\<close>: a missing entry is created with the default values.\<close>

definition access_state :: "policy_state \<Rightarrow> string \<Rightarrow> chunk_access_state" where
  "access_state st cid = (case um_find st cid of Some s \<Rightarrow> s | None \<Rightarrow> new_access_state)"

definition record_accesses :: "string \<Rightarrow> u64 \<Rightarrow> u64 \<Rightarrow> policy_state \<Rightarrow> policy_state" where
  "record_accesses cid cnt window_ms st =
     (let s = access_state st cid in um_assign cid (s\<lparr>pending_count := pending_count s + cnt\<rparr>) st)"

definition classify :: "policy_config \<Rightarrow> float64 \<Rightarrow> chunk_tier" where
  "classify cfg rate = (if hot_threshold cfg < rate then HOT
     else if cold_threshold cfg \<le> rate then WARM else COLD)"

fun rf_for_tier :: "policy_config \<Rightarrow> chunk_tier \<Rightarrow> int" where
  "rf_for_tier cfg HOT = hot_rf cfg"
| "rf_for_tier cfg WARM = warm_rf cfg"
| "rf_for_tier cfg COLD = cold_rf cfg"

definition elapsed_seconds :: "u64 \<Rightarrow> chunk_access_state \<Rightarrow> float64" where
  "elapsed_seconds now s = (if 0 < last_eval_ms s
     then max (fl64 (1 / 10)) (fl64 (fl64 (of_nat (unat (now - last_eval_ms s))) / 1000))
     else 2)"

text \<open>The hysteresis: the counters and the tier after a window that asks for \<open>desired\<close>.\<close>

definition hysteresis :: "policy_config \<Rightarrow> chunk_tier \<Rightarrow> chunk_access_state \<Rightarrow> bool \<times> chunk_access_state" where
  "hysteresis cfg desired s =
     (if tier s < desired then
        (let s1 = s\<lparr>windows_above := windows_above s + 1, windows_below := 0\<rparr> in
         if promote_windows cfg \<le> windows_above s1
         then (True, s1\<lparr>tier := desired, windows_above := 0\<rparr>) else (False, s1))
      else if desired < tier s then
        (let s1 = s\<lparr>windows_below := windows_below s + 1, windows_above := 0\<rparr> in
         if demote_windows cfg \<le> windows_below s1
         then (True, s1\<lparr>tier := desired, windows_below := 0\<rparr>) else (False, s1))
      else (False, s\<lparr>windows_above := 0, windows_below := 0\<rparr>))"

definition evaluate :: "policy_config \<Rightarrow> (float64 \<Rightarrow> float64) \<Rightarrow> u64 \<Rightarrow> string \<Rightarrow> policy_state \<Rightarrow>
     policy_decision \<times> policy_state" where
  "evaluate cfg exp_fn now cid st =
     (let s = access_state st cid;
          elapsed_s = elapsed_seconds now s;
          window_rate = fl64 (fl64 (of_nat (unat (pending_count s))) / elapsed_s);
          alpha = fl64 (1 - exp_fn (fl64 (- elapsed_s / ewma_half_life_s cfg)));
          s1 = s\<lparr>last_window_rate := window_rate,
                 ewma_rate := (if last_update_ms s = 0 then window_rate
                   else fl64 (fl64 (alpha * window_rate) + fl64 (fl64 (1 - alpha) * ewma_rate s))),
                 last_update_ms := now, last_eval_ms := now, pending_count := 0\<rparr>;
          desired_tier = classify cfg window_rate;
          (changed, s2) = hysteresis cfg desired_tier s1
      in (\<lparr>pd_chunk_id = cid, pd_new_rf = rf_for_tier cfg desired_tier, pd_new_tier = desired_tier,
           pd_changed = changed\<rparr>, um_assign cid s2 st))"

definition get_rate :: "policy_state \<Rightarrow> string \<Rightarrow> float64" where
  "get_rate st cid = (case um_find st cid of Some s \<Rightarrow> ewma_rate s | None \<Rightarrow> 0)"

section \<open>Hysteresis\<close>

text \<open>
  What the counters of a chunk mean, against the tiers the windows so far asked for (newest
  first): the last \<open>windows_above\<close> windows asked for more than the tier, the last
  \<open>windows_below\<close> for less, and neither counter has reached its limit.
\<close>

definition streak :: "policy_config \<Rightarrow> chunk_tier list \<Rightarrow> chunk_access_state \<Rightarrow> bool" where
  "streak cfg ds s \<longleftrightarrow>
     0 \<le> windows_above s \<and> windows_above s < promote_windows cfg \<and> nat (windows_above s) \<le> length ds \<and>
     0 \<le> windows_below s \<and> windows_below s < demote_windows cfg \<and> nat (windows_below s) \<le> length ds \<and>
     (\<forall>d \<in> set (take (nat (windows_above s)) ds). tier s < d) \<and>
     (\<forall>d \<in> set (take (nat (windows_below s)) ds). d < tier s)"

lemma streak_new:
  "0 < promote_windows cfg \<Longrightarrow> 0 < demote_windows cfg \<Longrightarrow> streak cfg [] new_access_state"
  by (simp add: streak_def new_access_state_def)

lemma hysteresis_fields [simp]:
  "pending_count (snd (hysteresis cfg d s)) = pending_count s"
  "last_eval_ms (snd (hysteresis cfg d s)) = last_eval_ms s"
  by (simp_all add: hysteresis_def Let_def)

lemma hysteresis_streak:
  assumes st: "streak cfg ds s" and pos: "0 < promote_windows cfg" "0 < demote_windows cfg"
    and h: "hysteresis cfg d s = (changed, s')"
  shows "streak cfg (d # ds) s'"
    and "changed \<longleftrightarrow> tier s' \<noteq> tier s"
    and "changed \<Longrightarrow> tier s' = d \<and>
      (tier s < d \<and> nat (promote_windows cfg) \<le> length (d # ds) \<and>
         (\<forall>x \<in> set (take (nat (promote_windows cfg)) (d # ds)). tier s < x) \<or>
       d < tier s \<and> nat (demote_windows cfg) \<le> length (d # ds) \<and>
         (\<forall>x \<in> set (take (nat (demote_windows cfg)) (d # ds)). x < tier s))"
proof -
  consider (up) "tier s < d" | (down) "d < tier s" | (same) "tier s = d" by (meson linorder_cases)
  then have "streak cfg (d # ds) s' \<and> (changed \<longleftrightarrow> tier s' \<noteq> tier s) \<and> (changed \<longrightarrow> tier s' = d \<and>
      (tier s < d \<and> nat (promote_windows cfg) \<le> length (d # ds) \<and>
         (\<forall>x \<in> set (take (nat (promote_windows cfg)) (d # ds)). tier s < x) \<or>
       d < tier s \<and> nat (demote_windows cfg) \<le> length (d # ds) \<and>
         (\<forall>x \<in> set (take (nat (demote_windows cfg)) (d # ds)). x < tier s)))"
  proof cases
    case up
    have n: "nat (windows_above s + 1) = Suc (nat (windows_above s))" using st by (auto simp: streak_def nat_add_distrib)
    show ?thesis
    proof (cases "promote_windows cfg \<le> windows_above s + 1")
      case True
      then have "promote_windows cfg = windows_above s + 1" using st by (simp add: streak_def)
      then show ?thesis using h up True st n pos by (auto simp: hysteresis_def streak_def Let_def)
    next
      case False
      then show ?thesis using h up st n pos by (auto simp: hysteresis_def streak_def Let_def)
    qed
  next
    case down
    then have nup: "\<not> tier s < d" by (simp add: not_less order.strict_implies_order)
    have n: "nat (windows_below s + 1) = Suc (nat (windows_below s))" using st by (auto simp: streak_def nat_add_distrib)
    show ?thesis
    proof (cases "demote_windows cfg \<le> windows_below s + 1")
      case True
      then have "demote_windows cfg = windows_below s + 1" using st by (simp add: streak_def)
      then show ?thesis using h down nup True st n pos by (auto simp: hysteresis_def streak_def Let_def)
    next
      case False
      then show ?thesis using h down nup st n pos by (auto simp: hysteresis_def streak_def Let_def)
    qed
  next
    case same
    then show ?thesis using h pos by (auto simp: hysteresis_def streak_def)
  qed
  then show "streak cfg (d # ds) s'" and "changed \<longleftrightarrow> tier s' \<noteq> tier s"
    and "changed \<Longrightarrow> tier s' = d \<and>
      (tier s < d \<and> nat (promote_windows cfg) \<le> length (d # ds) \<and>
         (\<forall>x \<in> set (take (nat (promote_windows cfg)) (d # ds)). tier s < x) \<or>
       d < tier s \<and> nat (demote_windows cfg) \<le> length (d # ds) \<and>
         (\<forall>x \<in> set (take (nat (demote_windows cfg)) (d # ds)). x < tier s))"
    by blast+
qed

section \<open>Runs of the policy\<close>

datatype policy_event = Pe_access string u64 u64 | Pe_evaluate string u64

text \<open>The state of the policy with, per chunk, the tiers its evaluations asked for, newest first.\<close>

fun policy_step :: "policy_config \<Rightarrow> (float64 \<Rightarrow> float64) \<Rightarrow> policy_event \<Rightarrow>
     policy_state \<times> (string \<Rightarrow> chunk_tier list) \<Rightarrow> policy_state \<times> (string \<Rightarrow> chunk_tier list)" where
  "policy_step cfg exp_fn (Pe_access cid n window) (st, hist) = (record_accesses cid n window st, hist)"
| "policy_step cfg exp_fn (Pe_evaluate cid now) (st, hist) =
     (let (d, st') = evaluate cfg exp_fn now cid st in (st', hist(cid := pd_new_tier d # hist cid)))"

definition policy_run :: "policy_config \<Rightarrow> (float64 \<Rightarrow> float64) \<Rightarrow> policy_event list \<Rightarrow>
     policy_state \<times> (string \<Rightarrow> chunk_tier list)" where
  "policy_run cfg exp_fn evs = fold (policy_step cfg exp_fn) evs ([], \<lambda>_. [])"

lemma access_state_assign [simp]:
  "access_state (um_assign c s st) cid = (if cid = c then s else access_state st cid)"
  by (simp add: access_state_def)

lemma streak_cong:
  "windows_above s = windows_above s' \<Longrightarrow> windows_below s = windows_below s' \<Longrightarrow> tier s = tier s' \<Longrightarrow>
    streak cfg ds s = streak cfg ds s'"
  by (simp add: streak_def)

lemma cold_least: "\<not> x < COLD" "COLD < x \<longleftrightarrow> x \<noteq> COLD"
  by (cases x; simp add: less_chunk_tier_def)+

text \<open>An evaluation without accesses asks for COLD.\<close>

lemma evaluate_idle:
  assumes e: "evaluate cfg exp_fn now cid st = (d, st')" and thr: "0 < cold_threshold cfg" "0 \<le> hot_threshold cfg"
    and idle: "pending_count (access_state st cid) = 0"
  shows "pd_new_tier d = COLD"
proof -
  have "pd_new_tier d = classify cfg (fl64 (fl64 (of_nat (unat (pending_count (access_state st cid)))) /
      elapsed_seconds now (access_state st cid)))"
    using e by (auto simp: evaluate_def Let_def split: prod.splits)
  then show ?thesis using idle thr by (simp add: classify_def)
qed

text \<open>An evaluation is a step of the hysteresis on a state with the same counters and tier.\<close>

lemma evaluate_hysteresis:
  assumes "evaluate cfg exp_fn now cid st = (d, st')"
  shows "\<exists>s1. hysteresis cfg (pd_new_tier d) s1 = (pd_changed d, access_state st' cid) \<and>
    windows_above s1 = windows_above (access_state st cid) \<and> windows_below s1 = windows_below (access_state st cid) \<and>
    tier s1 = tier (access_state st cid) \<and> pending_count s1 = 0 \<and>
    pd_new_rf d = rf_for_tier cfg (pd_new_tier d) \<and>
    (\<forall>c. c \<noteq> cid \<longrightarrow> access_state st' c = access_state st c)"
proof -
  define s where "s = access_state st cid"
  define rate where "rate = fl64 (fl64 (of_nat (unat (pending_count s))) / elapsed_seconds now s)"
  define s1 where "s1 = s\<lparr>last_window_rate := rate,
     ewma_rate := (if last_update_ms s = 0 then rate
       else fl64 (fl64 (fl64 (1 - exp_fn (fl64 (- elapsed_seconds now s / ewma_half_life_s cfg))) * rate) +
         fl64 (fl64 (1 - fl64 (1 - exp_fn (fl64 (- elapsed_seconds now s / ewma_half_life_s cfg)))) * ewma_rate s))),
     last_update_ms := now, last_eval_ms := now, pending_count := 0\<rparr>"
  obtain changed s2 where h: "hysteresis cfg (classify cfg rate) s1 = (changed, s2)" by fastforce
  have "evaluate cfg exp_fn now cid st = (\<lparr>pd_chunk_id = cid, pd_new_rf = rf_for_tier cfg (classify cfg rate),
      pd_new_tier = classify cfg rate, pd_changed = changed\<rparr>, um_assign cid s2 st)"
    by (simp only: evaluate_def Let_def s_def [symmetric] rate_def [symmetric] s1_def [symmetric] h prod.case)
  then have d: "d = \<lparr>pd_chunk_id = cid, pd_new_rf = rf_for_tier cfg (classify cfg rate),
      pd_new_tier = classify cfg rate, pd_changed = changed\<rparr>" and st': "st' = um_assign cid s2 st"
    using assms by simp_all
  show ?thesis using h by (intro exI [of _ s1]) (simp add: d st' s1_def s_def)
qed

lemma policy_run_streak:
  assumes pos: "0 < promote_windows cfg" "0 < demote_windows cfg"
  shows "policy_run cfg exp_fn evs = (st, hist) \<Longrightarrow> streak cfg (hist cid) (access_state st cid)"
  unfolding policy_run_def
proof (induction evs arbitrary: st hist cid rule: rev_induct)
  case Nil
  then show ?case using streak_new [OF pos] by (auto simp: access_state_def)
next
  case (snoc ev evs)
  obtain st0 hist0 where run: "fold (policy_step cfg exp_fn) evs ([], \<lambda>_. []) = (st0, hist0)" by fastforce
  note IH = snoc.IH [OF run]
  have step: "policy_step cfg exp_fn ev (st0, hist0) = (st, hist)" using snoc.prems run by simp
  show ?case
  proof (cases ev)
    case (Pe_access c n w)
    then show ?thesis using IH [of cid] step by (auto simp: record_accesses_def Let_def streak_def)
  next
    case (Pe_evaluate c now)
    obtain d st1 where e: "evaluate cfg exp_fn now c st0 = (d, st1)" by fastforce
    have st: "st = st1" and hist: "hist = hist0(c := pd_new_tier d # hist0 c)"
      using step Pe_evaluate e by auto
    obtain s1 where s1: "hysteresis cfg (pd_new_tier d) s1 = (pd_changed d, access_state st1 c)"
        "windows_above s1 = windows_above (access_state st0 c)" "windows_below s1 = windows_below (access_state st0 c)"
        "tier s1 = tier (access_state st0 c)" "\<forall>x. x \<noteq> c \<longrightarrow> access_state st1 x = access_state st0 x"
      using evaluate_hysteresis [OF e] by blast
    have "streak cfg (hist0 c) s1" using IH [of c] streak_cong [OF s1(2-4)] by simp
    then have "streak cfg (pd_new_tier d # hist0 c) (access_state st1 c)"
      using hysteresis_streak(1) [OF _ pos s1(1)] by blast
    then show ?thesis using IH [of cid] s1(5) by (simp add: st hist)
  qed
qed

section \<open>Properties\<close>

text \<open>
  C28. Hysteresis: when an evaluation changes a chunk's tier, the decision carries the new tier and
  its replication factor, and either all of the last \<^verbatim>\<open>promote_windows\<close> evaluations asked for
  more than the old tier or all of the last \<^verbatim>\<open>demote_windows\<close> ones for less.
\<close>

theorem tier_change_after_streak:
  assumes pos: "0 < promote_windows cfg" "0 < demote_windows cfg"
    and run: "policy_run cfg exp_fn evs = (st, hist)" and ev: "evaluate cfg exp_fn now cid st = (d, st')"
    and ch: "pd_changed d"
  shows "tier (access_state st' cid) = pd_new_tier d \<and> pd_new_rf d = rf_for_tier cfg (pd_new_tier d) \<and>
    (let old = tier (access_state st cid); asked = pd_new_tier d # hist cid in
     old < pd_new_tier d \<and> nat (promote_windows cfg) \<le> length asked \<and>
       (\<forall>x \<in> set (take (nat (promote_windows cfg)) asked). old < x) \<or>
     pd_new_tier d < old \<and> nat (demote_windows cfg) \<le> length asked \<and>
       (\<forall>x \<in> set (take (nat (demote_windows cfg)) asked). x < old))"
proof -
  obtain s1 where s1: "hysteresis cfg (pd_new_tier d) s1 = (pd_changed d, access_state st' cid)"
      "windows_above s1 = windows_above (access_state st cid)" "windows_below s1 = windows_below (access_state st cid)"
      "tier s1 = tier (access_state st cid)" "pd_new_rf d = rf_for_tier cfg (pd_new_tier d)"
    using evaluate_hysteresis [OF ev] by blast
  have "streak cfg (hist cid) s1" using policy_run_streak [OF pos run, of cid] streak_cong [OF s1(2-4)] by simp
  from hysteresis_streak(3) [OF this pos s1(1) ch] show ?thesis using s1(4,5) by (simp add: Let_def)
qed

text \<open>A policy with a single demotion window, for concrete runs.\<close>

definition eager_config :: policy_config where
  "eager_config = default_policy_config\<lparr>cold_threshold := 1 / 8, demote_windows := 1\<rparr>"

lemma eager_config_simps [simp]:
  "cold_threshold eager_config = 1 / 8" "hot_threshold eager_config = 1" "demote_windows eager_config = 1"
  "promote_windows eager_config = 3" "cold_rf eager_config = 2"
  by (simp_all add: eager_config_def default_policy_config_def)

lemma demo_evaluate:
  "\<exists>d st'. evaluate eager_config (\<lambda>x. x) 5 ''c'' [] = (d, st') \<and> pd_changed d \<and> pd_new_tier d = COLD"
  by (simp add: evaluate_def access_state_def new_access_state_def elapsed_seconds_def classify_def hysteresis_def
      less_chunk_tier_def Let_def)

theorem tier_change_after_streak_witness:
  "\<exists>d st'. evaluate eager_config (\<lambda>x. x) 5 ''c'' [] = (d, st') \<and>
     tier (access_state st' ''c'') = COLD \<and> pd_new_rf d = 2"
proof -
  obtain d st' where e: "evaluate eager_config (\<lambda>x. x) 5 ''c'' [] = (d, st')" "pd_changed d" "pd_new_tier d = COLD"
    using demo_evaluate by blast
  have "policy_run eager_config (\<lambda>x. x) [] = ([], \<lambda>_. [])" by (simp add: policy_run_def)
  from tier_change_after_streak [OF _ _ this e(1,2)] show ?thesis using e by auto
qed

text \<open>
  A chunk nobody accesses cools down: after \<^verbatim>\<open>demote_windows\<close> evaluations without an access
  its tier is COLD, whatever the clock readings.
\<close>

theorem idle_chunk_becomes_cold:
  assumes thr: "0 < cold_threshold cfg" "0 \<le> hot_threshold cfg" and pos: "0 < demote_windows cfg"
    and idle: "pending_count (access_state st cid) = 0" and below: "0 \<le> windows_below (access_state st cid)"
    and n: "int (length nows) = demote_windows cfg"
  shows "tier (access_state (fold (\<lambda>now st. snd (evaluate cfg exp_fn now cid st)) nows st) cid) = COLD"
proof -
  have "pending_count s = 0 \<and> 0 \<le> windows_below s \<and>
      (tier s = COLD \<or> int (length ns) \<le> windows_below s \<and> (ns = [] \<or> windows_below s < demote_windows cfg))"
    if "s = access_state (fold (\<lambda>now st. snd (evaluate cfg exp_fn now cid st)) ns st) cid" for s ns
    using that
  proof (induction ns arbitrary: s rule: rev_induct)
    case Nil
    then show ?case using idle below by simp
  next
    case (snoc now ns)
    define st0 where "st0 = fold (\<lambda>now st. snd (evaluate cfg exp_fn now cid st)) ns st"
    obtain d st1 where e: "evaluate cfg exp_fn now cid st0 = (d, st1)" by fastforce
    have s: "s = access_state st1 cid" using snoc.prems e by (simp add: st0_def)
    note IH = snoc.IH [OF refl, folded st0_def]
    have cold: "pd_new_tier d = COLD" using evaluate_idle [OF e thr] IH by simp
    obtain s1 where s1: "hysteresis cfg COLD s1 = (pd_changed d, s)"
        "windows_below s1 = windows_below (access_state st0 cid)" "tier s1 = tier (access_state st0 cid)"
        "pending_count s1 = 0"
      using evaluate_hysteresis [OF e] cold s by auto
    show ?case using IH s1 pos by (auto simp: hysteresis_def cold_least Let_def split: if_splits)
  qed
  from this [OF refl, of nows] n pos show ?thesis by auto
qed

theorem idle_chunk_becomes_cold_witness:
  "tier (access_state (fold (\<lambda>now st. snd (evaluate eager_config (\<lambda>x. x) now ''c'' st)) [7] []) ''c'') = COLD"
  using idle_chunk_becomes_cold [of eager_config "[]" "''c''" "[7]" "\<lambda>x. x"]
  by (simp add: access_state_def new_access_state_def)

lemma policy_run_wf: "um_wf (fst (policy_run cfg exp_fn evs))"
proof -
  have "um_wf (fst (policy_step cfg exp_fn ev p))" if "um_wf (fst p)" for ev p
    using that by (cases "(cfg, exp_fn, ev, p)" rule: policy_step.cases)
      (auto simp: record_accesses_def evaluate_def Let_def split: prod.split)
  then have "um_wf (fst (fold (policy_step cfg exp_fn) evs p))" if "um_wf (fst p)" for p
    using that by (induction evs arbitrary: p) auto
  then show ?thesis by (simp add: policy_run_def)
qed

text \<open>
  C30. The state of the policy keeps its types: after any accesses and evaluations there is one entry
  for a chunk, its two counters lie between zero and the configured number of windows, so that the
  \<^verbatim>\<open>int\<close> increments of an evaluation never overflow, and at most one of them is running.
\<close>

theorem policy_counters_typed:
  assumes pos: "0 < promote_windows cfg" "0 < demote_windows cfg" and cfg: "int32 (promote_windows cfg)" "int32 (demote_windows cfg)"
    and run: "policy_run cfg exp_fn evs = (st, hist)"
  shows "distinct (map fst st) \<and> (\<forall>(cid, s) \<in> set st. 0 \<le> windows_above s \<and> windows_above s < promote_windows cfg \<and>
    0 \<le> windows_below s \<and> windows_below s < demote_windows cfg \<and> int32 (windows_above s + 1) \<and> int32 (windows_below s + 1) \<and>
    (windows_above s = 0 \<or> windows_below s = 0))"
proof -
  have wf: "um_wf st" using policy_run_wf [of cfg exp_fn evs] run by simp
  have "0 \<le> windows_above s \<and> windows_above s < promote_windows cfg \<and> 0 \<le> windows_below s \<and> windows_below s < demote_windows cfg \<and>
      int32 (windows_above s + 1) \<and> int32 (windows_below s + 1) \<and> (windows_above s = 0 \<or> windows_below s = 0)"
    if "(cid, s) \<in> set st" for cid s
  proof -
    have "um_find st cid = Some s" using um_find_Some_iff [OF wf] that by blast
    then have st: "streak cfg (hist cid) s" using policy_run_streak [OF pos run, of cid] by (simp add: access_state_def)
    have "windows_above s = 0 \<or> windows_below s = 0"
    proof (rule ccontr)
      assume "\<not> ?thesis"
      then have "0 < nat (windows_above s)" "0 < nat (windows_below s)" using st by (auto simp: streak_def)
      then obtain a b where ab: "nat (windows_above s) = Suc a" "nat (windows_below s) = Suc b" by (meson gr0_implies_Suc)
      then obtain d ds where h: "hist cid = d # ds" using st by (cases "hist cid") (auto simp: streak_def)
      then have "tier s < d" "d < tier s" using st ab by (simp_all add: streak_def)
      then show False by simp
    qed
    then show ?thesis using st cfg by (auto simp: streak_def int32_def)
  qed
  then show ?thesis using wf by (auto simp: um_wf_def)
qed

theorem policy_counters_typed_witness:
  "list_all (\<lambda>(cid, s). windows_below s < 1) (fst (policy_run eager_config (\<lambda>x. x) [Pe_access ''c'' 3 200, Pe_evaluate ''c'' 5]))"
proof -
  obtain st hist where run: "policy_run eager_config (\<lambda>x. x) [Pe_access ''c'' 3 200, Pe_evaluate ''c'' 5] = (st, hist)" by fastforce
  have "\<forall>(cid, s) \<in> set st. windows_below s < demote_windows eager_config"
    using policy_counters_typed [OF _ _ _ _ run] by (fastforce simp: int32_def)
  then show ?thesis using run by (auto simp: list_all_iff)
qed

end
