(* ===== verification/Meta_Rpc.thy ===== *)
theory Meta_Rpc
  imports Reconfig_Driver Policy
begin

text \<open>
  The handlers clients and storage nodes call, \<^verbatim>\<open>MetaRpcService\<close> of
  \<^verbatim>\<open>src/meta/meta_rpc.{h,cpp}\<close>. A handler runs on the metadata tables, the policy's access
  counts and the storage nodes it calls. What it cannot know is gathered in a record: how hash
  tables and \<^verbatim>\<open>std::shuffle\<close> arrange things, which addresses answer, and at which index, if at
  all, a write to the replicated log succeeds. A handler that is left by an exception gives
  \<open>Inl\<close>; an error response is an \<open>Inl\<close> inside the response.
\<close>

section \<open>Service and surroundings\<close>

text \<open>The members of the service object: whether the three pointers are set, and its \<^verbatim>\<open>NodeConfig\<close>.\<close>

record rpc_service =
  rs_repl :: bool
  rs_policy :: bool
  rs_reconfig :: bool
  rs_mode :: string
  rs_address :: string
  rs_peers :: "string list"
  rs_heartbeat_interval_ms :: u32

record 'db rpc_env =
  env_db :: "'db rocksdb_ops"
  env_ord :: "node_entry list \<Rightarrow> node_entry list"
  env_ord_chunks :: "chunk_entry list \<Rightarrow> chunk_entry list"
  env_shuffle :: "node_entry list \<Rightarrow> node_entry list"
  env_up :: "string \<Rightarrow> bool"
  env_outcome :: "wal_entry_type \<Rightarrow> string \<Rightarrow> u64 option"
  env_clk :: "u64 \<Rightarrow> u64"

record 'db rpc_state =
  st_coord :: coordinator
  st_policy :: policy_state
  st_nodes :: "(string, 'db storage_node) umap"

section \<open>Replica entries\<close>

definition strip_node_id :: "string \<Rightarrow> string" where
  "strip_node_id entry = (case find_char CHR ''='' entry of Some eq \<Rightarrow> take eq entry | None \<Rightarrow> entry)"

text \<open>This file's own copy of \<^verbatim>\<open>resolve_replica_address\<close>.\<close>

definition rpc_replica_address :: "(node_entry list \<Rightarrow> node_entry list) \<Rightarrow> coordinator \<Rightarrow> string \<Rightarrow> string" where
  "rpc_replica_address ord coord entry = (case find_char CHR ''='' entry of
     Some eq \<Rightarrow> drop (eq + 1) entry
   | None \<Rightarrow> (case List.find (\<lambda>n. ne_node_id n = entry) (get_alive_nodes ord coord) of
       Some n \<Rightarrow> ne_address n | None \<Rightarrow> []))"

definition encode_replica_target :: "(node_entry list \<Rightarrow> node_entry list) \<Rightarrow> coordinator \<Rightarrow> string \<Rightarrow> string" where
  "encode_replica_target ord coord node_id_or_entry =
     (if find_char CHR ''='' node_id_or_entry \<noteq> None then node_id_or_entry
      else case List.find (\<lambda>n. ne_node_id n = node_id_or_entry) (get_alive_nodes ord coord) of
             Some n \<Rightarrow> node_id_or_entry @ ''='' @ ne_address n
           | None \<Rightarrow> node_id_or_entry)"

definition has_replica_node :: "chunk_entry \<Rightarrow> string \<Rightarrow> bool" where
  "has_replica_node entry node_id = list_ex (\<lambda>e. extract_node_id e = node_id) (ce_replica_set entry)"

section \<open>Calls to storage nodes\<close>

definition write_chunk_to_replica :: "'db rocksdb_ops \<Rightarrow> (string \<Rightarrow> bool) \<Rightarrow> string \<Rightarrow> string \<Rightarrow> u64 \<Rightarrow> string \<Rightarrow>
     (string, 'db storage_node) umap \<Rightarrow> bool \<times> (string, 'db storage_node) umap" where
  "write_chunk_to_replica R up addr cid version data nodes =
     (if addr = [] then (False, nodes)
      else case um_find nodes addr of
             None \<Rightarrow> (False, nodes)
           | Some sn \<Rightarrow> if \<not> up addr then (False, nodes)
                        else (let (ok, sn1) = WriteChunk R cid version data sn in (ok, um_assign addr sn1 nodes)))"

definition delete_chunk_from_replica :: "'db rocksdb_ops \<Rightarrow> (string \<Rightarrow> bool) \<Rightarrow> string \<Rightarrow> string \<Rightarrow>
     (string, 'db storage_node) umap \<Rightarrow> (string, 'db storage_node) umap" where
  "delete_chunk_from_replica R up addr cid nodes =
     (if addr = [] then nodes
      else case um_find nodes addr of
             None \<Rightarrow> nodes
           | Some sn \<Rightarrow> if \<not> up addr then nodes else um_assign addr (snd (DeleteChunkData R cid sn)) nodes)"

section \<open>Putting a chunk\<close>

text \<open>
  The loop over the selected nodes: the replica entries, the addresses that took the data, the ids
  of those that did not, and the storage nodes after it.
\<close>

fun put_loop :: "'db rpc_env \<Rightarrow> coordinator \<Rightarrow> string \<Rightarrow> u64 \<Rightarrow> string \<Rightarrow> string list \<Rightarrow>
     (string, 'db storage_node) umap \<Rightarrow> string list \<times> string list \<times> string \<times> (string, 'db storage_node) umap" where
  "put_loop env coord cid version data [] nodes = ([], [], [], nodes)"
| "put_loop env coord cid version data (n # ns) nodes =
     (let entry = encode_replica_target (env_ord env) coord n;
          addr = rpc_replica_address (env_ord env) coord entry;
          (ok, nodes1) = write_chunk_to_replica (env_db env) (env_up env) addr cid version data nodes;
          (entries, addrs, failed, nodes2) = put_loop env coord cid version data ns nodes1
      in (entry # entries, if ok then addr # addrs else addrs,
          if ok then failed else strip_node_id entry @ '';'' @ failed, nodes2))"

text \<open>A response to a put: an error text, or the version and the replica set.\<close>

type_synonym put_resp = "string + u64 \<times> string list"

definition PutChunk :: "rpc_service \<Rightarrow> 'db rpc_env \<Rightarrow> string \<Rightarrow> u64 \<Rightarrow> int \<Rightarrow> string \<Rightarrow> 'db rpc_state \<Rightarrow>
     (cxx_exc + put_resp) \<times> 'db rpc_state" where
  "PutChunk svc env cid size_bytes desired_rf data s =
     (let coord = st_coord s in
      if \<not> rs_repl svc then (Inr (Inl ''NotLeader''), s)
      else if (case get_chunk coord cid of Some e \<Rightarrow> ce_config_state e = TRANSITIONING | None \<Rightarrow> False)
      then (Inr (Inl ''ChunkTransitioning''), s)
      else let pcfg = default_placement_config\<lparr>random_placement := (rs_mode svc = ''baseline'')\<rparr>;
               alive = get_alive_nodes (env_ord env) coord;
               nodes = select_nodes pcfg (env_shuffle env) desired_rf alive []
           in if cast_int (length nodes) < desired_rf then (Inr (Inl ''not enough nodes''), s)
              else let version = next_version coord cid;
                       (entries, addrs, failed, nodes1) = put_loop env coord cid version data nodes (st_nodes s);
                       majority_needed = length entries div 2 + 1
                   in if length addrs < majority_needed
                      then (Inr (Inl (if failed = [] then ''storage majority unavailable''
                              else ''storage majority unavailable: '' @ failed)),
                            s\<lparr>st_nodes := fold (\<lambda>addr. delete_chunk_from_replica (env_db env) (env_up env) addr cid) addrs nodes1\<rparr>)
                      else case logged_write (env_outcome env) (env_clk env) PUT_CHUNK
                                  (encode_put_payload cid size_bytes desired_rf version entries) coord of
                             Inl x \<Rightarrow> (Inl x, s\<lparr>st_nodes := nodes1\<rparr>)
                           | Inr (False, _) \<Rightarrow>
                               (Inr (Inl ''metadata quorum unavailable after storage write''),
                                s\<lparr>st_nodes := fold (\<lambda>addr. delete_chunk_from_replica (env_db env) (env_up env) addr cid) addrs nodes1\<rparr>)
                           | Inr (True, coord1) \<Rightarrow>
                               (Inr (Inr (version, entries)), s\<lparr>st_coord := coord1, st_nodes := nodes1\<rparr>))"

section \<open>The other handlers\<close>

record chunk_meta =
  cm_chunk_id :: string
  cm_version :: u64
  cm_replica_set :: "string list"
  cm_replication_factor :: int
  cm_stable :: bool
  cm_old_replica_set :: "string list"
  cm_size_bytes :: u64

definition GetChunkInfo :: "rpc_service \<Rightarrow> (node_entry list \<Rightarrow> node_entry list) \<Rightarrow> string \<Rightarrow> coordinator \<Rightarrow> string + chunk_meta" where
  "GetChunkInfo svc ord cid coord =
     (if \<not> rs_repl svc then Inl ''NotLeader''
      else case get_chunk coord cid of
             None \<Rightarrow> Inl ''not found''
           | Some e \<Rightarrow> Inr \<lparr>cm_chunk_id = ce_chunk_id e, cm_version = ce_version e,
               cm_replica_set = map (encode_replica_target ord coord) (ce_replica_set e),
               cm_replication_factor = ce_replication_factor e, cm_stable = (ce_config_state e = STABLE),
               cm_old_replica_set = map (encode_replica_target ord coord) (ce_old_replica_set e),
               cm_size_bytes = ce_size_bytes e\<rparr>)"

text \<open>Responses that carry only success or an error text.\<close>

definition DeleteChunk :: "rpc_service \<Rightarrow> 'db rpc_env \<Rightarrow> string \<Rightarrow> coordinator \<Rightarrow> cxx_exc + (string + unit) \<times> coordinator" where
  "DeleteChunk svc env cid coord =
     (if \<not> rs_repl svc then Inr (Inl ''NotLeader'', coord)
      else ebind (logged_write (env_outcome env) (env_clk env) DELETE_CHUNK cid coord)
             (\<lambda>(ok, coord1). Inr (if ok then Inr () else Inl ''quorum unavailable'', coord1)))"

text \<open>The call of the reconfiguration driver, and the response made of its result.\<close>

definition change_replicas :: "'db rpc_env \<Rightarrow> string \<Rightarrow> int \<Rightarrow> string \<Rightarrow> string \<Rightarrow> 'db rpc_state \<Rightarrow>
     cxx_exc + (string + unit) \<times> 'db rpc_state" where
  "change_replicas env cid new_rf must_include must_exclude s =
     ebind (reconfig (env_db env) (env_ord env) default_placement_config (env_shuffle env) (env_up env) (env_outcome env)
              (env_clk env) cid new_rf must_include must_exclude (st_coord s, st_nodes s))
       (\<lambda>(ok, coord, nodes). Inr (if ok then Inr () else Inl ''reconfig failed'', s\<lparr>st_coord := coord, st_nodes := nodes\<rparr>))"

definition AddReplica :: "rpc_service \<Rightarrow> 'db rpc_env \<Rightarrow> string \<Rightarrow> string \<Rightarrow> 'db rpc_state \<Rightarrow>
     cxx_exc + (string + unit) \<times> 'db rpc_state" where
  "AddReplica svc env cid node_id s =
     (if \<not> rs_repl svc \<or> \<not> rs_reconfig svc then Inr (Inl ''NotLeader'', s)
      else case get_chunk (st_coord s) cid of
             None \<Rightarrow> Inr (Inl ''chunk not found'', s)
           | Some entry \<Rightarrow>
               if node_id = [] then Inr (Inl ''node_id required'', s)
               else if has_replica_node entry node_id then Inr (Inl ''node already in replica set'', s)
               else change_replicas env cid (cast_int (length (ce_replica_set entry)) + 1) node_id [] s)"

definition RemoveReplica :: "rpc_service \<Rightarrow> 'db rpc_env \<Rightarrow> string \<Rightarrow> string \<Rightarrow> 'db rpc_state \<Rightarrow>
     cxx_exc + (string + unit) \<times> 'db rpc_state" where
  "RemoveReplica svc env cid node_id s =
     (if \<not> rs_repl svc \<or> \<not> rs_reconfig svc then Inr (Inl ''NotLeader'', s)
      else case get_chunk (st_coord s) cid of
             None \<Rightarrow> Inr (Inl ''chunk not found'', s)
           | Some entry \<Rightarrow>
               if length (ce_replica_set entry) \<le> 1 then Inr (Inl ''cannot remove last replica'', s)
               else if node_id = [] then Inr (Inl ''node_id required'', s)
               else if \<not> has_replica_node entry node_id then Inr (Inl ''node not in replica set'', s)
               else change_replicas env cid (cast_int (length (ce_replica_set entry)) - 1) [] node_id s)"

definition assigned_chunk_ids :: "string \<Rightarrow> chunk_entry list \<Rightarrow> string list" where
  "assigned_chunk_ids node_id chunks =
     map ce_chunk_id (filter (\<lambda>c. list_ex (\<lambda>replica. strip_node_id replica = node_id) (ce_replica_set c)) chunks)"

definition NodeHeartbeat :: "rpc_service \<Rightarrow> 'db rpc_env \<Rightarrow> heartbeat_req \<Rightarrow> 'db rpc_state \<Rightarrow>
     cxx_exc + heartbeat_resp \<times> 'db rpc_state" where
  "NodeHeartbeat svc env req s =
     (if \<not> rs_repl svc
      then Inr (\<lparr>hr_ok = False, hr_leader_hint = (if rs_peers svc = [] then [] else hd (rs_peers svc)), hr_assigned = []\<rparr>, s)
      else ebind (logged_write (env_outcome env) (env_clk env) NODE_HEARTBEAT
             (encode_heartbeat_payload (hb_node_id req) (hb_address req) (hb_load_fraction req) (hb_free_bytes req)
                (hb_total_bytes req) (hb_failure_rate_7d req)) (st_coord s))
        (\<lambda>(ok, coord1).
           if \<not> ok then Inr (\<lparr>hr_ok = False, hr_leader_hint = rs_address svc, hr_assigned = []\<rparr>, s)
           else let policy1 = (if rs_policy svc
                      then fold (\<lambda>(cid, cnt). record_accesses cid cnt (ucast (rs_heartbeat_interval_ms svc)))
                             (hb_access_counts req) (st_policy s)
                      else st_policy s)
                in Inr (\<lparr>hr_ok = True, hr_leader_hint = [],
                         hr_assigned = assigned_chunk_ids (hb_node_id req) (get_chunks (env_ord_chunks env) coord1)\<rparr>,
                        s\<lparr>st_coord := coord1, st_policy := policy1\<rparr>)))"

section \<open>Addresses of selected nodes\<close>

lemma strip_node_id_eq: "strip_node_id = extract_node_id"
  by (rule ext) (simp add: strip_node_id_def extract_node_id_def)

text \<open>An alive node whose id has no equals sign is recorded together with its address.\<close>

lemma alive_target:
  assumes "visits_all ord" and "coord_inv coord" and "n \<in> set (get_alive_nodes ord coord)" and "CHR ''='' \<notin> set (ne_node_id n)"
  shows "encode_replica_target ord coord (ne_node_id n) = ne_node_id n @ ''='' @ ne_address n"
    "rpc_replica_address ord coord (ne_node_id n @ ''='' @ ne_address n) = ne_address n"
    "resolve_address (ne_node_id n @ ''='' @ ne_address n) alive = ne_address n"
    "extract_node_id (ne_node_id n @ ''='' @ ne_address n) = ne_node_id n"
proof -
  show "encode_replica_target ord coord (ne_node_id n) = ne_node_id n @ ''='' @ ne_address n"
    using assms(4) find_alive [OF assms(1-3)] by (simp add: encode_replica_target_def)
qed (use assms(4) in \<open>simp_all add: rpc_replica_address_def resolve_address_def extract_node_id_def find_char_eq\<close>)

section \<open>The data of a put\<close>

lemma write_chunk_to_replica_eq:
  "write_chunk_to_replica R up addr cid v data nodes = (if addr = [] then (False, nodes) else write_remote R up addr cid v data nodes)"
  by (simp add: write_chunk_to_replica_def write_remote_def)

lemma write_remote_up: "fst (write_remote R up addr cid v data nodes) \<Longrightarrow> up addr"
  by (simp add: write_remote_def split: option.splits if_splits)

context rocksdb
begin

lemma write_remote_has:
  assumes w: "write_remote R up addr cid v data nodes = (True, nodes')" and name: "name_ok cid"
  shows "node_has R nodes' addr cid v data"
proof -
  obtain sn d d' where n: "store_write R cid v data (Some d) = (True, Some d')"
      "um_find nodes' addr = Some (sn\<lparr>sn_store := Some d'\<rparr>)"
    using write_remote_ok [OF w] by metis
  then show ?thesis using write_abs [OF n(1) name name] by (auto simp: node_has_def)
qed

lemma write_remote_wf:
  assumes w: "write_remote R up addr cid v data nodes = (ok, nodes')" and wf: "peers_wf R nodes" and name: "name_ok cid" and ver: "version_ok v"
  shows "peers_wf R nodes'"
proof -
  have "store_wf R d'" if find: "um_find nodes' a = Some sn'" "sn_store sn' = Some d'" for a sn' d'
  proof (cases "um_find nodes addr")
    case None
    then show ?thesis using w find wf unfolding peers_wf_def by (auto simp: write_remote_def)
  next
    case (Some sn)
    show ?thesis
    proof (cases "a = addr \<and> up addr")
      case False
      then have "um_find nodes a = Some sn'" using w find(1) Some write_remote_other [of a addr R up cid v data nodes]
        by (cases "a = addr") (auto simp: write_remote_def)
      then show ?thesis using find(2) wf unfolding peers_wf_def by blast
    next
      case True
      then have wr: "store_write R cid v data (sn_store sn) = (ok, Some d')"
        using w find Some by (auto simp: write_remote_def WriteChunk_def split: prod.splits)
      then obtain d where "sn_store sn = Some d" by (cases "sn_store sn") (auto simp: store_write_def)
      then show ?thesis using write_wf [of cid v data d ok d'] wr wf Some name ver unfolding peers_wf_def by auto
    qed
  qed
  then show ?thesis unfolding peers_wf_def by blast
qed

end

lemma put_loop_entries:
  "put_loop env coord cid v data ns nodes = (entries, addrs, failed, nodes') \<Longrightarrow>
     entries = map (encode_replica_target (env_ord env) coord) ns"
proof (induction ns arbitrary: nodes entries addrs failed)
  case (Cons n ns)
  then show ?case by (auto simp: Let_def split: prod.splits)
qed simp

lemma put_loop_other:
  assumes "put_loop env coord cid v data ns nodes = (entries, addrs, failed, nodes')"
    and "\<forall>n \<in> set ns. rpc_replica_address (env_ord env) coord (encode_replica_target (env_ord env) coord n) \<noteq> a"
  shows "um_find nodes' a = um_find nodes a"
  using assms
proof (induction ns arbitrary: nodes entries addrs failed)
  case (Cons n ns)
  let ?addr = "rpc_replica_address (env_ord env) coord (encode_replica_target (env_ord env) coord n)"
  obtain ok nodes1 where w: "write_chunk_to_replica (env_db env) (env_up env) ?addr cid v data nodes = (ok, nodes1)" by fastforce
  obtain es as fs where rest: "put_loop env coord cid v data ns nodes1 = (es, as, fs, nodes')"
    using Cons.prems(1) w by (auto simp: Let_def split: prod.splits)
  have "um_find nodes1 a = um_find nodes a"
    using write_remote_other [of a ?addr "env_db env" "env_up env" cid v data nodes] w Cons.prems(2)
    by (auto simp: write_chunk_to_replica_eq split: if_splits)
  then show ?case using Cons.IH [OF rest] Cons.prems(2) by simp
qed simp

text \<open>The addresses that took the data, among those tried, hold it afterwards.\<close>

lemma put_loop_stored:
  assumes db: "rocksdb (env_db env)" and name: "name_ok cid" and ver: "version_ok v"
    and "put_loop env coord cid v data ns nodes = (entries, addrs, failed, nodes')"
    and "peers_wf (env_db env) nodes"
    and "distinct (map (\<lambda>n. rpc_replica_address (env_ord env) coord (encode_replica_target (env_ord env) coord n)) ns)"
  shows "peers_wf (env_db env) nodes' \<and>
    (\<exists>oks. subseq oks ns \<and> addrs = map (\<lambda>n. rpc_replica_address (env_ord env) coord (encode_replica_target (env_ord env) coord n)) oks) \<and>
    (\<forall>a \<in> set addrs. a \<noteq> [] \<and> env_up env a \<and> node_has (env_db env) nodes' a cid v data)"
  using assms(4-6)
proof (induction ns arbitrary: nodes entries addrs failed)
  case (Cons n ns)
  let ?adr = "\<lambda>n. rpc_replica_address (env_ord env) coord (encode_replica_target (env_ord env) coord n)"
  obtain ok nodes1 where w: "write_chunk_to_replica (env_db env) (env_up env) (?adr n) cid v data nodes = (ok, nodes1)" by fastforce
  obtain es as fs where rest: "put_loop env coord cid v data ns nodes1 = (es, as, fs, nodes')"
      and addrs: "addrs = (if ok then ?adr n # as else as)"
    using Cons.prems(1) w by (auto simp: Let_def split: prod.splits)
  have wf1: "peers_wf (env_db env) nodes1"
    using w Cons.prems(2) rocksdb.write_remote_wf [OF db _ Cons.prems(2) name ver, of "env_up env" "?adr n" data ok nodes1]
    by (auto simp: write_chunk_to_replica_eq split: if_splits)
  have IH: "peers_wf (env_db env) nodes'" "\<forall>a \<in> set as. a \<noteq> [] \<and> env_up env a \<and> node_has (env_db env) nodes' a cid v data"
    using Cons.IH [OF rest wf1] Cons.prems(3) by auto
  obtain oks where oks: "subseq oks ns" "as = map ?adr oks" using Cons.IH [OF rest wf1] Cons.prems(3) by auto
  have here: "?adr n \<noteq> [] \<and> env_up env (?adr n) \<and> node_has (env_db env) nodes' (?adr n) cid v data" if ok
  proof -
    have wr: "?adr n \<noteq> []" "write_remote (env_db env) (env_up env) (?adr n) cid v data nodes = (True, nodes1)"
      using w that by (auto simp: write_chunk_to_replica_eq split: if_splits)
    have "node_has (env_db env) nodes1 (?adr n) cid v data" by (rule rocksdb.write_remote_has [OF db wr(2) name])
    moreover have "um_find nodes' (?adr n) = um_find nodes1 (?adr n)"
      using put_loop_other [OF rest, of "?adr n"] Cons.prems(3) by (force simp: image_iff)
    ultimately show ?thesis using wr write_remote_up [of "env_db env" "env_up env" "?adr n" cid v data nodes] by (simp add: node_has_def)
  qed
  have "\<exists>oks. subseq oks (n # ns) \<and> addrs = map ?adr oks"
  proof (cases ok)
    case True
    then show ?thesis using oks addrs by (intro exI [of _ "n # oks"]) simp
  next
    case False
    then show ?thesis using oks addrs by (intro exI [of _ oks]) (simp add: list_emb_Cons)
  qed
  then show ?case using IH here addrs by auto
qed simp

section \<open>Undoing a put\<close>

text \<open>Whatever a removal reaches afterwards holds no version of the chunk.\<close>

definition erased :: "'db rocksdb_ops \<Rightarrow> (string, 'db storage_node) umap \<Rightarrow> string \<Rightarrow> string \<Rightarrow> bool" where
  "erased R nodes a cid \<longleftrightarrow> (\<forall>w x. \<not> node_has R nodes a cid w x)"

lemma delete_other: "a \<noteq> addr \<Longrightarrow> um_find (delete_chunk_from_replica R up addr cid nodes) a = um_find nodes a"
  by (simp add: delete_chunk_from_replica_def split: option.split)

context reliable_rocksdb
begin

lemma delete_reached:
  assumes wf: "peers_wf R nodes" and name: "name_ok cid" and up: "up addr" "addr \<noteq> []"
  shows "peers_wf R (delete_chunk_from_replica R up addr cid nodes) \<and> erased R (delete_chunk_from_replica R up addr cid nodes) addr cid"
proof (cases "um_find nodes addr")
  case None
  then show ?thesis using wf up by (simp add: delete_chunk_from_replica_def erased_def node_has_def)
next
  case (Some sn)
  show ?thesis
  proof (cases "sn_store sn")
    case None
    then show ?thesis using wf Some up
      by (auto simp: delete_chunk_from_replica_def erased_def node_has_def DeleteChunkData_def store_remove_def peers_wf_def)
  next
    case d: (Some d)
    obtain ok d' where rm: "store_remove R cid (Some d) = (ok, Some d')"
      by (cases "db_delete_range R d (make_key cid 0) (chunk_prefix cid @ ''~'')") (auto simp: store_remove_def)
    have "ok" using rm delete_succeeds [of d "make_key cid 0" "chunk_prefix cid @ ''~''"]
      by (auto simp: store_remove_def split: prod.splits)
    moreover have "store_wf R d" using wf Some d unfolding peers_wf_def by blast
    ultimately have d': "store_wf R d'" "\<And>w. store_abs R d' cid w = None" using remove_abs [of cid d d'] rm name by auto
    have eq: "delete_chunk_from_replica R up addr cid nodes = um_assign addr (sn\<lparr>sn_store := Some d'\<rparr>) nodes"
      using Some d rm up by (simp add: delete_chunk_from_replica_def DeleteChunkData_def)
    show ?thesis using wf d' unfolding eq by (auto simp: peers_wf_def erased_def node_has_def)
  qed
qed

lemma delete_all_reached:
  assumes "peers_wf R nodes" and name: "name_ok cid" and "\<forall>a \<in> set addrs. up a \<and> a \<noteq> []"
  shows "peers_wf R (fold (\<lambda>addr. delete_chunk_from_replica R up addr cid) addrs nodes) \<and>
    (\<forall>a. a \<in> set addrs \<or> erased R nodes a cid \<longrightarrow> erased R (fold (\<lambda>addr. delete_chunk_from_replica R up addr cid) addrs nodes) a cid)"
  using assms(1,3)
proof (induction addrs arbitrary: nodes)
  case (Cons b bs)
  let ?n1 = "delete_chunk_from_replica R up b cid nodes"
  have b: "peers_wf R ?n1" "erased R ?n1 b cid" using delete_reached [OF Cons.prems(1) name, of up b] Cons.prems(2) by auto
  have keep: "erased R ?n1 a cid" if "erased R nodes a cid" for a
    using b(2) that delete_other [of a b R up cid nodes] by (cases "a = b") (auto simp: erased_def node_has_def)
  show ?case using Cons.IH [OF b(1)] Cons.prems(2) b(2) keep by auto
qed simp

end

section \<open>The course of a put\<close>

text \<open>The nodes a put selects, as the loop sees them.\<close>

abbreviation put_nodes :: "rpc_service \<Rightarrow> 'db rpc_env \<Rightarrow> int \<Rightarrow> coordinator \<Rightarrow> string list" where
  "put_nodes svc env rf coord \<equiv> select_nodes (default_placement_config\<lparr>random_placement := (rs_mode svc = ''baseline'')\<rparr>)
     (env_shuffle env) rf (get_alive_nodes (env_ord env) coord) []"

text \<open>What the operator has to ensure for names to fit the formats.\<close>

definition cluster_ok :: "'db rpc_env \<Rightarrow> 'db rpc_state \<Rightarrow> bool" where
  "cluster_ok env s \<longleftrightarrow> coord_inv (st_coord s) \<and> visits_all (env_ord env) \<and> visits_all (env_shuffle env) \<and>
     peers_wf (env_db env) (st_nodes s) \<and> length (node_table (st_coord s)) < 2 ^ 31 \<and>
     (\<forall>n \<in> set (get_alive_nodes (env_ord env) (st_coord s)). node_ok n \<and> CHR ''='' \<notin> set (ne_node_id n)) \<and>
     distinct (map ne_address (get_alive_nodes (env_ord env) (st_coord s)))"

lemma put_nodes_props:
  assumes ok: "cluster_ok env s" and rf: "0 \<le> rf" "\<not> cast_int (length (put_nodes svc env rf (st_coord s))) < rf" "rf < 2 ^ 31"
  shows "length (put_nodes svc env rf (st_coord s)) = nat rf"
    "\<exists>ms. put_nodes svc env rf (st_coord s) = map ne_node_id ms \<and> distinct ms \<and> set ms \<subseteq> set (get_alive_nodes (env_ord env) (st_coord s))"
proof -
  let ?alive = "get_alive_nodes (env_ord env) (st_coord s)" and ?ns = "put_nodes svc env rf (st_coord s)"
  have al: "distinct (map ne_node_id ?alive)" "length ?alive < 2 ^ 31"
    using ok alive_nodes_distinct [of "env_ord env" "st_coord s"] alive_length [of "env_ord env" "st_coord s"]
    by (auto simp: cluster_ok_def)
  have p: "distinct ?ns" "set ?ns \<subseteq> ne_node_id ` set ?alive" "length ?ns \<le> nat rf"
    using select_nodes_props [OF _ al rf(1), of "env_shuffle env" _ "[]"] ok by (auto simp: cluster_ok_def)
  have "nat rf < 2 ^ 31" using rf(3) by simp
  then have "cast_int (length ?ns) = int (length ?ns)" using p(3) by (intro cast_int_length) linarith
  then show "length ?ns = nat rf" using p(3) rf(1,2) by simp
  define f where "f = (\<lambda>nid. SOME m. m \<in> set ?alive \<and> ne_node_id m = nid)"
  have f: "f nid \<in> set ?alive \<and> ne_node_id (f nid) = nid" if "nid \<in> set ?ns" for nid
    unfolding f_def by (rule someI_ex) (use that p(2) in auto)
  have "map ne_node_id (map f ?ns) = ?ns" using f by (simp add: map_idI)
  moreover from this have "distinct (map f ?ns)" using p(1) by (metis distinct_map)
  ultimately show "\<exists>ms. ?ns = map ne_node_id ms \<and> distinct ms \<and> set ms \<subseteq> set ?alive" using f by (intro exI [of _ "map f ?ns"]) auto
qed

lemma PutChunk_ok_run:
  assumes "PutChunk svc env cid sz rf data s = (Inr (Inr (v, entries)), s')"
  obtains addrs failed nodes1 coord1 where "rs_repl svc" "\<not> cast_int (length (put_nodes svc env rf (st_coord s))) < rf"
    "v = next_version (st_coord s) cid"
    "put_loop env (st_coord s) cid v data (put_nodes svc env rf (st_coord s)) (st_nodes s) = (entries, addrs, failed, nodes1)"
    "length entries div 2 + 1 \<le> length addrs"
    "logged_write (env_outcome env) (env_clk env) PUT_CHUNK (encode_put_payload cid sz rf v entries) (st_coord s) = Inr (True, coord1)"
    "s' = s\<lparr>st_coord := coord1, st_nodes := nodes1\<rparr>"
proof -
  obtain es addrs failed nodes1 where l:
    "put_loop env (st_coord s) cid (next_version (st_coord s) cid) data (put_nodes svc env rf (st_coord s)) (st_nodes s) = (es, addrs, failed, nodes1)"
    by (metis prod.exhaust)
  show thesis
    by (rule that [of addrs failed nodes1 "st_coord s'"]) (use assms l in \<open>auto simp: PutChunk_def Let_def split: if_splits option.splits sum.splits prod.splits bool.splits\<close>)
qed

lemma put_targets:
  assumes ok: "cluster_ok env s" and ms: "set ms \<subseteq> set (get_alive_nodes (env_ord env) (st_coord s))" and "n \<in> set ms"
  shows "encode_replica_target (env_ord env) (st_coord s) (ne_node_id n) = ne_node_id n @ ''='' @ ne_address n"
    "rpc_replica_address (env_ord env) (st_coord s) (encode_replica_target (env_ord env) (st_coord s) (ne_node_id n)) = ne_address n"
    "resolve_address (ne_node_id n @ ''='' @ ne_address n) alive = ne_address n"
    "extract_node_id (ne_node_id n @ ''='' @ ne_address n) = ne_node_id n"
    "replica_ok (ne_node_id n @ ''='' @ ne_address n)"
proof -
  have "n \<in> set (get_alive_nodes (env_ord env) (st_coord s))" "CHR ''='' \<notin> set (ne_node_id n)" "node_ok n"
    using assms by (auto simp: cluster_ok_def)
  then show "encode_replica_target (env_ord env) (st_coord s) (ne_node_id n) = ne_node_id n @ ''='' @ ne_address n"
    "rpc_replica_address (env_ord env) (st_coord s) (encode_replica_target (env_ord env) (st_coord s) (ne_node_id n)) = ne_address n"
    "resolve_address (ne_node_id n @ ''='' @ ne_address n) alive = ne_address n"
    "extract_node_id (ne_node_id n @ ''='' @ ne_address n) = ne_node_id n"
    "replica_ok (ne_node_id n @ ''='' @ ne_address n)"
    using alive_target [of "env_ord env" "st_coord s" n] ok by (auto simp: cluster_ok_def node_ok_def replica_ok_def)
qed

lemma subseq_members: "subseq xs ys \<Longrightarrow> set xs \<subseteq> set ys"
  by (induction rule: list_emb.induct) auto

lemma subseq_map_Ex: "subseq xs (map f ys) \<Longrightarrow> \<exists>zs. subseq zs ys \<and> xs = map f zs"
proof (induction ys arbitrary: xs)
  case (Cons y ys)
  show ?case
  proof (cases "subseq xs (map f ys)")
    case True
    then show ?thesis using Cons.IH by (metis list_emb_Cons)
  next
    case False
    then obtain xs' where "xs = f y # xs'" "subseq xs' (map f ys)"
      using Cons.prems by (cases xs) (auto split: if_splits)
    then show ?thesis using Cons.IH [of xs'] by (metis list.simps(9) subseq_Cons2)
  qed
qed auto

text \<open>
  The course of a put that selected \<open>rf\<close> nodes \<open>ms\<close>: their entries, and those that took the data.
\<close>

lemma put_loop_course:
  assumes db: "rocksdb (env_db env)" and ok: "cluster_ok env s" and name: "name_ok cid" and ver: "version_ok v"
    and rf: "0 \<le> rf" "\<not> cast_int (length (put_nodes svc env rf (st_coord s))) < rf" "rf < 2 ^ 31"
    and run: "put_loop env (st_coord s) cid v data (put_nodes svc env rf (st_coord s)) (st_nodes s) = (entries, addrs, failed, nodes1)"
  shows "\<exists>ms oks. distinct ms \<and> length ms = nat rf \<and> set ms \<subseteq> set (get_alive_nodes (env_ord env) (st_coord s)) \<and>
    entries = map (\<lambda>n. ne_node_id n @ ''='' @ ne_address n) ms \<and> subseq oks ms \<and> addrs = map ne_address oks \<and>
    peers_wf (env_db env) nodes1 \<and>
    (\<forall>a \<in> set addrs. a \<noteq> [] \<and> env_up env a \<and> node_has (env_db env) nodes1 a cid v data)"
proof -
  let ?alive = "get_alive_nodes (env_ord env) (st_coord s)"
  obtain ms where ms: "put_nodes svc env rf (st_coord s) = map ne_node_id ms" "distinct ms" "set ms \<subseteq> set ?alive"
    using put_nodes_props(2) [OF ok rf] by blast
  have len: "length ms = nat rf" using put_nodes_props(1) [OF ok rf] ms(1) by simp
  note t = put_targets [OF ok ms(3)]
  let ?adr = "\<lambda>n. rpc_replica_address (env_ord env) (st_coord s) (encode_replica_target (env_ord env) (st_coord s) n)"
  have adr: "map ?adr (map ne_node_id ms) = map ne_address ms" using t(2) by simp
  have "inj_on ne_address (set ms)" using ok ms(3) by (auto simp: cluster_ok_def distinct_map intro: inj_on_subset)
  then have d: "distinct (map ?adr (map ne_node_id ms))" unfolding adr using ms(2) by (simp add: distinct_map)
  note stored = put_loop_stored [OF db name ver run [unfolded ms(1)] _ d]
  have wf: "peers_wf (env_db env) (st_nodes s)" using ok by (simp add: cluster_ok_def)
  obtain oks where oks: "subseq oks (map ne_node_id ms)" "addrs = map ?adr oks" using stored [OF wf] by blast
  obtain zs where zs: "subseq zs ms" "oks = map ne_node_id zs" using subseq_map_Ex [OF oks(1)] by blast
  have "set zs \<subseteq> set ms" by (rule subseq_members [OF zs(1)])
  then have "addrs = map ne_address zs" using oks(2) zs(2) t(2) by auto
  moreover have "entries = map (\<lambda>n. ne_node_id n @ ''='' @ ne_address n) ms" using put_loop_entries [OF run] ms(1) t(1) by simp
  ultimately show ?thesis using ms len zs(1) stored [OF wf] by blast
qed

lemma put_rf:
  assumes "put_loop env (st_coord s) cid v data (put_nodes svc env rf (st_coord s)) ns = (entries, addrs, failed, nodes1)"
    and "length entries div 2 + 1 \<le> length addrs"
  shows "0 \<le> rf"
proof (rule ccontr)
  assume "\<not> 0 \<le> rf"
  then have "put_nodes svc env rf (st_coord s) = []" by (simp add: select_nodes_def Let_def)
  then show False using assms by simp
qed

lemma put_chunk_course:
  assumes db: "rocksdb (env_db env)" and ok: "cluster_ok env s" and id: "id_ok cid" "name_ok cid"
    and ver: "version_ok (next_version (st_coord s) cid)" and rf: "int32 rf"
    and run: "PutChunk svc env cid sz rf data s = (Inr (Inr (v, entries)), s')"
  shows "v = next_version (st_coord s) cid \<and> length entries = nat rf \<and> distinct (map extract_node_id entries) \<and>
    set (map extract_node_id entries) \<subseteq> ne_node_id ` set (get_alive_nodes (env_ord env) (st_coord s)) \<and>
    get_chunk (st_coord s') cid = Some \<lparr>ce_chunk_id = cid, ce_version = v, ce_replica_set = entries,
      ce_replication_factor = rf, ce_config_state = STABLE, ce_old_replica_set = [], ce_size_bytes = sz\<rparr> \<and>
    (\<exists>oks. subseq oks entries \<and> length entries < 2 * length oks \<and>
       (\<forall>r \<in> set oks. node_has (env_db env) (st_nodes s') (resolve_address r []) cid v data))"
proof -
  obtain addrs failed nodes1 coord1 where r: "\<not> cast_int (length (put_nodes svc env rf (st_coord s))) < rf"
    "v = next_version (st_coord s) cid"
    "put_loop env (st_coord s) cid v data (put_nodes svc env rf (st_coord s)) (st_nodes s) = (entries, addrs, failed, nodes1)"
    "length entries div 2 + 1 \<le> length addrs"
    "logged_write (env_outcome env) (env_clk env) PUT_CHUNK (encode_put_payload cid sz rf v entries) (st_coord s) = Inr (True, coord1)"
    "s' = s\<lparr>st_coord := coord1, st_nodes := nodes1\<rparr>"
    using PutChunk_ok_run [OF run] by metis
  have "0 \<le> rf" by (rule put_rf [OF r(3,4)])
  moreover have "rf < 2 ^ 31" using rf by (simp add: int32_def)
  ultimately obtain ms oks where m: "distinct ms" "length ms = nat rf" "set ms \<subseteq> set (get_alive_nodes (env_ord env) (st_coord s))"
    "entries = map (\<lambda>n. ne_node_id n @ ''='' @ ne_address n) ms" "subseq oks ms" "addrs = map ne_address oks"
    "\<forall>a \<in> set addrs. a \<noteq> [] \<and> env_up env a \<and> node_has (env_db env) nodes1 a cid v data"
    using put_loop_course [OF db ok id(2) ver [folded r(2)] _ r(1) _ r(3)] by blast
  note t = put_targets [OF ok m(3)]
  have ids: "map extract_node_id entries = map ne_node_id ms" using t(4) by (simp add: m(4))
  have ok2: "set oks \<subseteq> set ms" by (rule subseq_members [OF m(5)])
  have "length oks \<le> length ms" by (rule list_emb_length [OF m(5)])
  then have "entries \<noteq> []" using r(4) m(4,6) by auto
  then have "cmd_ok (Cmd_put cid sz rf entries v)" using id(1) rf t(5) by (auto simp: m(4) replicas_ok_def list_all_iff)
  from logged_write_cmd [OF this, of "env_outcome env" "env_clk env" "st_coord s"] r(5)
  have c1: "coord1 = apply_put_chunk cid sz rf entries v (st_coord s)" by (auto split: option.splits)
  have inj: "inj_on ne_node_id (set (get_alive_nodes (env_ord env) (st_coord s)))"
    using alive_nodes_distinct [of "env_ord env" "st_coord s"] ok by (simp add: cluster_ok_def distinct_map)
  then have "distinct (map extract_node_id entries)"
    unfolding ids using m(1,3) by (auto simp: distinct_map intro: inj_on_subset)
  moreover have "\<exists>os. subseq os entries \<and> length entries < 2 * length os \<and>
      (\<forall>r \<in> set os. node_has (env_db env) (st_nodes s') (resolve_address r []) cid v data)"
    using m(4-7) r(4,6) t(3) ok2 subseq_map [OF m(5)]
    by (intro exI [of _ "map (\<lambda>n. ne_node_id n @ ''='' @ ne_address n) oks"]) auto
  ultimately show ?thesis using r(2,6) c1 ids m(2,3,4) by auto
qed

section \<open>Properties\<close>

text \<open>
  C6. A put that reports success has chosen as many distinct alive nodes as asked for, has stored the
  bytes under the reported version on more than half of them, and has recorded the chunk as stable
  under that version with exactly those nodes; the version is one more than the recorded one.
\<close>

theorem put_chunk_ok:
  assumes db: "rocksdb (env_db env)" and ok: "cluster_ok env s" and id: "id_ok cid" "name_ok cid"
    and ver: "version_ok (next_version (st_coord s) cid)" and rf: "int32 rf"
    and run: "PutChunk svc env cid sz rf data s = (Inr (Inr (v, entries)), s')"
  shows "v = next_version (st_coord s) cid \<and> length entries = nat rf \<and> distinct (map extract_node_id entries) \<and>
    set (map extract_node_id entries) \<subseteq> ne_node_id ` set (get_alive_nodes (env_ord env) (st_coord s)) \<and>
    get_chunk (st_coord s') cid = Some \<lparr>ce_chunk_id = cid, ce_version = v, ce_replica_set = entries,
      ce_replication_factor = rf, ce_config_state = STABLE, ce_old_replica_set = [], ce_size_bytes = sz\<rparr> \<and>
    (\<exists>oks. subseq oks entries \<and> length entries < 2 * length oks \<and>
       (\<forall>r \<in> set oks. node_has (env_db env) (st_nodes s') (resolve_address r []) cid v data))"
  by (rule put_chunk_course [OF assms])

text \<open>A cluster of one node and no chunks, whose log accepts every write at index 1, or none.\<close>

definition demo_env :: "bool \<Rightarrow> mem_db rpc_env" where
  "demo_env quorum = \<lparr>env_db = mem_rocksdb, env_ord = (\<lambda>xs. xs), env_ord_chunks = (\<lambda>xs. xs), env_shuffle = (\<lambda>xs. xs),
     env_up = (\<lambda>_. True), env_outcome = (\<lambda>_ _. if quorum then Some 1 else None), env_clk = (\<lambda>_. 0)\<rparr>"

definition demo_service :: rpc_service where
  "demo_service = \<lparr>rs_repl = True, rs_policy = True, rs_reconfig = True, rs_mode = ''baseline'', rs_address = ''h:0'',
     rs_peers = [], rs_heartbeat_interval_ms = 200\<rparr>"

definition demo_state :: "(string, chunk_entry) umap \<Rightarrow> mem_db \<Rightarrow> mem_db rpc_state" where
  "demo_state chunks db = \<lparr>st_coord = \<lparr>chunk_table = chunks, node_table = [(''n1'', demo_node ''n1'' ''h:1'' True)]\<rparr>, st_policy = [],
     st_nodes = [(''h:1'', \<lparr>sn_store = Some db, sn_reporter = new_reporter\<rparr>)]\<rparr>"

lemma demo_cluster_ok:
  "store_wf mem_rocksdb db \<Longrightarrow> coord_inv (st_coord (demo_state chunks db)) \<Longrightarrow> cluster_ok (demo_env q) (demo_state chunks db)"
  by (auto simp: cluster_ok_def demo_env_def demo_state_def demo_node_def get_alive_nodes_def um_values_def node_ok_def
      replica_ok_def peers_wf_def split: if_splits)

lemma demo_put_nodes: "put_nodes demo_service (demo_env q) 1 (st_coord (demo_state cs db)) = [''n1'']"
  by (simp add: demo_service_def demo_env_def demo_state_def demo_node_def get_alive_nodes_def um_values_def select_nodes_def cast_int_def)

lemma demo_put_loop:
  "put_loop (demo_env q) (st_coord (demo_state cs db)) cid v data [''n1''] (st_nodes (demo_state cs db)) =
     ([''n1=h:1''], [''h:1''], [], [(''h:1'', \<lparr>sn_store = Some (um_assign (make_key cid v) data db), sn_reporter = new_reporter\<rparr>)])"
  by (simp add: demo_env_def demo_state_def demo_node_def get_alive_nodes_def um_values_def encode_replica_target_def
      rpc_replica_address_def write_chunk_to_replica_def WriteChunk_def store_write_def mem_rocksdb_def mem_put_def Let_def)

lemma demo_put:
  "\<exists>s'. PutChunk demo_service (demo_env True) ''c'' 5 1 ''bytes'' (demo_state [] []) = (Inr (Inr (1, [''n1=h:1''])), s')"
proof -
  have "cmd_ok (Cmd_put ''c'' 5 1 [''n1=h:1''] 1)" by (simp add: id_ok_def int32_def replicas_ok_def replica_ok_def)
  from logged_write_cmd [OF this, of "env_outcome (demo_env True)" "env_clk (demo_env True)" "st_coord (demo_state [] [])"]
  have lw: "logged_write (env_outcome (demo_env True)) (env_clk (demo_env True)) PUT_CHUNK
      (encode_put_payload ''c'' 5 1 1 [''n1=h:1'']) (st_coord (demo_state [] [])) =
      Inr (True, apply_put_chunk ''c'' 5 1 [''n1=h:1''] 1 (st_coord (demo_state [] [])))" by (simp add: demo_env_def)
  have "get_chunk (st_coord (demo_state [] [])) ''c'' = None" "next_version (st_coord (demo_state [] [])) ''c'' = 1"
      "rs_repl demo_service" "cast_int (length [''n1'']) = 1"
    by (simp_all add: get_chunk_def next_version_def demo_state_def demo_service_def cast_int_def)
  then show ?thesis unfolding PutChunk_def Let_def demo_put_nodes by (simp add: demo_put_loop lw del: put_loop.simps)
qed

theorem put_chunk_ok_witness:
  "\<exists>s'. PutChunk demo_service (demo_env True) ''c'' 5 1 ''bytes'' (demo_state [] []) = (Inr (Inr (1, [''n1=h:1''])), s') \<and>
     get_chunk (st_coord s') ''c'' \<noteq> None \<and> node_has mem_rocksdb (st_nodes s') ''h:1'' ''c'' 1 ''bytes''"
proof -
  obtain s' where run: "PutChunk demo_service (demo_env True) ''c'' 5 1 ''bytes'' (demo_state [] []) = (Inr (Inr (1, [''n1=h:1''])), s')"
    using demo_put by blast
  have ok: "cluster_ok (demo_env True) (demo_state [] [])"
    by (rule demo_cluster_ok) (auto simp: store_wf_def mem_rocksdb_def coord_inv_def demo_state_def demo_node_def um_wf_def split: if_splits)
  have db: "rocksdb (env_db (demo_env True))" using mem.rocksdb_axioms by (simp add: demo_env_def)
  have v: "next_version (st_coord (demo_state [] [])) ''c'' = 1" by (simp add: next_version_def demo_state_def)
  from put_chunk_ok [OF db ok _ _ _ _ run]
  obtain oks where p: "get_chunk (st_coord s') ''c'' \<noteq> None" "subseq oks [''n1=h:1'']" "length [''n1=h:1''] < 2 * length oks"
      "\<forall>r \<in> set oks. node_has (env_db (demo_env True)) (st_nodes s') (resolve_address r []) ''c'' 1 ''bytes''"
    by (auto simp: id_ok_def name_ok_def v version_ok_def int32_def)
  have "oks \<noteq> []" using p(3) by auto
  then have "''n1=h:1'' \<in> set oks" using subseq_members [OF p(2)] by (cases oks) auto
  then have "node_has mem_rocksdb (st_nodes s') ''h:1'' ''c'' 1 ''bytes''" using p(4) by (force simp: demo_env_def resolve_address_def)
  then show ?thesis using run p(1) by blast
qed

text \<open>
  C36. A put whose log write fails is undone by removing the chunk from every storage node that took
  the new version. The removal takes all versions: on more than half of the selected nodes no version
  of the chunk is left, the committed one included, while the metadata still names it.
\<close>

theorem failed_put_erases:
  assumes db: "reliable_rocksdb (env_db env)" and ok: "cluster_ok env s" and name: "name_ok cid"
    and ver: "version_ok (next_version (st_coord s) cid)" and rf: "int32 rf"
    and run: "PutChunk svc env cid sz rf data s = (Inr (Inl ''metadata quorum unavailable after storage write''), s')"
  shows "st_coord s' = st_coord s \<and>
    (\<exists>ms oks. length ms = nat rf \<and> distinct ms \<and> set ms \<subseteq> set (get_alive_nodes (env_ord env) (st_coord s)) \<and>
       subseq oks ms \<and> length ms < 2 * length oks \<and>
       (\<forall>n \<in> set oks. erased (env_db env) (st_nodes s') (ne_address n) cid))"
proof -
  obtain entries addrs failed nodes1 where l:
    "put_loop env (st_coord s) cid (next_version (st_coord s) cid) data (put_nodes svc env rf (st_coord s)) (st_nodes s) = (entries, addrs, failed, nodes1)"
    by (metis prod.exhaust)
  have r: "\<not> cast_int (length (put_nodes svc env rf (st_coord s))) < rf" "length entries div 2 + 1 \<le> length addrs"
      "s' = s\<lparr>st_nodes := fold (\<lambda>addr. delete_chunk_from_replica (env_db env) (env_up env) addr cid) addrs nodes1\<rparr>"
    using run l by (auto simp: PutChunk_def Let_def split: if_splits option.splits sum.splits prod.splits bool.splits)
  have db0: "rocksdb (env_db env)" using db by (simp add: reliable_rocksdb_def)
  have "0 \<le> rf" by (rule put_rf [OF l r(2)])
  moreover have "rf < 2 ^ 31" using rf by (simp add: int32_def)
  ultimately obtain ms oks where m: "distinct ms" "length ms = nat rf" "set ms \<subseteq> set (get_alive_nodes (env_ord env) (st_coord s))"
    "entries = map (\<lambda>n. ne_node_id n @ ''='' @ ne_address n) ms" "subseq oks ms" "addrs = map ne_address oks"
    "peers_wf (env_db env) nodes1"
    "\<forall>a \<in> set addrs. a \<noteq> [] \<and> env_up env a \<and> node_has (env_db env) nodes1 a cid (next_version (st_coord s) cid) data"
    using put_loop_course [OF db0 ok name ver _ r(1) _ l] by blast
  have "\<forall>a \<in> set addrs. erased (env_db env) (st_nodes s') a cid"
    using reliable_rocksdb.delete_all_reached [OF db m(7) name, of addrs "env_up env"] m(8) r(3) by simp
  then have "\<forall>n \<in> set oks. erased (env_db env) (st_nodes s') (ne_address n) cid" using m(6) by simp
  moreover have "length ms < 2 * length oks" using r(2) m(4,6) by simp
  moreover have "st_coord s' = st_coord s" using r(3) by simp
  ultimately show ?thesis using m(1-3,5) by blast
qed

text \<open>The same node with one committed version of the chunk, and a log that accepts nothing.\<close>

definition demo_committed :: "mem_db rpc_state" where
  "demo_committed = demo_state [(''c'', \<lparr>ce_chunk_id = ''c'', ce_version = 1, ce_replica_set = [''n1=h:1''], ce_replication_factor = 1,
     ce_config_state = STABLE, ce_old_replica_set = [], ce_size_bytes = 5\<rparr>)] [(make_key ''c'' 1, ''bytes'')]"

lemma demo_committed_ok:
  "cluster_ok (demo_env q) demo_committed" "node_has mem_rocksdb (st_nodes demo_committed) ''h:1'' ''c'' 1 ''bytes''"
  "next_version (st_coord demo_committed) ''c'' = 2"
proof -
  have "store_wf mem_rocksdb [(make_key ''c'' 1, ''bytes'')]"
    by (auto simp: store_wf_def mem_rocksdb_def name_ok_def version_ok_def split: if_splits intro!: exI [of _ "''c''"] exI [of _ 1])
  then show "cluster_ok (demo_env q) demo_committed"
    unfolding demo_committed_def
    by (rule demo_cluster_ok) (auto simp: coord_inv_def demo_state_def demo_node_def um_wf_def chunk_ok_def split: if_splits)
  show "node_has mem_rocksdb (st_nodes demo_committed) ''h:1'' ''c'' 1 ''bytes''" "next_version (st_coord demo_committed) ''c'' = 2"
    by (simp_all add: node_has_def demo_committed_def demo_state_def store_abs_def mem_rocksdb_def next_version_def)
qed

lemma demo_failed_put:
  "\<exists>s'. PutChunk demo_service (demo_env False) ''c'' 5 1 ''new'' demo_committed =
     (Inr (Inl ''metadata quorum unavailable after storage write''), s')"
proof -
  have "logged_write (env_outcome (demo_env False)) clk ty p c = Inr (False, c)" for clk ty p c
    by (simp add: logged_write_def demo_env_def)
  moreover have "case get_chunk (st_coord demo_committed) ''c'' of Some e \<Rightarrow> ce_config_state e \<noteq> TRANSITIONING | None \<Rightarrow> True"
      "rs_repl demo_service" "cast_int (length [''n1'']) = 1"
    by (simp_all add: get_chunk_def demo_committed_def demo_state_def demo_service_def cast_int_def)
  ultimately show ?thesis unfolding PutChunk_def Let_def demo_committed_def demo_put_nodes
    by (simp add: demo_put_loop del: put_loop.simps split: option.splits)
qed

theorem failed_put_erases_witness:
  "\<exists>s'. PutChunk demo_service (demo_env False) ''c'' 5 1 ''new'' demo_committed =
       (Inr (Inl ''metadata quorum unavailable after storage write''), s') \<and>
     node_has mem_rocksdb (st_nodes demo_committed) ''h:1'' ''c'' 1 ''bytes'' \<and>
     st_coord s' = st_coord demo_committed \<and> erased mem_rocksdb (st_nodes s') ''h:1'' ''c''"
proof -
  obtain s' where run: "PutChunk demo_service (demo_env False) ''c'' 5 1 ''new'' demo_committed =
      (Inr (Inl ''metadata quorum unavailable after storage write''), s')" using demo_failed_put by blast
  have db: "reliable_rocksdb (env_db (demo_env False))" using mem.reliable_rocksdb_axioms by (simp add: demo_env_def)
  from failed_put_erases [OF db demo_committed_ok(1) _ _ _ run]
  obtain ms oks where p: "st_coord s' = st_coord demo_committed" "length ms = nat 1" "set ms \<subseteq> set (get_alive_nodes (\<lambda>xs. xs) (st_coord demo_committed))"
      "subseq oks ms" "length ms < 2 * length oks" "\<forall>n \<in> set oks. erased mem_rocksdb (st_nodes s') (ne_address n) ''c''"
    by (auto simp: name_ok_def demo_committed_ok(3) version_ok_def int32_def demo_env_def)
  have "\<forall>n \<in> set oks. ne_address n = ''h:1''" "oks \<noteq> []"
    using p(3,5) subseq_members [OF p(4)] by (auto simp: demo_committed_def demo_state_def demo_node_def get_alive_nodes_def um_values_def)
  then have "erased mem_rocksdb (st_nodes s') ''h:1'' ''c''" using p(6) by (metis list.set_intros(1) neq_Nil_conv)
  then show ?thesis using run p(1) demo_committed_ok(2) by blast
qed

text \<open>What a replica change needs of the cluster.\<close>

definition change_ok :: "'db rpc_env \<Rightarrow> string \<Rightarrow> 'db rpc_state \<Rightarrow> bool" where
  "change_ok env cid s \<longleftrightarrow> coord_inv (st_coord s) \<and> visits_all (env_ord env) \<and> visits_all (env_shuffle env) \<and> id_ok cid \<and>
     length (node_table (st_coord s)) < 2 ^ 31 \<and>
     (\<forall>n \<in> set (get_alive_nodes (env_ord env) (st_coord s)). node_ok n \<and> CHR ''='' \<notin> set (ne_node_id n)) \<and>
     (\<forall>e. get_chunk (st_coord s) cid = Some e \<longrightarrow> (\<forall>r \<in> set (ce_replica_set e). entry_ok r) \<and>
        distinct (map extract_node_id (ce_replica_set e)) \<and> length (ce_replica_set e) < 2 ^ 31 - 1)"

lemma change_replicas_ok:
  assumes ok: "change_ok env cid s" and chunk: "get_chunk (st_coord s) cid = Some e" "ce_replica_set e \<noteq> []"
    and n: "0 < n" "n < 2 ^ 31"
    and t: "\<And>ids'. target_ids default_placement_config (env_shuffle env) (get_alive_nodes (env_ord env) (st_coord s)) (ce_replica_set e) n inc exc
        = Some ids' \<Longrightarrow> ids' = ids" and ids: "\<forall>nid \<in> set ids. CHR ''='' \<notin> set nid"
    and run: "change_replicas env cid n inc exc s = Inr (Inr (), s')"
  shows "\<exists>e'. get_chunk (st_coord s') cid = Some e' \<and> ce_config_state e' = STABLE \<and> ce_version e' = ce_version e \<and>
    map extract_node_id (ce_replica_set e') = ids \<and>
    (\<forall>r \<in> set (ce_replica_set e'). serves (env_db env) (st_nodes s')
       (resolve_address r (get_alive_nodes (env_ord env) (st_coord s))) cid (ce_version e))"
proof -
  let ?alive = "get_alive_nodes (env_ord env) (st_coord s)"
  obtain c' ns' where r: "reconfig (env_db env) (env_ord env) default_placement_config (env_shuffle env) (env_up env) (env_outcome env)
      (env_clk env) cid n inc exc (st_coord s, st_nodes s) = Inr (True, c', ns')" "s' = s\<lparr>st_coord := c', st_nodes := ns'\<rparr>"
    using run by (auto simp: change_replicas_def split: if_splits)
  have st: "ce_config_state e \<noteq> TRANSITIONING" using r(1) chunk(1) by (auto simp: reconfig_def)
  have h: "coord_inv (st_coord s)" "visits_all (env_ord env)" "visits_all (env_shuffle env)" "id_ok cid" "length (node_table (st_coord s)) < 2 ^ 31"
      "\<forall>x \<in> set ?alive. node_ok x" "\<forall>r \<in> set (ce_replica_set e). entry_ok r" "length (ce_replica_set e) < 2 ^ 31 - 1"
    using ok chunk(1) by (auto simp: change_ok_def)
  from reconfig_cases [OF h(1-3) chunk(1) st h(4,7) chunk(2) h(8,6,5) n, of "env_db env" default_placement_config "env_up env"
      "env_outcome env" "env_clk env" inc exc "st_nodes s", unfolded r(1)]
  obtain ids' where i: "target_ids default_placement_config (env_shuffle env) ?alive (ce_replica_set e) n inc exc = Some ids'"
      "get_chunk c' cid = Some (e\<lparr>ce_config_state := STABLE, ce_replication_factor := n,
         ce_replica_set := map (\<lambda>nid. encode_replica_entry nid ?alive) ids', ce_old_replica_set := []\<rparr>)"
      "\<forall>r \<in> set (map (\<lambda>nid. encode_replica_entry nid ?alive) ids'). serves (env_db env) ns' (resolve_address r ?alive) cid (ce_version e)"
    by auto
  have "map extract_node_id (map (\<lambda>nid. encode_replica_entry nid ?alive) ids') = ids"
    using t [OF i(1)] ids by (simp add: extract_encode map_idI)
  then show ?thesis using i(2,3) r(2) by simp
qed

text \<open>
  C22. A successful request to add a replica leaves the chunk stable on its old nodes and the new one,
  a successful request to remove one leaves it on its old nodes without that one; version and order
  are kept, and every replica answers a read with at least the chunk's version.
\<close>

theorem replica_change_exact:
  assumes ok: "change_ok env cid s" and chunk: "get_chunk (st_coord s) cid = Some e" "ce_replica_set e \<noteq> []"
  shows "(AddReplica svc env cid nid s = Inr (Inr (), s') \<longrightarrow>
      (\<exists>e'. get_chunk (st_coord s') cid = Some e' \<and> ce_config_state e' = STABLE \<and> ce_version e' = ce_version e \<and>
         map extract_node_id (ce_replica_set e') = map extract_node_id (ce_replica_set e) @ [nid] \<and>
         (\<forall>r \<in> set (ce_replica_set e'). serves (env_db env) (st_nodes s')
            (resolve_address r (get_alive_nodes (env_ord env) (st_coord s))) cid (ce_version e)))) \<and>
    (RemoveReplica svc env cid nid s = Inr (Inr (), s') \<longrightarrow>
      (\<exists>e'. get_chunk (st_coord s') cid = Some e' \<and> ce_config_state e' = STABLE \<and> ce_version e' = ce_version e \<and>
         map extract_node_id (ce_replica_set e') = filter (\<lambda>x. x \<noteq> nid) (map extract_node_id (ce_replica_set e)) \<and>
         (\<forall>r \<in> set (ce_replica_set e'). serves (env_db env) (st_nodes s')
            (resolve_address r (get_alive_nodes (env_ord env) (st_coord s))) cid (ce_version e))))"
proof (intro conjI impI)
  let ?alive = "get_alive_nodes (env_ord env) (st_coord s)" and ?old = "ce_replica_set e"
  have h: "distinct (map extract_node_id ?old)" "length ?old < 2 ^ 31 - 1" "\<forall>n \<in> set ?alive. CHR ''='' \<notin> set (ne_node_id n)"
    using ok chunk(1) by (auto simp: change_ok_def)
  have len: "cast_int (length ?old) = int (length ?old)" using h(2) by (simp add: cast_int_id)
  {
    assume run: "AddReplica svc env cid nid s = Inr (Inr (), s')"
    have nid: "nid \<noteq> []" "nid \<notin> extract_node_id ` set ?old"
        and ch: "change_replicas env cid (cast_int (length ?old) + 1) nid [] s = Inr (Inr (), s')"
      using run chunk(1) by (auto simp: AddReplica_def has_replica_node_def list_ex_iff image_iff split: if_splits)
    have al: "nid \<in> ne_node_id ` set ?alive"
    proof (rule ccontr)
      assume "nid \<notin> ne_node_id ` set ?alive"
      then have "target_ids default_placement_config (env_shuffle env) ?alive ?old (cast_int (length ?old) + 1) nid [] = None"
        using nid(1) by (auto simp: target_ids_def)
      then show False using ch chunk(1) by (auto simp: change_replicas_def reconfig_def split: if_splits)
    qed
    show "\<exists>e'. get_chunk (st_coord s') cid = Some e' \<and> ce_config_state e' = STABLE \<and> ce_version e' = ce_version e \<and>
         map extract_node_id (ce_replica_set e') = map extract_node_id ?old @ [nid] \<and>
         (\<forall>r \<in> set (ce_replica_set e'). serves (env_db env) (st_nodes s') (resolve_address r ?alive) cid (ce_version e))"
      by (rule change_replicas_ok [OF ok chunk _ _ _ _ ch])
        (use target_ids_add [OF h(1) nid(1) al nid(2) h(2)] h(2,3) len extract_no_eq al in auto)
  }
  {
    assume run: "RemoveReplica svc env cid nid s = Inr (Inr (), s')"
    have nid: "nid \<noteq> []" "nid \<in> extract_node_id ` set ?old" "1 < length ?old"
        and ch: "change_replicas env cid (cast_int (length ?old) - 1) [] nid s = Inr (Inr (), s')"
      using run chunk(1) by (auto simp: RemoveReplica_def has_replica_node_def list_ex_iff image_iff split: if_splits)
    show "\<exists>e'. get_chunk (st_coord s') cid = Some e' \<and> ce_config_state e' = STABLE \<and> ce_version e' = ce_version e \<and>
         map extract_node_id (ce_replica_set e') = filter (\<lambda>x. x \<noteq> nid) (map extract_node_id ?old) \<and>
         (\<forall>r \<in> set (ce_replica_set e'). serves (env_db env) (st_nodes s') (resolve_address r ?alive) cid (ce_version e))"
      by (rule change_replicas_ok [OF ok chunk _ _ _ _ ch])
        (use target_ids_remove [OF h(1) nid(1,2)] h(2) nid(3) len extract_no_eq in auto)
  }
qed

definition demo_change :: "mem_db rpc_state" where
  "demo_change = \<lparr>st_coord = demo_coord True, st_policy = [],
     st_nodes = [(''h:1'', \<lparr>sn_store = Some [(make_key ''c'' 7, ''bytes'')], sn_reporter = new_reporter\<rparr>)]\<rparr>"

lemma demo_change_ok: "change_ok (demo_env True) ''c'' demo_change"
proof -
  have "\<forall>n \<in> set (get_alive_nodes (\<lambda>xs. xs) (demo_coord True)). CHR ''='' \<notin> set (ne_node_id n)"
    by (simp add: demo_coord_def get_alive_nodes_def um_values_def demo_node_def)
  moreover have "distinct (map extract_node_id (ce_replica_set demo_chunk))" "length (ce_replica_set demo_chunk) < 2 ^ 31 - 1"
    by (simp_all add: demo_coord_facts extract_node_id_def)
  ultimately show ?thesis
    using demo_coord_facts(1,2,6,7) [of True] demo_coord_facts(3,4) by (simp add: change_ok_def demo_change_def demo_env_def)
qed

lemma demo_remove: "\<exists>s'. RemoveReplica demo_service (demo_env True) ''c'' ''n2'' demo_change = Inr (Inr (), s')"
proof -
  let ?alive = "get_alive_nodes (\<lambda>xs. xs) (demo_coord True)" and ?new = "[''n1=h:1'']"
  have al: "?alive = [demo_node ''n1'' ''h:1'' True, demo_node ''n2'' ''h:2'' True, demo_node ''n3'' ''h:3'' True]"
    by (simp add: demo_coord_def get_alive_nodes_def um_values_def demo_node_def)
  have "target_ids default_placement_config (\<lambda>xs. xs) ?alive (ce_replica_set demo_chunk) (cast_int (length (ce_replica_set demo_chunk)) - 1) [] ''n2'' =
      Some (filter (\<lambda>x. x \<noteq> ''n2'') (map extract_node_id (ce_replica_set demo_chunk)))"
    by (rule target_ids_remove) (simp_all add: demo_coord_facts extract_node_id_def)
  then have t: "target_ids default_placement_config (\<lambda>xs. xs) ?alive (ce_replica_set demo_chunk) 1 [] ''n2'' = Some [''n1'']"
    by (simp add: demo_coord_facts extract_node_id_def cast_int_def)
  have new: "?new = map (\<lambda>nid. encode_replica_entry nid ?alive) [''n1'']"
    by (simp add: al encode_replica_entry_def demo_node_def)
  have rd: "store_read mem_rocksdb ''c'' 7 (Some [(make_key ''c'' 7, ''bytes'')]) = Some (''bytes'', 7)" by code_simp
  have res: "resolve_address ''n1=h:1'' ?alive = ''h:1''" "extract_node_id ''n1=h:1'' = ''n1''" "extract_node_id ''n2=h:2'' = ''n2''"
    by (simp_all add: resolve_address_def extract_node_id_def)
  have ok: "replicas_ok (ce_replica_set demo_chunk)" "replicas_ok ?new" "ce_config_state demo_chunk \<noteq> TRANSITIONING" "ce_version demo_chunk = 7"
    by (simp_all add: demo_coord_facts replicas_ok_def replica_ok_def) (simp add: demo_chunk_def)
  have "\<exists>c' ns'. reconfig mem_rocksdb (\<lambda>xs. xs) default_placement_config (\<lambda>xs. xs) (\<lambda>_. True) (\<lambda>_ _. Some 1) (\<lambda>_. 0) ''c'' 1 [] ''n2''
      (demo_coord True, st_nodes demo_change) = Inr (True, c', ns')"
    unfolding reconfig_steps [OF demo_coord_facts(2) ok(3) refl t new demo_coord_facts(3) ok(1,2)]
    by (simp add: copy_to_new_replicas_def demo_coord_facts res Let_def ok(4) demo_change_def ReadChunk_def rd)
  moreover have "has_replica_node demo_chunk ''n2''" by (simp add: has_replica_node_def demo_coord_facts res)
  ultimately show ?thesis
    using demo_coord_facts(2) [of True]
    by (auto simp: RemoveReplica_def demo_service_def demo_change_def change_replicas_def demo_env_def demo_coord_facts cast_int_def)
qed

theorem replica_change_exact_witness:
  "\<exists>s' e'. RemoveReplica demo_service (demo_env True) ''c'' ''n2'' demo_change = Inr (Inr (), s') \<and>
     get_chunk (st_coord s') ''c'' = Some e' \<and> ce_config_state e' = STABLE \<and> map extract_node_id (ce_replica_set e') = [''n1'']"
proof -
  obtain s' where run: "RemoveReplica demo_service (demo_env True) ''c'' ''n2'' demo_change = Inr (Inr (), s')" using demo_remove by blast
  have chunk: "get_chunk (st_coord demo_change) ''c'' = Some demo_chunk" "ce_replica_set demo_chunk \<noteq> []"
    by (simp_all add: demo_change_def demo_coord_facts)
  from replica_change_exact [OF demo_change_ok chunk, of demo_service "''n2''" s'] run
  obtain e' where "get_chunk (st_coord s') ''c'' = Some e'" "ce_config_state e' = STABLE"
      "map extract_node_id (ce_replica_set e') = filter (\<lambda>x. x \<noteq> ''n2'') (map extract_node_id (ce_replica_set demo_chunk))"
    by blast
  then show ?thesis using run by (auto simp: demo_coord_facts extract_node_id_def)
qed

lemma NodeHeartbeat_ok_run:
  assumes "NodeHeartbeat svc env req s = Inr (resp, s')" and "hr_ok resp"
    and "cmd_ok (Cmd_heartbeat (hb_node_id req) (hb_address req) (hb_load_fraction req) (hb_free_bytes req) (hb_total_bytes req) (hb_failure_rate_7d req))"
  shows "\<exists>idx. st_coord s' = apply_heartbeat (env_clk env idx) (hb_node_id req) (hb_address req) (fl32 (round6 (hb_load_fraction req)))
      (hb_free_bytes req) (hb_total_bytes req) (fl32 (round6 (hb_failure_rate_7d req))) (st_coord s) \<and>
    hr_assigned resp = assigned_chunk_ids (hb_node_id req) (get_chunks (env_ord_chunks env) (st_coord s')) \<and>
    (rs_policy svc \<longrightarrow> st_policy s' = fold (\<lambda>(cid, cnt). record_accesses cid cnt (ucast (rs_heartbeat_interval_ms svc)))
      (hb_access_counts req) (st_policy s))"
  using assms(1,2) logged_write_cmd [OF assms(3), of "env_outcome env" "env_clk env" "st_coord s"]
  by (auto simp: NodeHeartbeat_def Let_def split: if_splits option.splits)

text \<open>Reports of distinct chunks add up, whatever the order.\<close>

lemma record_accesses_fold:
  assumes "distinct (map fst counts)"
  shows "pending_count (access_state (fold (\<lambda>(cid, cnt). record_accesses cid cnt w) counts st) k) =
    pending_count (access_state st k) + (case um_find counts k of Some n \<Rightarrow> n | None \<Rightarrow> 0)"
  using assms
proof (induction counts arbitrary: st)
  case (Cons c counts)
  obtain cid cnt where c: "c = (cid, cnt)" by fastforce
  have step: "pending_count (access_state (record_accesses cid cnt w st) k) =
      pending_count (access_state st k) + (if k = cid then cnt else 0)"
    by (simp add: record_accesses_def access_state_def Let_def split: option.split)
  have "k = cid \<Longrightarrow> um_find counts k = None" using Cons.prems c by (auto simp: um_find_None_iff)
  then show ?case using Cons.IH [of "record_accesses cid cnt w st"] Cons.prems step c by auto
qed simp

text \<open>
  A heartbeat that is answered OK is recorded: the node is alive under the reported address, with
  the clock of the commit; the answer lists, each once, exactly the chunks one of whose replica
  entries names the node; the reported accesses are added to the policy's counters.
\<close>

theorem heartbeat_recorded:
  assumes inv: "coord_inv (st_coord s)" and ord: "visits_all (env_ord_chunks env)" and counts: "distinct (map fst (hb_access_counts req))"
    and ok: "cmd_ok (Cmd_heartbeat (hb_node_id req) (hb_address req) (hb_load_fraction req) (hb_free_bytes req)
        (hb_total_bytes req) (hb_failure_rate_7d req))"
    and run: "NodeHeartbeat svc env req s = Inr (resp, s')" "hr_ok resp"
  shows "(\<exists>n idx. um_find (node_table (st_coord s')) (hb_node_id req) = Some n \<and> ne_alive n \<and> ne_address n = hb_address req \<and>
      ne_last_seen_ms n = env_clk env idx) \<and>
    distinct (hr_assigned resp) \<and>
    (\<forall>cid. cid \<in> set (hr_assigned resp) \<longleftrightarrow>
       (\<exists>e. get_chunk (st_coord s) cid = Some e \<and> hb_node_id req \<in> extract_node_id ` set (ce_replica_set e))) \<and>
    (rs_policy svc \<longrightarrow> (\<forall>cid. pending_count (access_state (st_policy s') cid) =
       pending_count (access_state (st_policy s) cid) + (case um_find (hb_access_counts req) cid of Some n \<Rightarrow> n | None \<Rightarrow> 0)))"
proof -
  obtain idx where r: "st_coord s' = apply_heartbeat (env_clk env idx) (hb_node_id req) (hb_address req) (fl32 (round6 (hb_load_fraction req)))
      (hb_free_bytes req) (hb_total_bytes req) (fl32 (round6 (hb_failure_rate_7d req))) (st_coord s)"
    "hr_assigned resp = assigned_chunk_ids (hb_node_id req) (get_chunks (env_ord_chunks env) (st_coord s'))"
    "rs_policy svc \<longrightarrow> st_policy s' = fold (\<lambda>(cid, cnt). record_accesses cid cnt (ucast (rs_heartbeat_interval_ms svc)))
      (hb_access_counts req) (st_policy s)"
    using NodeHeartbeat_ok_run [OF run ok] by blast
  let ?cs = "get_chunks (env_ord_chunks env) (st_coord s')"
  have inv': "coord_inv (st_coord s')" unfolding r(1) using inv by (rule coord_inv_heartbeat)
  have cs: "e \<in> set ?cs \<longleftrightarrow> get_chunk (st_coord s) (ce_chunk_id e) = Some e" for e
    using get_chunks_iff [OF ord inv', of e] by (simp add: r(1))
  have key: "get_chunk (st_coord s) k = Some e \<Longrightarrow> ce_chunk_id e = k" for k e using inv by (auto simp: coord_inv_def get_chunk_def)
  have "distinct (map ce_chunk_id (um_values (chunk_table (st_coord s'))))"
    using inv' um_values_ids [of "chunk_table (st_coord s')" ce_chunk_id] by (simp add: coord_inv_def um_wf_def)
  then have "distinct (map ce_chunk_id ?cs)" using ord by (simp add: get_chunks_def visits_all_simps)
  then have "distinct (hr_assigned resp)" by (simp add: r(2) assigned_chunk_ids_def distinct_map_filter)
  moreover have "cid \<in> set (hr_assigned resp) \<longleftrightarrow>
      (\<exists>e. get_chunk (st_coord s) cid = Some e \<and> hb_node_id req \<in> extract_node_id ` set (ce_replica_set e))" for cid
  proof -
    have "cid \<in> set (hr_assigned resp) \<longleftrightarrow>
        (\<exists>e \<in> set ?cs. ce_chunk_id e = cid \<and> hb_node_id req \<in> extract_node_id ` set (ce_replica_set e))"
      unfolding r(2) assigned_chunk_ids_def strip_node_id_eq by (simp add: list_ex_iff image_iff Bex_def) metis
    then show ?thesis using cs key by blast
  qed
  moreover have "um_find (node_table (st_coord s')) (hb_node_id req) \<noteq> None" by (simp add: r(1) apply_heartbeat_def)
  ultimately show ?thesis using r(3) record_accesses_fold [OF counts] by (auto simp: r(1) apply_heartbeat_def)
qed

theorem heartbeat_recorded_witness:
  "\<exists>resp s'. NodeHeartbeat demo_service (demo_env True) \<lparr>hb_node_id = ''n2'', hb_address = ''h:2'', hb_load_fraction = 0,
       hb_free_bytes = 5, hb_total_bytes = 9, hb_failure_rate_7d = 0, hb_access_counts = [(''c'', 3)]\<rparr> demo_change = Inr (resp, s') \<and>
     set (hr_assigned resp) = {''c''} \<and> pending_count (access_state (st_policy s') ''c'') = 3"
proof -
  let ?req = "\<lparr>hb_node_id = ''n2'', hb_address = ''h:2'', hb_load_fraction = 0, hb_free_bytes = 5, hb_total_bytes = 9,
       hb_failure_rate_7d = 0, hb_access_counts = [(''c'', 3)]\<rparr>"
  have ok: "cmd_ok (Cmd_heartbeat (hb_node_id ?req) (hb_address ?req) (hb_load_fraction ?req) (hb_free_bytes ?req)
      (hb_total_bytes ?req) (hb_failure_rate_7d ?req))" by (simp add: id_ok_def pow2_def)
  have "\<exists>resp s'. NodeHeartbeat demo_service (demo_env True) ?req demo_change = Inr (resp, s') \<and> hr_ok resp"
    using logged_write_cmd [OF ok, of "env_outcome (demo_env True)" "env_clk (demo_env True)" "st_coord demo_change"]
    by (simp add: NodeHeartbeat_def demo_service_def demo_env_def Let_def)
  then obtain resp s' where run: "NodeHeartbeat demo_service (demo_env True) ?req demo_change = Inr (resp, s')" "hr_ok resp" by blast
  have inv: "coord_inv (st_coord demo_change)" by (simp add: demo_change_def demo_coord_facts)
  have ord: "visits_all (env_ord_chunks (demo_env True))" by (simp add: demo_env_def)
  have d: "distinct (map fst (hb_access_counts ?req))" by simp
  note h = heartbeat_recorded [OF inv ord d ok run]
  have "cid \<in> set (hr_assigned resp) \<longleftrightarrow> cid = ''c''" for cid
  proof -
    have "get_chunk (st_coord demo_change) cid = (if cid = ''c'' then Some demo_chunk else None)"
      by (simp add: demo_change_def demo_coord_def get_chunk_def)
    moreover have "''n2'' \<in> extract_node_id ` set (ce_replica_set demo_chunk)"
      by (simp add: demo_coord_facts extract_node_id_def)
    ultimately show ?thesis using h by auto
  qed
  moreover have "pending_count (access_state (st_policy s') ''c'') = 3"
    using h by (simp add: demo_service_def demo_change_def access_state_def new_access_state_def)
  ultimately show ?thesis using run(1) by blast
qed

end
