(* ===== verification/Meta_Follower.thy ===== *)
theory Meta_Follower
  imports Wal_Apply
begin

text \<open>
  The follower side of metadata replication, \<^verbatim>\<open>src/meta/meta_follower.{h,cpp}\<close>, the
  handlers of \<^verbatim>\<open>MetaReplService\<close> that call it (\<^verbatim>\<open>src/meta/meta_rpc.cpp\<close>), and the
  commit callback and startup sequence of \<^verbatim>\<open>src/bin/meta_server.cpp\<close>. The lemmas show that
  a follower's log only grows at its end, that an acknowledged entry is in it, and what the tables
  of a server are after its commits.
\<close>

section \<open>The follower object\<close>

record 'db follower =
  fo_wal :: "'db wal"
  fo_term :: u64
  fo_snapshot_lsn :: u64

text \<open>
  \<^verbatim>\<open>handle_append\<close>. The previous term and the leader's commit index are unnamed
  parameters in the source: they are not looked at.
\<close>

definition handle_append ::
  "'db rocksdb_ops \<Rightarrow> u64 \<Rightarrow> u64 \<Rightarrow> u64 \<Rightarrow> u64 \<Rightarrow> u64 \<Rightarrow> wal_entry_type \<Rightarrow> string \<Rightarrow> u64 \<Rightarrow>
     'db follower \<Rightarrow> (cxx_exc + bool) \<times> 'db follower" where
  "handle_append R leader_term prev_log_index prev_log_term log_index t ty payload leader_committed f =
     (if leader_term < fo_term f then (Inr False, f)
      else
        let f1 = f\<lparr>fo_term := leader_term\<rparr>;
            local_last = last_index (fo_wal f1)
        in if log_index \<le> local_last then
             (case wal_read_entry R log_index (fo_wal f1) of
                Inl x \<Rightarrow> (Inl x, f1)
              | Inr None \<Rightarrow> (Inr True, f1)
              | Inr (Some existing) \<Rightarrow>
                  if we_term existing \<noteq> t \<or> we_type existing \<noteq> ty \<or> we_payload existing \<noteq> payload
                  then (Inr False, f1) else (Inr True, f1))
           else if local_last + 1 < log_index then (Inr False, f1)
           else if prev_log_index \<noteq> local_last then (Inr False, f1)
           else (case wal_append R ty t payload (fo_wal f1) of
                   (Inl x, w) \<Rightarrow> (Inl x, f1\<lparr>fo_wal := w\<rparr>)
                 | (Inr _, w) \<Rightarrow> (Inr True, f1\<lparr>fo_wal := w\<rparr>)))"

text \<open>
  \<^verbatim>\<open>handle_commit\<close>, up to the call of \<^verbatim>\<open>on_commit_\<close>: the boolean tells whether
  the callback is called.
\<close>

definition handle_commit :: "'db rocksdb_ops \<Rightarrow> u64 \<Rightarrow> u64 \<Rightarrow> 'db follower \<Rightarrow> cxx_exc + bool \<times> 'db follower" where
  "handle_commit R log_index t f =
     (if last_index (fo_wal f) < log_index then Inr (False, f)
      else ebind (wal_commit R log_index (fo_wal f)) (\<lambda>w. Inr (True, f\<lparr>fo_wal := w\<rparr>)))"

definition install_snapshot_lsn :: "string \<Rightarrow> u64 \<Rightarrow> 'db follower \<Rightarrow> 'db follower" where
  "install_snapshot_lsn data lsn f = (if lsn < fo_snapshot_lsn f then f else f\<lparr>fo_snapshot_lsn := lsn\<rparr>)"

definition catch_up_from :: "'db follower \<Rightarrow> u64" where
  "catch_up_from f = committed (fo_wal f) + 1"

section \<open>The server around it\<close>

record 'db meta_node =
  mn_follower :: "'db follower"
  mn_coord :: coordinator

text \<open>
  The commit callback of \<^verbatim>\<open>main\<close>: read the entry back and apply it. \<open>clk idx\<close> is
  the clock when entry \<open>idx\<close> is applied.
\<close>

definition on_commit :: "'db rocksdb_ops \<Rightarrow> (u64 \<Rightarrow> u64) \<Rightarrow> u64 \<Rightarrow> 'db wal \<Rightarrow> coordinator \<Rightarrow> cxx_exc + coordinator" where
  "on_commit R clk idx w coord = ebind (wal_read_entry R idx w) (\<lambda>re. case re of
     None \<Rightarrow> Inr coord
   | Some e \<Rightarrow> apply_wal_entry (clk idx) e coord)"

text \<open>\<^verbatim>\<open>MetaReplService::AppendEntry\<close>: the response carries the follower's term.\<close>

definition AppendEntry ::
  "'db rocksdb_ops \<Rightarrow> u64 \<Rightarrow> u64 \<Rightarrow> u64 \<Rightarrow> wal_entry \<Rightarrow> u64 \<Rightarrow> 'db meta_node \<Rightarrow>
     (cxx_exc + bool \<times> u64) \<times> 'db meta_node" where
  "AppendEntry R leader_term prev_log_index prev_log_term e leader_committed nd =
     (let (r, f) = handle_append R leader_term prev_log_index prev_log_term (we_index e) (we_term e)
                     (we_type e) (we_payload e) leader_committed (mn_follower nd);
          nd1 = nd\<lparr>mn_follower := f\<rparr>
      in case r of Inl x \<Rightarrow> (Inl x, nd1) | Inr ok \<Rightarrow> (Inr (ok, fo_term f), nd1))"

text \<open>\<^verbatim>\<open>MetaReplService::CommitEntry\<close> with the callback of the server.\<close>

definition CommitEntry ::
  "'db rocksdb_ops \<Rightarrow> (u64 \<Rightarrow> u64) \<Rightarrow> u64 \<Rightarrow> u64 \<Rightarrow> 'db meta_node \<Rightarrow> (cxx_exc + bool) \<times> 'db meta_node" where
  "CommitEntry R clk log_index t nd = (case handle_commit R log_index t (mn_follower nd) of
     Inl x \<Rightarrow> (Inl x, nd)
   | Inr (called, f) \<Rightarrow>
       (let nd1 = nd\<lparr>mn_follower := f\<rparr> in
        if called
        then (case on_commit R clk log_index (fo_wal f) (mn_coord nd) of
                Inl x \<Rightarrow> (Inl x, nd1)
              | Inr c \<Rightarrow> (Inr True, nd1\<lparr>mn_coord := c\<rparr>))
        else (Inr True, nd1)))"

text \<open>
  The startup of \<^verbatim>\<open>main\<close>: open the log and replay its committed entries into empty
  tables; a leader then removes the data of uncommitted puts (the calls are returned).
\<close>

definition server_start ::
  "'db rocksdb_ops \<Rightarrow> (node_entry list \<Rightarrow> node_entry list) \<Rightarrow> (u64 \<Rightarrow> u64) \<Rightarrow> bool \<Rightarrow> 'db option \<Rightarrow>
     cxx_exc + 'db wal \<times> coordinator \<times> (string \<times> string) list" where
  "server_start R ord clk is_leader opened =
     ebind (wal_open R opened) (\<lambda>w.
     ebind (wal_replay R (replay_callback clk) w empty_coordinator) (\<lambda>coord.
     if is_leader
     then ebind (cleanup_uncommitted_puts R ord w coord) (\<lambda>calls. Inr (w, coord, calls))
     else Inr (w, coord, [])))"

section \<open>Appending\<close>

lemma handle_append_stale:
  "lt < fo_term f \<Longrightarrow> handle_append R lt p pt i t ty pl lc f = (Inr False, f)"
  by (simp add: handle_append_def)

lemma handle_append_term:
  "handle_append R lt p pt i t ty pl lc f = (r, f') \<Longrightarrow> fo_term f \<le> fo_term f' \<and> (lt \<le> fo_term f')"
  by (auto simp: handle_append_def Let_def split: if_splits sum.splits option.splits prod.splits)

lemma handle_append_snapshot:
  "handle_append R lt p pt i t ty pl lc f = (r, f') \<Longrightarrow> fo_snapshot_lsn f' = fo_snapshot_lsn f"
  by (auto simp: handle_append_def Let_def split: if_splits sum.splits option.splits prod.splits)

text \<open>What the abstract log of a follower does with an append request: \<open>True\<close> for an acknowledgement.\<close>

definition spec_handle_append :: "u64 \<Rightarrow> u64 \<Rightarrow> u64 \<Rightarrow> wal_entry_type \<Rightarrow> string \<Rightarrow> log_spec \<Rightarrow> bool \<times> log_spec" where
  "spec_handle_append prev i t ty pl s =
     (if i = 0 then (True, s)
      else if unat i \<le> length (spec_entries s)
      then (let e = spec_entries s ! (unat i - 1) in
            (we_term e = t \<and> we_type e = ty \<and> we_payload e = pl, s))
      else if unat i = Suc (length (spec_entries s)) \<and> unat prev = length (spec_entries s)
      then (True, spec_append ty t pl s)
      else (False, s))"

context reliable_rocksdb
begin

lemma read_zero:
  assumes "wal_rel R w s" and "db_get R (wal_db w) (wal_key 0) = None"
  shows "wal_read_entry R 0 w = Inr None"
  using assms(2) by (simp add: wal_read_entry_def)

text \<open>
  The handler implements the abstract one. Index 0 is never written by \<open>wal_append\<close> on a log
  with room, so the store has no entry there.
\<close>

lemma handle_append_rel:
  assumes rel: "wal_rel R (fo_wal f) s" and zero: "db_get R (wal_db (fo_wal f)) (wal_key 0) = None"
    and pl: "payload_ok pl" and ty: "type_ok ty" and room: "length (spec_entries s) < 2 ^ 64 - 2"
    and cur: "fo_term f \<le> lt"
    and ha: "handle_append R lt prev pt i t ty pl lc f = (r, f')"
  shows "\<exists>s'. spec_handle_append prev i t ty pl s = (r = Inr True, s') \<and> (r = Inr True \<or> r = Inr False) \<and>
    wal_rel R (fo_wal f') s' \<and> fo_term f' = lt \<and> db_get R (wal_db (fo_wal f')) (wal_key 0) = None"
proof -
  have ncur: "\<not> lt < fo_term f" using cur by (simp add: not_less)
  define n where "n = length (spec_entries s)"
  have last: "unat (last_index (fo_wal f)) = n" using wal_rel_last [OF rel] by (simp add: n_def)
  have n1: "unat (last_index (fo_wal f) + 1) = Suc n"
    using last room unat_u64_Suc [of "last_index (fo_wal f)"] u64_not_max [of "last_index (fo_wal f)"]
    by (simp add: n_def)
  consider (zero) "i = 0" | (old) "i \<noteq> 0" "unat i \<le> n" | (gap) "Suc n < unat i" | (next_) "unat i = Suc n"
    by (cases "i = 0"; cases "unat i \<le> n"; cases "unat i = Suc n") auto
  then show ?thesis
  proof cases
    case zero
    then have "wal_read_entry R i (fo_wal f) = Inr None" using read_zero [OF rel \<open>db_get _ _ _ = None\<close>] by simp
    then show ?thesis using ha zero ncur rel \<open>db_get _ _ _ = None\<close>
      by (auto simp: handle_append_def spec_handle_append_def Let_def)
  next
    case old
    then have "0 < unat i" by (simp add: unat_gt_0)
    then have "1 \<le> i" by (simp add: word_le_nat_alt)
    then have rd: "wal_read_entry R i (fo_wal f) = Inr (Some (spec_entries s ! (unat i - 1)))"
      using wal_rel_read [OF rel] old by (simp add: n_def)
    have "i \<le> last_index (fo_wal f)" using old last by (simp add: word_le_nat_alt)
    then show ?thesis using ha old ncur rel rd \<open>db_get _ _ _ = None\<close>
      by (auto simp: handle_append_def spec_handle_append_def Let_def n_def split: if_splits)
  next
    case gap
    then have "\<not> i \<le> last_index (fo_wal f)" "last_index (fo_wal f) + 1 < i"
      using last n1 by (simp_all add: word_le_nat_alt word_less_nat_alt)
    then show ?thesis using ha gap ncur rel \<open>db_get _ _ _ = None\<close>
      by (auto simp: handle_append_def spec_handle_append_def Let_def n_def)
  next
    case next_
    then have c1: "\<not> i \<le> last_index (fo_wal f)" and c2: "\<not> last_index (fo_wal f) + 1 < i"
      using last n1 by (simp_all add: word_le_nat_alt word_less_nat_alt)
    have i0: "i \<noteq> 0" using next_ by auto
    have prev: "prev \<noteq> last_index (fo_wal f) \<longleftrightarrow> unat prev \<noteq> n" using last by (metis word_unat_eq_iff)
    obtain ra w' where wa: "wal_append R ty t pl (fo_wal f) = (ra, w')" by (cases "wal_append R ty t pl (fo_wal f)")
    have ra: "ra = Inr (word_of_nat (Suc (length (spec_entries s))))" "wal_rel R w' (spec_append ty t pl s)"
      using append_rel [OF rel pl ty room wa] by auto
    have "last_index (fo_wal f) + 1 \<noteq> 0" using n1 by auto
    then have "db_get R (wal_db w') (wal_key 0) = None"
      using append_get [OF pl wa, of "wal_key 0"] \<open>db_get R (wal_db (fo_wal f)) (wal_key 0) = None\<close> by simp
    then show ?thesis
      using ha c1 c2 i0 prev ra wa ncur rel next_ \<open>db_get R (wal_db (fo_wal f)) (wal_key 0) = None\<close>
      by (auto simp: handle_append_def spec_handle_append_def Let_def n_def del: of_nat_Suc)
  qed
qed

end

section \<open>Committing in order\<close>

text \<open>
  A server is synchronised with its log when its tables are what the committed commands, run in
  log order, make of the empty tables.
\<close>

definition node_synced :: "'db rocksdb_ops \<Rightarrow> (u64 \<Rightarrow> u64) \<Rightarrow> u64 \<Rightarrow> meta_cmd list \<Rightarrow> 'db meta_node \<Rightarrow> bool" where
  "node_synced R clk t cmds nd \<longleftrightarrow> (\<exists>s. wal_rel R (fo_wal (mn_follower nd)) s \<and> spec_entries s = cmd_entries 0 t cmds \<and>
     mn_coord nd = run_cmds clk 0 (take (unat (committed (fo_wal (mn_follower nd)))) cmds) empty_coordinator)"

lemma server_start_rel:
  assumes rel: "wal_rel R w s" and es: "spec_entries s = cmd_entries 0 t cmds" and ok: "\<forall>cmd \<in> set cmds. cmd_ok cmd"
  shows "server_start R ord clk is_leader (Some (wal_db w)) =
    (let coord = run_cmds clk 0 (take (unat (committed w)) cmds) empty_coordinator in
     Inr (w, coord, if is_leader then concat (map (put_deletions ord coord) (drop (unat (committed w)) cmds)) else []))"
proof -
  define n where "n = unat (committed w)"
  have n: "spec_committed s = n" using wal_rel_committed [OF rel] by (simp add: n_def)
  have "\<forall>cmd \<in> set (take n cmds). cmd_ok cmd" using ok by (meson in_set_takeD)
  then have "wal_replay R (replay_callback clk) w empty_coordinator = Inr (run_cmds clk 0 (take n cmds) empty_coordinator)"
    by (simp add: wal_replay_rel [OF rel] spec_replay_def es n take_cmd_entries replay_cmd_entries)
  moreover have "wal_open R (Some (wal_db w)) = Inr w" using wal_rel_reopen [OF rel] by auto
  ultimately show ?thesis
    using cleanup_calls [OF rel es ok] by (simp add: server_start_def Let_def n n_def [symmetric])
qed

context reliable_rocksdb
begin

text \<open>A commit of any entry of the log: it is applied to the tables as they are.\<close>

lemma commit_any_rel:
  assumes rel: "wal_rel R (fo_wal (mn_follower nd)) s" and es: "spec_entries s = cmd_entries 0 t cmds"
    and ok: "\<forall>cmd \<in> set cmds. cmd_ok cmd" and n: "n < length cmds"
  shows "\<exists>nd'. CommitEntry R clk (word_of_nat (Suc n)) t' nd = (Inr True, nd') \<and>
    wal_rel R (fo_wal (mn_follower nd')) (spec_commit (Suc n) s) \<and>
    mn_coord nd' = apply_cmd (clk (word_of_nat (Suc n))) (cmds ! n) (mn_coord nd)"
proof -
  define w where "w = fo_wal (mn_follower nd)"
  have "length cmds < 2 ^ 64 - 1" using wal_relD(1) [OF rel] es by simp
  then have ui: "unat (word_of_nat (Suc n) :: u64) = Suc n" using n by (intro unat_u64_of_nat) simp
  have le: "\<not> last_index w < word_of_nat (Suc n)"
    using wal_rel_last [OF rel] es n ui by (simp add: w_def word_less_nat_alt del: of_nat_Suc)
  obtain w' where w': "wal_commit R (word_of_nat (Suc n)) w = Inr w'" "wal_rel R w' (spec_commit (Suc n) s)"
    using commit_rel [OF rel, of "word_of_nat (Suc n)"] ui n es by (auto simp: w_def simp del: of_nat_Suc)
  have rd: "wal_read_entry R (word_of_nat (Suc n)) w' = Inr (Some (cmd_entry (word_of_nat (Suc n)) t (cmds ! n)))"
    using wal_relD(5) [OF w'(2), of n] n es nth_cmd_entries [OF n, of 0 t] by (simp add: spec_commit_def del: of_nat_Suc)
  define c' where "c' = apply_cmd (clk (word_of_nat (Suc n))) (cmds ! n) (mn_coord nd)"
  have "on_commit R clk (word_of_nat (Suc n)) w' (mn_coord nd) = Inr c'"
    using rd apply_cmd_entry ok n by (simp add: on_commit_def c'_def del: of_nat_Suc)
  then have "CommitEntry R clk (word_of_nat (Suc n)) t' nd =
      (Inr True, nd\<lparr>mn_follower := (mn_follower nd)\<lparr>fo_wal := w'\<rparr>, mn_coord := c'\<rparr>)"
    using le w' by (simp add: CommitEntry_def handle_commit_def w_def Let_def del: of_nat_Suc)
  then show ?thesis using w'(2) by (simp add: c'_def del: of_nat_Suc)
qed

lemma commit_next_rel:
  assumes rel: "wal_rel R (fo_wal (mn_follower nd)) s" and es: "spec_entries s = cmd_entries 0 t cmds"
    and ok: "\<forall>cmd \<in> set cmds. cmd_ok cmd" and c: "unat (committed (fo_wal (mn_follower nd))) < length cmds"
    and coord: "mn_coord nd = run_cmds clk 0 (take (unat (committed (fo_wal (mn_follower nd)))) cmds) empty_coordinator"
  shows "\<exists>nd'. CommitEntry R clk (committed (fo_wal (mn_follower nd)) + 1) t nd = (Inr True, nd') \<and> node_synced R clk t cmds nd'"
proof -
  define n where "n = unat (committed (fo_wal (mn_follower nd)))"
  have i: "committed (fo_wal (mn_follower nd)) + 1 = word_of_nat (Suc n)" by (simp add: n_def)
  have n: "n < length cmds" using c by (simp add: n_def)
  obtain nd' where nd': "CommitEntry R clk (word_of_nat (Suc n)) t nd = (Inr True, nd')"
      "wal_rel R (fo_wal (mn_follower nd')) (spec_commit (Suc n) s)"
      "mn_coord nd' = apply_cmd (clk (word_of_nat (Suc n))) (cmds ! n) (mn_coord nd)"
    using commit_any_rel [OF rel es ok n] by blast
  have "unat (committed (fo_wal (mn_follower nd'))) = Suc n"
    using wal_rel_committed [OF nd'(2)] wal_rel_committed [OF rel] by (simp add: spec_commit_def n_def)
  moreover have "mn_coord nd' = run_cmds clk 0 (take (Suc n) cmds) empty_coordinator"
    using nd'(3) coord n by (simp add: take_Suc_conv_app_nth run_cmds_append n_def [symmetric] min_def)
  moreover have "spec_entries (spec_commit (Suc n) s) = cmd_entries 0 t cmds" using es by (simp add: spec_commit_def)
  ultimately have "node_synced R clk t cmds nd'" using nd'(2) unfolding node_synced_def by metis
  then show ?thesis using nd'(1) unfolding i by blast
qed

end

section \<open>Properties\<close>


lemma mem_wal_empty:
  "wal_rel mem_rocksdb \<lparr>wal_db = [], last_index = 0, committed = 0\<rparr> \<lparr>spec_entries = [], spec_committed = 0\<rparr>"
  using wal_rel_empty [of mem_rocksdb "[]"] by (simp add: wal_open_def mem_rocksdb_def)


text \<open>
  A leader of an older term is refused: no acknowledgement and no change at all; and no
  request, whatever its outcome, ever lowers the term.
\<close>

theorem stale_leader_refused:
  "(lt < fo_term f \<longrightarrow> handle_append R lt prev pt i t ty pl lc f = (Inr False, f)) \<and>
   fo_term f \<le> fo_term (snd (handle_append R lt prev pt i t ty pl lc f))"
  using handle_append_stale handle_append_term by (metis prod.collapse)

theorem stale_leader_refused_witness:
  "handle_append mem_rocksdb 1 0 1 1 1 DELETE_CHUNK ''x'' 0
     \<lparr>fo_wal = \<lparr>wal_db = [], last_index = 0, committed = 0\<rparr>, fo_term = 2, fo_snapshot_lsn = 0\<rparr> =
   (Inr False, \<lparr>fo_wal = \<lparr>wal_db = [], last_index = 0, committed = 0\<rparr>, fo_term = 2, fo_snapshot_lsn = 0\<rparr>)"
  using stale_leader_refused [of 1 "\<lparr>fo_wal = \<lparr>wal_db = [], last_index = 0, committed = 0\<rparr>, fo_term = 2, fo_snapshot_lsn = 0\<rparr>"
    mem_rocksdb 0 1 1 1 DELETE_CHUNK "''x''" 0] by simp

text \<open>
  Starting a server on the store of a log of well-formed commands succeeds and gives the tables
  the committed commands make; a leader also asks to delete the data of the uncommitted puts.
\<close>

theorem server_start_recovers:
  assumes "wal_rel R w s" and "spec_entries s = cmd_entries 0 t cmds" and "\<forall>cmd \<in> set cmds. cmd_ok cmd"
  shows "server_start R ord clk is_leader (Some (wal_db w)) =
    (let coord = run_cmds clk 0 (take (unat (committed w)) cmds) empty_coordinator in
     Inr (w, coord, if is_leader then concat (map (put_deletions ord coord) (drop (unat (committed w)) cmds)) else []))"
  by (rule server_start_rel [OF assms])

theorem server_start_recovers_witness:
  "server_start mem_rocksdb (\<lambda>xs. xs) (\<lambda>_. 0) True (Some []) =
     Inr (\<lparr>wal_db = [], last_index = 0, committed = 0\<rparr>, empty_coordinator, [])"
  using server_start_recovers [OF mem_wal_empty, of 1 "[]" "\<lambda>xs. xs" "\<lambda>_. 0" True] by simp


lemma demo_synced_node:
  "\<exists>nd. node_synced mem_rocksdb (\<lambda>_. 0) 1 [Cmd_delete ''x''] nd \<and> committed (fo_wal (mn_follower nd)) = 0"
proof -
  have "wal_ops_ok [Op_append DELETE_CHUNK 1 ''x''] \<lparr>spec_entries = [], spec_committed = 0\<rparr>"
    by (simp add: payload_ok_def)
  then obtain w where w: "wal_rel mem_rocksdb w (fold spec_op_step [Op_append DELETE_CHUNK 1 ''x''] \<lparr>spec_entries = [], spec_committed = 0\<rparr>)"
    using mem.wal_ops_rel [OF mem_wal_empty] by blast
  have c0: "committed w = 0" using wal_rel_committed [OF w] by (simp add: spec_append_def unat_eq_0)
  have "node_synced mem_rocksdb (\<lambda>_. 0) 1 [Cmd_delete ''x'']
      \<lparr>mn_follower = \<lparr>fo_wal = w, fo_term = 1, fo_snapshot_lsn = 0\<rparr>, mn_coord = empty_coordinator\<rparr>"
    unfolding node_synced_def
    by (rule exI, rule conjI, simp, rule w) (simp add: c0 spec_append_def cmd_entry_def)
  then show ?thesis using c0 by fastforce
qed


text \<open>
  A commit out of order is applied out of order: with a put at index 1 and the delete of the same
  chunk at index 2, committing 2 and then 1 leaves the chunk in the tables, while a restart from
  the same store has it deleted.
\<close>

theorem commit_out_of_order:
  assumes db: "reliable_rocksdb R" and rel: "wal_rel R (fo_wal (mn_follower nd)) s"
    and es: "spec_entries s = cmd_entries 0 t [Cmd_put ''x'' 9 2 [''n1''] 1, Cmd_delete ''x'']"
  shows "\<exists>nd1 nd2 w c. CommitEntry R clk 2 t nd = (Inr True, nd1) \<and> CommitEntry R clk 1 t nd1 = (Inr True, nd2) \<and>
    get_chunk (mn_coord nd2) ''x'' \<noteq> None \<and>
    server_start R ord clk False (Some (wal_db (fo_wal (mn_follower nd2)))) = Inr (w, c, []) \<and> get_chunk c ''x'' = None"
proof -
  let ?cmds = "[Cmd_put ''x'' 9 2 [''n1''] 1, Cmd_delete ''x'']"
  have ok: "\<forall>cmd \<in> set ?cmds. cmd_ok cmd" by (simp add: id_ok_def int32_def replicas_ok_def replica_ok_def)
  obtain nd1 where nd1: "CommitEntry R clk 2 t nd = (Inr True, nd1)"
      "wal_rel R (fo_wal (mn_follower nd1)) (spec_commit 2 s)"
    using reliable_rocksdb.commit_any_rel [OF db rel es ok, of 1] by (auto simp: numeral_2_eq_2)
  have es1: "spec_entries (spec_commit 2 s) = cmd_entries 0 t ?cmds" using es by (simp add: spec_commit_def)
  obtain nd2 where nd2: "CommitEntry R clk 1 t nd1 = (Inr True, nd2)"
      "wal_rel R (fo_wal (mn_follower nd2)) (spec_commit 1 (spec_commit 2 s))"
      "mn_coord nd2 = apply_cmd (clk 1) (Cmd_put ''x'' 9 2 [''n1''] 1) (mn_coord nd1)"
    using reliable_rocksdb.commit_any_rel [OF db nd1(2) es1 ok, of 0] by auto
  have es2: "spec_entries (spec_commit 1 (spec_commit 2 s)) = cmd_entries 0 t ?cmds" using es by (simp add: spec_commit_def)
  have "spec_committed s \<le> 2" using wal_relD(2) [OF rel] es by simp
  then have "unat (committed (fo_wal (mn_follower nd2))) = 2"
    using wal_rel_committed [OF nd2(2)] by (simp add: spec_commit_def)
  then show ?thesis
    using nd1(1) nd2(1,3) server_start_rel [OF nd2(2) es2 ok, of ord clk False] by (simp add: Let_def)
qed

lemma demo_put_delete_log:
  "\<exists>w. wal_rel mem_rocksdb w (fold spec_op_step [Op_append PUT_CHUNK 1 (cmd_payload (Cmd_put ''x'' 9 2 [''n1''] 1)), Op_append DELETE_CHUNK 1 ''x'']
     \<lparr>spec_entries = [], spec_committed = 0\<rparr>)"
proof -
  have "length (cmd_payload (Cmd_put ''x'' 9 2 [''n1''] 1)) = 11" by code_simp
  then have "wal_ops_ok [Op_append PUT_CHUNK 1 (cmd_payload (Cmd_put ''x'' 9 2 [''n1''] 1)), Op_append DELETE_CHUNK 1 ''x'']
      \<lparr>spec_entries = [], spec_committed = 0\<rparr>"
    by (simp add: payload_ok_def spec_append_def)
  then show ?thesis using mem.wal_ops_rel [OF mem_wal_empty] by blast
qed

theorem commit_out_of_order_witness:
  "\<exists>(nd :: mem_db meta_node) nd1 nd2 w c. CommitEntry mem_rocksdb (\<lambda>_. 0) 2 1 nd = (Inr True, nd1) \<and>
    CommitEntry mem_rocksdb (\<lambda>_. 0) 1 1 nd1 = (Inr True, nd2) \<and> get_chunk (mn_coord nd2) ''x'' \<noteq> None \<and>
    server_start mem_rocksdb (\<lambda>xs. xs) (\<lambda>_. 0) False (Some (wal_db (fo_wal (mn_follower nd2)))) = Inr (w, c, []) \<and> get_chunk c ''x'' = None"
proof -
  let ?s = "fold spec_op_step [Op_append PUT_CHUNK 1 (cmd_payload (Cmd_put ''x'' 9 2 [''n1''] 1)), Op_append DELETE_CHUNK 1 ''x'']
     \<lparr>spec_entries = [], spec_committed = 0\<rparr>"
  obtain w where w: "wal_rel mem_rocksdb w ?s" using demo_put_delete_log by blast
  let ?nd = "\<lparr>mn_follower = \<lparr>fo_wal = w, fo_term = 1, fo_snapshot_lsn = 0\<rparr>, mn_coord = empty_coordinator\<rparr>"
  have "spec_entries ?s = cmd_entries 0 1 [Cmd_put ''x'' 9 2 [''n1''] 1, Cmd_delete ''x'']"
    by (simp add: spec_append_def cmd_entry_def)
  then show ?thesis using commit_out_of_order [OF mem.reliable_rocksdb_axioms, of ?nd ?s 1] w by fastforce
qed

end
