(* ===== verification/Meta_Replication.thy ===== *)
theory Meta_Replication
  imports Meta_Follower "HOL-Library.Sublist"
begin

text \<open>
  The leader side of metadata replication, \<^verbatim>\<open>src/meta/meta_replication.{h,cpp}\<close>, and the
  cluster it forms with its followers. A call of \<^verbatim>\<open>write\<close> appends to the log and starts one
  detached thread per follower (\<^verbatim>\<open>replicate_to_follower\<close>), then polls the acknowledgements
  until a majority or the deadline. Threads, polls and remote calls interleave; a remote call can
  lose its request or its response. The cluster is a step function on events (\<open>cluster_step\<close>) with
  one event per atomic action, and \<open>reachable\<close> is the set of states its runs visit.
\<close>

section \<open>The leader object\<close>

datatype follower_status = HEALTHY | LAGGING | DEAD

record follower_state =
  fs_address :: string
  fs_match_index :: u64
  fs_next_index :: u64
  fs_status :: follower_status
  fs_last_ack_ms :: u64
  fs_missed_pings :: int

datatype write_result = OK | UNAVAILABLE | TIMEOUT

record 'db leader =
  le_wal :: "'db wal"
  le_coord :: coordinator
  le_term :: u64
  le_followers :: "(string, follower_state) umap"
  le_acks :: "(u64, int) umap"

definition add_follower :: "u64 \<Rightarrow> string \<Rightarrow> 'db leader \<Rightarrow> 'db leader" where
  "add_follower now address le = le\<lparr>le_followers := um_assign address
     \<lparr>fs_address = address, fs_match_index = 0, fs_next_index = last_index (le_wal le) + 1,
      fs_status = HEALTHY, fs_last_ack_ms = now, fs_missed_pings = 0\<rparr> (le_followers le)\<rparr>"

text \<open>\<^verbatim>\<open>MetaReplication\<close> as constructed: term 1, no followers, no acknowledgements.\<close>

definition new_leader :: "'db wal \<Rightarrow> coordinator \<Rightarrow> 'db leader" where
  "new_leader w c = \<lparr>le_wal = w, le_coord = c, le_term = 1, le_followers = [], le_acks = []\<rparr>"

text \<open>
  \<^verbatim>\<open>write\<close> up to its polling loop, in the two steps other threads can come between:
  the append, giving the index and the term of the entry, and, under the lock, the counter for its
  acknowledgements, giving the number of acknowledgements needed and the followers to write to.
\<close>

definition write_append ::
  "'db rocksdb_ops \<Rightarrow> wal_entry_type \<Rightarrow> string \<Rightarrow> 'db leader \<Rightarrow> (cxx_exc + wal_entry) \<times> 'db leader" where
  "write_append R ty payload le = (let term' = le_term le in
     case wal_append R ty term' payload (le_wal le) of
       (Inl x, w) \<Rightarrow> (Inl x, le\<lparr>le_wal := w\<rparr>)
     | (Inr idx, w) \<Rightarrow>
         (Inr \<lparr>we_index = idx, we_term = term', we_type = ty, we_payload = payload\<rparr>, le\<lparr>le_wal := w\<rparr>))"

definition write_register :: "u64 \<Rightarrow> 'db leader \<Rightarrow> (int \<times> string list) \<times> 'db leader" where
  "write_register idx le =
     (let total_followers = cast_int (length (le_followers le));
          followers = map fst (le_followers le)
      in (((total_followers + 1) div 2, followers), le\<lparr>le_acks := um_assign idx 0 (le_acks le)\<rparr>))"

text \<open>
  One turn of the polling loop: \<open>Some OK\<close> when enough acknowledgements are counted, after
  committing and applying the entry; \<open>None\<close> to go on polling.
\<close>

definition write_poll ::
  "'db rocksdb_ops \<Rightarrow> (u64 \<Rightarrow> u64) \<Rightarrow> u64 \<Rightarrow> int \<Rightarrow> 'db leader \<Rightarrow> (cxx_exc + write_result option) \<times> 'db leader" where
  "write_poll R clk idx majority_needed le = (case um_find (le_acks le) idx of
     None \<Rightarrow> (Inr None, le)
   | Some n \<Rightarrow>
       if majority_needed \<le> n
       then (case wal_commit R idx (le_wal le) of
               Inl x \<Rightarrow> (Inl x, le)
             | Inr w \<Rightarrow>
                 (let le1 = le\<lparr>le_wal := w\<rparr> in
                  case on_commit R clk idx w (le_coord le) of
                    Inl x \<Rightarrow> (Inl x, le1)
                  | Inr c \<Rightarrow> (Inr (Some OK), le1\<lparr>le_coord := c\<rparr>)))
       else (Inr None, le))"

definition record_ack :: "u64 \<Rightarrow> string \<Rightarrow> u64 \<Rightarrow> 'db leader \<Rightarrow> 'db leader" where
  "record_ack now addr log_index le =
     (let le1 = (case um_find (le_acks le) log_index of
                   Some n \<Rightarrow> le\<lparr>le_acks := um_assign log_index (n + 1) (le_acks le)\<rparr>
                 | None \<Rightarrow> le)
      in case um_find (le_followers le1) addr of
           None \<Rightarrow> le1
         | Some fs \<Rightarrow> le1\<lparr>le_followers := um_assign addr
             (fs\<lparr>fs_match_index := max (fs_match_index fs) log_index,
                 fs_next_index := max (fs_next_index fs) (log_index + 1),
                 fs_last_ack_ms := now, fs_missed_pings := 0, fs_status := HEALTHY\<rparr>)
             (le_followers le1)\<rparr>)"

text \<open>The product \<^verbatim>\<open>heartbeat_interval_ms * 3\<close> is a 32-bit one.\<close>

definition send_heartbeats :: "u32 \<Rightarrow> u64 \<Rightarrow> 'db leader \<Rightarrow> 'db leader" where
  "send_heartbeats heartbeat_interval_ms t le =
     (let leader_last = last_index (le_wal le) in
      le\<lparr>le_followers := um_map (\<lambda>_ fs.
        if leader_last \<le> fs_match_index fs then fs\<lparr>fs_missed_pings := 0, fs_status := HEALTHY\<rparr>
        else let elapsed = t - fs_last_ack_ms fs in
          if ucast (heartbeat_interval_ms * 3) < elapsed
          then let fs1 = fs\<lparr>fs_missed_pings := fs_missed_pings fs + 1\<rparr> in
               if 3 \<le> fs_missed_pings fs1 then fs1\<lparr>fs_status := LAGGING\<rparr> else fs1
          else fs) (le_followers le)\<rparr>)"

section \<open>The replication thread\<close>

text \<open>
  Where a thread of \<^verbatim>\<open>replicate_to_follower\<close> stands: about to send the entry, to record
  the acknowledgement, to send the commit; or in the catch-up loop, in the same three positions,
  at an index or with the entry that was read there.
\<close>

datatype repl_pc =
    Send | Record | Commit
  | Catch_up u64 | Catch_record wal_entry | Catch_commit wal_entry

record repl_thread =
  rt_addr :: string
  rt_entry :: wal_entry
  rt_pc :: repl_pc

record 'db cluster =
  cl_leader :: "'db leader"
  cl_nodes :: "(string, 'db meta_node) umap"
  cl_starting :: "wal_entry list" \<comment> \<open>calls of \<^verbatim>\<open>write\<close> that have appended and not yet registered\<close>
  cl_threads :: "repl_thread list"
  cl_pending :: "(u64 \<times> int) list"
  cl_returned :: "(u64 \<times> write_result) list" \<comment> \<open>what the finished calls of \<^verbatim>\<open>write\<close> returned\<close>

text \<open>
  The remote call \<^verbatim>\<open>AppendEntry\<close>: whether the caller sees
  \<^verbatim>\<open>status.ok() && resp.success()\<close>, and the nodes after it. An exception in the handler
  reaches the caller as a status that is not OK.
\<close>

definition rpc_append :: "'db rocksdb_ops \<Rightarrow> net \<Rightarrow> string \<Rightarrow> u64 \<Rightarrow> wal_entry \<Rightarrow> u64 \<Rightarrow>
     (string, 'db meta_node) umap \<Rightarrow> bool \<times> (string, 'db meta_node) umap" where
  "rpc_append R net addr leader_term e leader_committed nodes = (case um_find nodes addr of
     None \<Rightarrow> (False, nodes)
   | Some nd \<Rightarrow>
       if net = Request_lost then (False, nodes)
       else (let (r, nd1) = AppendEntry R leader_term (we_index e - 1) leader_term e leader_committed nd
             in (net = Delivered \<and> (case r of Inr (ok, _) \<Rightarrow> ok | Inl _ \<Rightarrow> False), um_assign addr nd1 nodes)))"

definition rpc_commit :: "'db rocksdb_ops \<Rightarrow> (u64 \<Rightarrow> u64) \<Rightarrow> net \<Rightarrow> string \<Rightarrow> u64 \<Rightarrow> u64 \<Rightarrow>
     (string, 'db meta_node) umap \<Rightarrow> (string, 'db meta_node) umap" where
  "rpc_commit R clk net addr idx t nodes = (case um_find nodes addr of
     None \<Rightarrow> nodes
   | Some nd \<Rightarrow> if net = Request_lost then nodes else um_assign addr (snd (CommitEntry R clk idx t nd)) nodes)"

text \<open>One atomic action of a thread; \<open>None\<close> when the thread ends.\<close>

definition replicate_step :: "'db rocksdb_ops \<Rightarrow> (u64 \<Rightarrow> u64) \<Rightarrow> u64 \<Rightarrow> net \<Rightarrow> repl_thread \<Rightarrow> 'db cluster \<Rightarrow>
     repl_thread option \<times> 'db cluster" where
  "replicate_step R clk now net th cl =
     (let addr = rt_addr th; e = rt_entry th; log_index = we_index e; le = cl_leader cl;
          continue = (\<lambda>idx. if idx \<le> log_index then Some (th\<lparr>rt_pc := Catch_up idx\<rparr>) else None)
      in case rt_pc th of
        Send \<Rightarrow>
          (let (ok, nodes) = rpc_append R net addr (we_term e) e (committed (le_wal le)) (cl_nodes cl);
               cl1 = cl\<lparr>cl_nodes := nodes\<rparr>;
               follower_match = (case um_find (le_followers le) addr of
                                   Some fs \<Rightarrow> fs_match_index fs | None \<Rightarrow> 0)
           in if ok then (Some (th\<lparr>rt_pc := Record\<rparr>), cl1) else (continue (follower_match + 1), cl1))
      | Record \<Rightarrow> (Some (th\<lparr>rt_pc := Commit\<rparr>), cl\<lparr>cl_leader := record_ack now addr log_index le\<rparr>)
      | Commit \<Rightarrow> (None, cl\<lparr>cl_nodes := rpc_commit R clk net addr log_index (we_term e) (cl_nodes cl)\<rparr>)
      | Catch_up idx \<Rightarrow>
          (case wal_read_entry R idx (le_wal le) of
             Inr (Some ce) \<Rightarrow>
               (let (ok, nodes) = rpc_append R net addr (we_term ce) ce (committed (le_wal le)) (cl_nodes cl)
                in (if ok then Some (th\<lparr>rt_pc := Catch_record ce\<rparr>) else None, cl\<lparr>cl_nodes := nodes\<rparr>))
           | _ \<Rightarrow> (None, cl))
      | Catch_record ce \<Rightarrow>
          (Some (th\<lparr>rt_pc := Catch_commit ce\<rparr>), cl\<lparr>cl_leader := record_ack now addr (we_index ce) le\<rparr>)
      | Catch_commit ce \<Rightarrow>
          (continue (we_index ce + 1),
           cl\<lparr>cl_nodes := rpc_commit R clk net addr (we_index ce) (we_term ce) (cl_nodes cl)\<rparr>))"

section \<open>Events of the cluster\<close>

datatype cluster_event =
    Ev_append wal_entry_type string
  | Ev_register nat
  | Ev_thread nat u64 net
  | Ev_poll nat
  | Ev_timeout nat
  | Ev_heartbeats u32 u64

text \<open>
  \<open>Ev_append\<close> starts a call of \<^verbatim>\<open>write\<close>; \<open>Ev_register i\<close> registers the \<open>i\<close>-th
  starting call and starts its threads; \<open>Ev_thread i\<close> runs one
  action of thread \<open>i\<close>; \<open>Ev_poll i\<close> and \<open>Ev_timeout i\<close> are a turn of the polling loop of
  the \<open>i\<close>-th pending call and its deadline; \<open>Ev_heartbeats\<close> is the background thread.
\<close>

definition cluster_step :: "'db rocksdb_ops \<Rightarrow> (u64 \<Rightarrow> u64) \<Rightarrow> cluster_event \<Rightarrow> 'db cluster \<Rightarrow> 'db cluster" where
  "cluster_step R clk ev cl = (case ev of
     Ev_append ty payload \<Rightarrow>
       (case write_append R ty payload (cl_leader cl) of
          (Inl _, le) \<Rightarrow> cl\<lparr>cl_leader := le\<rparr>
        | (Inr e, le) \<Rightarrow> cl\<lparr>cl_leader := le, cl_starting := cl_starting cl @ [e]\<rparr>)
   | Ev_register i \<Rightarrow>
       if i < length (cl_starting cl)
       then (let e = cl_starting cl ! i;
                 ((majority, followers), le) = write_register (we_index e) (cl_leader cl)
             in cl\<lparr>cl_leader := le, cl_starting := remove_nth i (cl_starting cl),
                   cl_threads := cl_threads cl @
                     map (\<lambda>addr. \<lparr>rt_addr = addr, rt_entry = e, rt_pc = Send\<rparr>) followers,
                   cl_pending := cl_pending cl @ [(we_index e, majority)]\<rparr>)
       else cl
   | Ev_thread i now net \<Rightarrow>
       if i < length (cl_threads cl)
       then (case replicate_step R clk now net (cl_threads cl ! i) cl of
               (None, cl1) \<Rightarrow> cl1\<lparr>cl_threads := remove_nth i (cl_threads cl)\<rparr>
             | (Some th, cl1) \<Rightarrow> cl1\<lparr>cl_threads := (cl_threads cl)[i := th]\<rparr>)
       else cl
   | Ev_poll i \<Rightarrow>
       if i < length (cl_pending cl)
       then (let (idx, majority) = cl_pending cl ! i in
             case write_poll R clk idx majority (cl_leader cl) of
               (Inr (Some r), le) \<Rightarrow> cl\<lparr>cl_leader := le, cl_pending := remove_nth i (cl_pending cl),
                                      cl_returned := cl_returned cl @ [(idx, r)]\<rparr>
             | (Inr None, le) \<Rightarrow> cl\<lparr>cl_leader := le\<rparr>
             | (Inl _, le) \<Rightarrow> cl\<lparr>cl_leader := le, cl_pending := remove_nth i (cl_pending cl)\<rparr>)
       else cl
   | Ev_timeout i \<Rightarrow>
       if i < length (cl_pending cl)
       then cl\<lparr>cl_pending := remove_nth i (cl_pending cl),
               cl_returned := cl_returned cl @ [(fst (cl_pending cl ! i), UNAVAILABLE)]\<rparr>
       else cl
   | Ev_heartbeats hb t \<Rightarrow> cl\<lparr>cl_leader := send_heartbeats hb t (cl_leader cl)\<rparr>)"

definition cluster_run :: "'db rocksdb_ops \<Rightarrow> (u64 \<Rightarrow> u64) \<Rightarrow> cluster_event list \<Rightarrow> 'db cluster \<Rightarrow> 'db cluster" where
  "cluster_run R clk evs cl = fold (cluster_step R clk) evs cl"

text \<open>A fresh cluster: empty logs and tables everywhere, one node per follower address.\<close>

definition fresh_node :: "'db \<Rightarrow> 'db meta_node" where
  "fresh_node d = \<lparr>mn_follower = \<lparr>fo_wal = \<lparr>wal_db = d, last_index = 0, committed = 0\<rparr>,
     fo_term = 0, fo_snapshot_lsn = 0\<rparr>, mn_coord = empty_coordinator\<rparr>"

definition fresh_cluster :: "'db \<Rightarrow> u64 \<Rightarrow> string list \<Rightarrow> 'db cluster" where
  "fresh_cluster d now addrs =
     \<lparr>cl_leader = fold (add_follower now) addrs
        (new_leader \<lparr>wal_db = d, last_index = 0, committed = 0\<rparr> empty_coordinator),
      cl_nodes = map (\<lambda>a. (a, fresh_node d)) addrs,
      cl_starting = [], cl_threads = [], cl_pending = [], cl_returned = []\<rparr>"

section \<open>The invariant of the cluster\<close>

definition node_len :: "(string, 'db meta_node) umap \<Rightarrow> string \<Rightarrow> nat" where
  "node_len nodes a = (case um_find nodes a of None \<Rightarrow> 0
     | Some nd \<Rightarrow> unat (last_index (fo_wal (mn_follower nd))))"

definition node_rel :: "'db rocksdb_ops \<Rightarrow> 'db meta_node \<Rightarrow> log_spec \<Rightarrow> bool" where
  "node_rel R nd s \<longleftrightarrow> wal_rel R (fo_wal (mn_follower nd)) s \<and>
     db_get R (wal_db (fo_wal (mn_follower nd))) (wal_key 0) = None \<and> fo_term (mn_follower nd) \<le> 1"

text \<open>The leader's log: entry \<open>i\<close> carries index \<open>i + 1\<close>, the one term, and can be encoded.\<close>

definition log_ok :: "wal_entry list \<Rightarrow> bool" where
  "log_ok L \<longleftrightarrow> length L < 2 ^ 64 - 1 \<and> (\<forall>i < length L. we_index (L ! i) = word_of_nat (Suc i) \<and>
     we_term (L ! i) = 1 \<and> type_ok (we_type (L ! i)) \<and> payload_ok (we_payload (L ! i)))"

definition in_log :: "wal_entry list \<Rightarrow> wal_entry \<Rightarrow> bool" where
  "in_log L e \<longleftrightarrow> (\<exists>i < length L. e = L ! i)"

definition nodes_ok :: "'db rocksdb_ops \<Rightarrow> wal_entry list \<Rightarrow> (string, 'db meta_node) umap \<Rightarrow> bool" where
  "nodes_ok R L nodes \<longleftrightarrow> (\<forall>a nd. um_find nodes a = Some nd \<longrightarrow>
     (\<exists>s. node_rel R nd s \<and> prefix (spec_entries s) L))"

fun pc_ok :: "wal_entry list \<Rightarrow> (string \<Rightarrow> nat) \<Rightarrow> string \<Rightarrow> wal_entry \<Rightarrow> repl_pc \<Rightarrow> bool" where
  "pc_ok L len a e Send = True"
| "pc_ok L len a e Record = (unat (we_index e) \<le> len a)"
| "pc_ok L len a e Commit = (unat (we_index e) \<le> len a)"
| "pc_ok L len a e (Catch_up i) = (1 \<le> i \<and> i \<le> we_index e)"
| "pc_ok L len a e (Catch_record ce) = (in_log L ce \<and> unat (we_index ce) \<le> len a)"
| "pc_ok L len a e (Catch_commit ce) = (in_log L ce \<and> unat (we_index ce) \<le> len a)"

definition threads_ok :: "wal_entry list \<Rightarrow> (string \<Rightarrow> nat) \<Rightarrow> repl_thread list \<Rightarrow> bool" where
  "threads_ok L len ths \<longleftrightarrow> (\<forall>th \<in> set ths. in_log L (rt_entry th) \<and> pc_ok L len (rt_addr th) (rt_entry th) (rt_pc th))"

definition acks_ok :: "(string \<Rightarrow> nat) \<Rightarrow> (string, follower_state) umap \<Rightarrow> (u64, int) umap \<Rightarrow> bool" where
  "acks_ok len fs acks \<longleftrightarrow>
     (\<forall>a f. um_find fs a = Some f \<longrightarrow> unat (fs_match_index f) \<le> len a) \<and>
     (\<forall>i n. um_find acks i = Some n \<longrightarrow> 0 < n \<longrightarrow> (\<exists>a. unat i \<le> len a))"

definition writes_ok :: "nat \<Rightarrow> wal_entry list \<Rightarrow> nat \<Rightarrow> (string \<Rightarrow> nat) \<Rightarrow> (u64 \<times> int) list \<Rightarrow> (u64 \<times> write_result) list \<Rightarrow> bool" where
  "writes_ok nf L c len pending returned \<longleftrightarrow>
     (\<forall>(i, m) \<in> set pending. i \<noteq> 0 \<and> unat i \<le> length L \<and> m = (int nf + 1) div 2) \<and>
     (\<forall>i. (i, OK) \<in> set returned \<longrightarrow> i \<noteq> 0 \<and> unat i \<le> c \<and> (0 < nf \<longrightarrow> (\<exists>a. unat i \<le> len a)))"

definition cluster_inv :: "'db rocksdb_ops \<Rightarrow> nat \<Rightarrow> 'db cluster \<Rightarrow> log_spec \<Rightarrow> bool" where
  "cluster_inv R nf cl s \<longleftrightarrow>
     wal_rel R (le_wal (cl_leader cl)) s \<and> le_term (cl_leader cl) = 1 \<and> log_ok (spec_entries s) \<and>
     nodes_ok R (spec_entries s) (cl_nodes cl) \<and>
     (\<forall>e \<in> set (cl_starting cl). in_log (spec_entries s) e) \<and>
     threads_ok (spec_entries s) (node_len (cl_nodes cl)) (cl_threads cl) \<and>
     acks_ok (node_len (cl_nodes cl)) (le_followers (cl_leader cl)) (le_acks (cl_leader cl)) \<and>
     writes_ok nf (spec_entries s) (spec_committed s) (node_len (cl_nodes cl)) (cl_pending cl) (cl_returned cl) \<and>
     length (le_followers (cl_leader cl)) = nf \<and> nf < 2 ^ 31 - 1"

lemma in_log_index:
  assumes "log_ok L" and "in_log L e"
  obtains i where "i < length L" "e = L ! i" "unat (we_index e) = Suc i" "we_term e = 1"
    "type_ok (we_type e)" "payload_ok (we_payload e)"
proof -
  from assms(2) obtain i where i: "i < length L" "e = L ! i" by (auto simp: in_log_def)
  with assms(1) have "we_index e = word_of_nat (Suc i)" "length L < 2 ^ 64 - 1" and
    rest: "we_term e = 1" "type_ok (we_type e)" "payload_ok (we_payload e)" by (simp_all add: log_ok_def)
  then have "unat (we_index e) = Suc i" using i unat_u64_of_nat [of "Suc i"] by simp
  with i rest that show ?thesis by blast
qed

text \<open>
  What an action may do to the nodes: their logs stay prefixes of the leader's and do not shrink.
\<close>

lemma threads_ok_mono:
  "threads_ok L len ths \<Longrightarrow> prefix L L' \<Longrightarrow> (\<And>a. len a \<le> len' a) \<Longrightarrow> threads_ok L' len' ths"
proof -
  assume t: "threads_ok L len ths" and p: "prefix L L'" and l: "\<And>a. len a \<le> len' a"
  have il: "in_log L e \<Longrightarrow> in_log L' e" for e
  proof -
    from p obtain zs where zs: "L' = L @ zs" by (auto simp: prefix_def)
    assume "in_log L e"
    then obtain i where "i < length L" "e = L ! i" by (auto simp: in_log_def)
    then have "i < length L'" "e = L' ! i" by (simp_all add: zs nth_append)
    then show "in_log L' e" by (auto simp: in_log_def)
  qed
  have "pc_ok L len a e pc \<Longrightarrow> pc_ok L' len' a e pc" for a e pc
    using l [of a] il by (cases pc) auto
  with t il show ?thesis by (auto simp: threads_ok_def)
qed

lemma acks_ok_mono: "acks_ok len fs acks \<Longrightarrow> (\<And>a. len a \<le> len' a) \<Longrightarrow> acks_ok len' fs acks"
  unfolding acks_ok_def by (meson order_trans)

lemma writes_ok_mono:
  assumes w: "writes_ok nf L c len p r" and p: "prefix L L'" and c: "c \<le> c'" and l: "\<And>a. len a \<le> len' a"
  shows "writes_ok nf L' c' len' p r"
proof -
  have "length L \<le> length L'" using p by (rule prefix_length_le)
  then have "i \<noteq> 0 \<and> unat i \<le> length L' \<and> m = (int nf + 1) div 2" if "(i, m) \<in> set p" for i m
    using w that by (auto simp: writes_ok_def)
  moreover have "i \<noteq> 0 \<and> unat i \<le> c' \<and> (0 < nf \<longrightarrow> (\<exists>a. unat i \<le> len' a))" if "(i, OK) \<in> set r" for i
  proof -
    have "i \<noteq> 0" "unat i \<le> c" "0 < nf \<longrightarrow> (\<exists>a. unat i \<le> len a)"
      using w that unfolding writes_ok_def by blast+
    then show ?thesis using c l by (meson order_trans)
  qed
  ultimately show ?thesis by (auto simp: writes_ok_def)
qed

lemma nodes_ok_mono: "nodes_ok R L nodes \<Longrightarrow> prefix L L' \<Longrightarrow> nodes_ok R L' nodes"
  unfolding nodes_ok_def by (meson prefix_order.trans)

context reliable_rocksdb
begin

lemma append_entry_node:
  assumes nd: "node_rel R nd s" and pre: "prefix (spec_entries s) L" and ok: "log_ok L" and e: "in_log L e"
    and ae: "AppendEntry R 1 (we_index e - 1) 1 e lc nd = (r, nd')"
  shows "\<exists>s'. node_rel R nd' s' \<and> prefix (spec_entries s') L \<and>
    length (spec_entries s) \<le> length (spec_entries s') \<and>
    (\<forall>t. r = Inr (True, t) \<longrightarrow> unat (we_index e) \<le> length (spec_entries s'))"
proof -
  obtain i where i: "i < length L" "e = L ! i" "unat (we_index e) = Suc i" "we_term e = 1"
    "type_ok (we_type e)" "payload_ok (we_payload e)" using in_log_index [OF ok e] .
  have len: "length (spec_entries s) \<le> length L" "length L < 2 ^ 64 - 1"
    using pre ok by (auto simp: log_ok_def dest: prefix_length_le)
  show ?thesis
  proof (cases "length (spec_entries s) = length L")
    case True
    then have eq: "spec_entries s = L" using pre by (auto simp: prefix_def)
    \<comment> \<open>the whole log is there already: the request is a duplicate\<close>
    have le: "we_index e \<le> last_index (fo_wal (mn_follower nd))"
      using nd i eq wal_rel_last [of R "fo_wal (mn_follower nd)" s] by (simp add: node_rel_def word_le_nat_alt)
    have "1 \<le> we_index e" using i by (simp add: word_le_nat_alt)
    then have rd: "wal_read_entry R (we_index e) (fo_wal (mn_follower nd)) = Inr (Some e)"
      using nd i eq wal_rel_read [of R "fo_wal (mn_follower nd)" s "we_index e"] by (simp add: node_rel_def)
    have "\<not> 1 < fo_term (mn_follower nd)" using nd by (simp add: node_rel_def not_less)
    then have "nd' = nd\<lparr>mn_follower := (mn_follower nd)\<lparr>fo_term := 1\<rparr>\<rparr>"
      using ae le rd by (auto simp: AppendEntry_def handle_append_def Let_def)
    then have "node_rel R nd' s" using nd by (simp add: node_rel_def)
    with pre i eq show ?thesis by auto
  next
    case False
    with len have room: "length (spec_entries s) < 2 ^ 64 - 2" by simp
    obtain r0 f' where ha: "handle_append R 1 (we_index e - 1) 1 (we_index e) (we_term e) (we_type e)
        (we_payload e) lc (mn_follower nd) = (r0, f')" by (cases "handle_append R 1 (we_index e - 1) 1 (we_index e) (we_term e) (we_type e)
        (we_payload e) lc (mn_follower nd)")
    obtain s' where s': "spec_handle_append (we_index e - 1) (we_index e) (we_term e) (we_type e) (we_payload e) s
        = (r0 = Inr True, s')" "r0 = Inr True \<or> r0 = Inr False" "wal_rel R (fo_wal f') s'" "fo_term f' = 1"
        "db_get R (wal_db (fo_wal f')) (wal_key 0) = None"
      using handle_append_rel [OF _ _ i(6,5) room _ ha] nd by (auto simp: node_rel_def)
    have nd': "nd' = nd\<lparr>mn_follower := f'\<rparr>" and r: "r = Inr (r0 = Inr True, fo_term f')"
      using ae ha s'(2) by (auto simp: AppendEntry_def)
    have prev: "unat (we_index e - 1) = i" using i(3) by (simp add: unat_sub_if_size)
    have w0: "we_index e \<noteq> 0" using i(3) by auto
    have nxt: "spec_entries (spec_append (we_type e) (we_term e) (we_payload e) s) = take (Suc i) L"
      if "length (spec_entries s) = i"
    proof -
      have "we_index e = word_of_nat (Suc i)" using i(3) by (metis of_nat_unat ucast_id)
      moreover have "spec_entries s = take i L" using pre that by (auto simp: prefix_def)
      ultimately show ?thesis
        using that i(1,2) by (simp add: spec_append_def take_Suc_conv_app_nth)
    qed
    have "prefix (spec_entries s') L \<and> length (spec_entries s) \<le> length (spec_entries s') \<and>
        (r0 = Inr True \<longrightarrow> Suc i \<le> length (spec_entries s'))"
      using s'(1) pre nxt w0 i(1) prev
      by (auto simp: spec_handle_append_def i(3) Let_def take_is_prefix split: if_splits)
    then show ?thesis using s'(3-5) nd' r i(3) by (intro exI [of _ s']) (auto simp: node_rel_def)
  qed
qed

lemma node_len_rel: "node_rel R nd s \<Longrightarrow> unat (last_index (fo_wal (mn_follower nd))) = length (spec_entries s)"
  using wal_rel_last unfolding node_rel_def by blast

lemma rpc_append_ok:
  assumes nodes: "nodes_ok R L nodes" and ok: "log_ok L" and e: "in_log L e"
    and rpc: "rpc_append R net a (we_term e) e lc nodes = (acked, nodes')"
  shows "nodes_ok R L nodes' \<and> (\<forall>b. node_len nodes b \<le> node_len nodes' b) \<and>
    (acked \<longrightarrow> unat (we_index e) \<le> node_len nodes' a)"
proof (cases "um_find nodes a")
  case None
  then show ?thesis using rpc nodes by (simp add: rpc_append_def)
next
  case (Some nd)
  show ?thesis
  proof (cases "net = Request_lost")
    case True
    then show ?thesis using rpc nodes Some by (simp add: rpc_append_def)
  next
    case False
    have t: "we_term e = 1" using in_log_index [OF ok e] by metis
    obtain r nd' where ae: "AppendEntry R 1 (we_index e - 1) 1 e lc nd = (r, nd')"
      by (cases "AppendEntry R 1 (we_index e - 1) 1 e lc nd")
    obtain s where s: "node_rel R nd s" "prefix (spec_entries s) L" using nodes Some by (auto simp: nodes_ok_def)
    obtain s' where s': "node_rel R nd' s'" "prefix (spec_entries s') L"
        "length (spec_entries s) \<le> length (spec_entries s')"
        "\<forall>t. r = Inr (True, t) \<longrightarrow> unat (we_index e) \<le> length (spec_entries s')"
      using append_entry_node [OF s ok e ae] by blast
    have nodes': "nodes' = um_assign a nd' nodes"
      and acked: "acked \<Longrightarrow> \<exists>t. r = Inr (True, t)"
      using rpc False Some ae t by (auto simp: rpc_append_def split: sum.splits)
    have "nodes_ok R L nodes'" using nodes s' by (auto simp: nodes_ok_def nodes')
    moreover have "node_len nodes b \<le> node_len nodes' b" for b
      using s'(3) node_len_rel [OF s(1)] node_len_rel [OF s'(1)] Some by (simp add: node_len_def nodes')
    moreover have "acked \<Longrightarrow> unat (we_index e) \<le> node_len nodes' a"
      using acked s'(4) node_len_rel [OF s'(1)] by (auto simp: node_len_def nodes')
    ultimately show ?thesis by blast
  qed
qed

lemma commit_entry_node:
  assumes nd: "node_rel R nd s"
  shows "\<exists>s'. node_rel R (snd (CommitEntry R clk i t nd)) s' \<and> spec_entries s' = spec_entries s"
proof (cases "last_index (fo_wal (mn_follower nd)) < i")
  case True
  then show ?thesis using nd by (intro exI [of _ s]) (simp add: CommitEntry_def handle_commit_def)
next
  case False
  have rel: "wal_rel R (fo_wal (mn_follower nd)) s" using nd by (simp add: node_rel_def)
  have "unat i \<le> length (spec_entries s)"
    using False wal_rel_last [OF rel] by (simp add: word_less_nat_alt)
  then obtain w' where w': "wal_commit R i (fo_wal (mn_follower nd)) = Inr w'" "wal_rel R w' (spec_commit (unat i) s)"
    using commit_rel [OF rel] by blast
  define f where "f = (mn_follower nd)\<lparr>fo_wal := w'\<rparr>"
  have f: "mn_follower (snd (CommitEntry R clk i t nd)) = f"
    using False w' by (simp add: CommitEntry_def handle_commit_def f_def Let_def split: sum.split)
  have "db_get R (wal_db w') (wal_key 0) = None"
    using nd commit_get [OF w'(1), of "wal_key 0"] by (simp add: node_rel_def)
  then show ?thesis using w'(2) nd
    by (intro exI [of _ "spec_commit (unat i) s"]) (simp add: node_rel_def f f_def spec_commit_def)
qed

lemma rpc_commit_ok:
  assumes nodes: "nodes_ok R L nodes"
  shows "nodes_ok R L (rpc_commit R clk net a i t nodes)"
    and "node_len (rpc_commit R clk net a i t nodes) = node_len nodes"
proof -
  have "nodes_ok R L (rpc_commit R clk net a i t nodes) \<and>
    node_len (rpc_commit R clk net a i t nodes) = node_len nodes"
  proof (cases "um_find nodes a = None \<or> net = Request_lost")
    case True
    then have "rpc_commit R clk net a i t nodes = nodes" by (auto simp: rpc_commit_def split: option.split)
    then show ?thesis using nodes by simp
  next
    case False
    then obtain nd where nd: "um_find nodes a = Some nd" by auto
    define nd' where "nd' = snd (CommitEntry R clk i t nd)"
    have eq: "rpc_commit R clk net a i t nodes = um_assign a nd' nodes"
      using False nd by (simp add: rpc_commit_def nd'_def)
    obtain s where s: "node_rel R nd s" "prefix (spec_entries s) L" using nodes nd by (auto simp: nodes_ok_def)
    obtain s' where s': "node_rel R nd' s'" "spec_entries s' = spec_entries s"
      using commit_entry_node [OF s(1), of clk i t] by (auto simp: nd'_def)
    have "nodes_ok R L (um_assign a nd' nodes)"
      using nodes s s' unfolding nodes_ok_def by (metis option.inject um_find_assign)
    moreover have "node_len (um_assign a nd' nodes) = node_len nodes"
      using node_len_rel [OF s(1)] node_len_rel [OF s'(1)] s'(2) nd by (auto simp: node_len_def)
    ultimately show ?thesis by (simp add: eq)
  qed
  then show "nodes_ok R L (rpc_commit R clk net a i t nodes)"
    and "node_len (rpc_commit R clk net a i t nodes) = node_len nodes" by blast+
qed

end

subsection \<open>Steps of the leader\<close>

lemma record_ack_fields [simp]:
  "le_wal (record_ack now a i le) = le_wal le" "le_term (record_ack now a i le) = le_term le"
  "le_coord (record_ack now a i le) = le_coord le"
  "length (le_followers (record_ack now a i le)) = length (le_followers le)"
  by (auto simp: record_ack_def Let_def split: option.split)

lemma record_ack_acks:
  "um_find (le_acks (record_ack now a i le)) j =
     (if j = i then map_option (\<lambda>n. n + 1) (um_find (le_acks le) i) else um_find (le_acks le) j)"
  by (auto simp: record_ack_def Let_def split: option.split)

lemma record_ack_match:
  "map_option fs_match_index (um_find (le_followers (record_ack now a i le)) b) =
     map_option (\<lambda>f. if b = a then max (fs_match_index f) i else fs_match_index f) (um_find (le_followers le) b)"
  by (cases "b = a"; cases "um_find (le_followers le) a") (auto simp: record_ack_def Let_def split: option.split)

lemma record_ack_ok:
  assumes ok: "acks_ok len (le_followers le) (le_acks le)" and i: "unat i \<le> len a"
  shows "acks_ok len (le_followers (record_ack now a i le)) (le_acks (record_ack now a i le))"
proof -
  have "unat (fs_match_index f) \<le> len b"
    if f: "um_find (le_followers (record_ack now a i le)) b = Some f" for b f
  proof -
    obtain g where g: "um_find (le_followers le) b = Some g"
      "fs_match_index f = (if b = a then max (fs_match_index g) i else fs_match_index g)"
      using record_ack_match [of now a i le b] f by (cases "um_find (le_followers le) b") auto
    then have "unat (fs_match_index g) \<le> len b" using ok by (auto simp: acks_ok_def)
    then show ?thesis using g(2) i by (auto simp: max_def)
  qed
  moreover have "\<exists>b. unat j \<le> len b"
    if "um_find (le_acks (record_ack now a i le)) j = Some n" "0 < n" for j n
    using that ok i by (auto simp: record_ack_acks acks_ok_def split: if_splits)
  ultimately show ?thesis by (auto simp: acks_ok_def)
qed

lemma send_heartbeats_fields [simp]:
  "le_wal (send_heartbeats hb t le) = le_wal le" "le_term (send_heartbeats hb t le) = le_term le"
  "le_acks (send_heartbeats hb t le) = le_acks le"
  "length (le_followers (send_heartbeats hb t le)) = length (le_followers le)"
  by (simp_all add: send_heartbeats_def Let_def)

lemma send_heartbeats_match:
  "map_option fs_match_index (um_find (le_followers (send_heartbeats hb t le)) a) =
     map_option fs_match_index (um_find (le_followers le) a)"
  by (cases "um_find (le_followers le) a") (simp_all add: send_heartbeats_def Let_def)

lemma cluster_invD:
  assumes "cluster_inv R nf cl s"
  shows "wal_rel R (le_wal (cl_leader cl)) s" "le_term (cl_leader cl) = 1" "log_ok (spec_entries s)"
    "nodes_ok R (spec_entries s) (cl_nodes cl)" "\<And>e. e \<in> set (cl_starting cl) \<Longrightarrow> in_log (spec_entries s) e"
    "threads_ok (spec_entries s) (node_len (cl_nodes cl)) (cl_threads cl)"
    "acks_ok (node_len (cl_nodes cl)) (le_followers (cl_leader cl)) (le_acks (cl_leader cl))"
    "writes_ok nf (spec_entries s) (spec_committed s) (node_len (cl_nodes cl)) (cl_pending cl) (cl_returned cl)"
    "length (le_followers (cl_leader cl)) = nf" "nf < 2 ^ 31 - 1"
  using assms unfolding cluster_inv_def by blast+

lemma cluster_inv_nodes:
  assumes inv: "cluster_inv R nf cl s" and n: "nodes_ok R (spec_entries s) nodes"
    and l: "\<And>b. node_len (cl_nodes cl) b \<le> node_len nodes b"
  shows "cluster_inv R nf (cl\<lparr>cl_nodes := nodes\<rparr>) s"
  using cluster_invD [OF inv] n l threads_ok_mono [OF cluster_invD(6) [OF inv] prefix_order.refl l]
    acks_ok_mono [OF cluster_invD(7) [OF inv] l]
    writes_ok_mono [OF cluster_invD(8) [OF inv] prefix_order.refl le_refl l]
  unfolding cluster_inv_def by simp

lemma cluster_inv_ack:
  assumes inv: "cluster_inv R nf cl s" and i: "unat i \<le> node_len (cl_nodes cl) a"
  shows "cluster_inv R nf (cl\<lparr>cl_leader := record_ack now a i (cl_leader cl)\<rparr>) s"
  using cluster_invD [OF inv] record_ack_ok [OF cluster_invD(7) [OF inv] i]
  unfolding cluster_inv_def by simp

lemma cluster_inv_threads:
  assumes "cluster_inv R nf cl s" and "threads_ok (spec_entries s) (node_len (cl_nodes cl)) ths"
  shows "cluster_inv R nf (cl\<lparr>cl_threads := ths\<rparr>) s"
  using cluster_invD [OF assms(1)] assms(2) unfolding cluster_inv_def by simp

subsection \<open>Steps of the threads\<close>

abbreviation thread_ok :: "wal_entry list \<Rightarrow> (string \<Rightarrow> nat) \<Rightarrow> repl_thread \<Rightarrow> bool" where
  "thread_ok L len th \<equiv> in_log L (rt_entry th) \<and> pc_ok L len (rt_addr th) (rt_entry th) (rt_pc th)"

text \<open>A step of a thread keeps the invariant, and the thread it leaves fits it.\<close>

definition step_ok :: "'db rocksdb_ops \<Rightarrow> nat \<Rightarrow> log_spec \<Rightarrow> 'db cluster \<Rightarrow> repl_thread option \<times> 'db cluster \<Rightarrow> bool" where
  "step_ok R nf s cl res \<longleftrightarrow> cluster_inv R nf (snd res) s \<and> cl_threads (snd res) = cl_threads cl \<and>
     (\<forall>a. node_len (cl_nodes cl) a \<le> node_len (cl_nodes (snd res)) a) \<and>
     (\<forall>th. fst res = Some th \<longrightarrow> thread_ok (spec_entries s) (node_len (cl_nodes (snd res))) th)"

context reliable_rocksdb
begin

lemma leader_read_in_log:
  assumes inv: "cluster_inv R nf cl s" and e: "in_log (spec_entries s) e" and i: "1 \<le> i" "i \<le> we_index e"
  shows "\<exists>ce. wal_read_entry R i (le_wal (cl_leader cl)) = Inr (Some ce) \<and> in_log (spec_entries s) ce"
proof -
  obtain j where j: "j < length (spec_entries s)" "unat (we_index e) = Suc j"
    using in_log_index [OF cluster_invD(3) [OF inv] e] by metis
  have "unat i \<le> Suc j" using i(2) j by (simp add: word_le_nat_alt)
  then have le: "unat i \<le> length (spec_entries s)" using j by simp
  have "0 < unat i" using i(1) by (simp add: word_le_nat_alt)
  then have "in_log (spec_entries s) (spec_entries s ! (unat i - 1))" using le
    by (auto simp: in_log_def intro!: exI [of _ "unat i - 1"])
  then show ?thesis using wal_rel_read [OF cluster_invD(1) [OF inv] i(1) le] by blast
qed

lemma follower_match_next:
  assumes inv: "cluster_inv R nf cl s"
  shows "1 \<le> (case um_find (le_followers (cl_leader cl)) a of Some fs \<Rightarrow> fs_match_index fs | None \<Rightarrow> 0) + 1"
proof (cases "um_find (le_followers (cl_leader cl)) a")
  case None
  then show ?thesis by simp
next
  case (Some f)
  have "unat (fs_match_index f) \<le> node_len (cl_nodes cl) a"
    using cluster_invD(7) [OF inv] Some by (auto simp: acks_ok_def)
  moreover have "node_len (cl_nodes cl) a \<le> length (spec_entries s)"
  proof (cases "um_find (cl_nodes cl) a")
    case (Some nd)
    then obtain t where t: "node_rel R nd t" "prefix (spec_entries t) (spec_entries s)"
      using cluster_invD(4) [OF inv] by (auto simp: nodes_ok_def)
    show ?thesis using node_len_rel [OF t(1)] prefix_length_le [OF t(2)] Some by (simp add: node_len_def)
  qed (simp add: node_len_def)
  ultimately have "Suc (unat (fs_match_index f)) < 2 ^ 64"
    using wal_relD(1) [OF cluster_invD(1) [OF inv]] by linarith
  then have "fs_match_index f \<noteq> - 1" by (simp add: u64_not_max)
  then have "unat (fs_match_index f + 1) = Suc (unat (fs_match_index f))" by (rule unat_u64_Suc)
  then show ?thesis using Some by (simp add: word_le_nat_alt)
qed

lemma rpc_append_step:
  assumes inv: "cluster_inv R nf cl s" and e: "in_log (spec_entries s) e"
    and rpc: "rpc_append R net a (we_term e) e lc (cl_nodes cl) = (acked, nodes)"
  shows "cluster_inv R nf (cl\<lparr>cl_nodes := nodes\<rparr>) s" "\<And>b. node_len (cl_nodes cl) b \<le> node_len nodes b"
    "acked \<Longrightarrow> unat (we_index e) \<le> node_len nodes a"
  using rpc_append_ok [OF cluster_invD(4,3) [OF inv] e rpc] cluster_inv_nodes [OF inv, of nodes] by blast+

lemma step_send:
  assumes inv: "cluster_inv R nf cl s" and th: "thread_ok (spec_entries s) len th" and pc: "rt_pc th = Send"
  shows "step_ok R nf s cl (replicate_step R clk now net th cl)"
proof -
  obtain acked nodes where rpc: "rpc_append R net (rt_addr th) (we_term (rt_entry th)) (rt_entry th)
      (committed (le_wal (cl_leader cl))) (cl_nodes cl) = (acked, nodes)" by fastforce
  show ?thesis using rpc_append_step [OF inv _ rpc] th pc rpc follower_match_next [OF inv, of "rt_addr th"]
    by (auto simp: step_ok_def replicate_step_def Let_def)
qed

lemma step_catch_up:
  assumes inv: "cluster_inv R nf cl s" and th: "thread_ok (spec_entries s) len th" and pc: "rt_pc th = Catch_up i"
  shows "step_ok R nf s cl (replicate_step R clk now net th cl)"
proof -
  obtain ce where ce: "wal_read_entry R i (le_wal (cl_leader cl)) = Inr (Some ce)" "in_log (spec_entries s) ce"
    using leader_read_in_log [OF inv] th pc by fastforce
  obtain acked nodes where rpc: "rpc_append R net (rt_addr th) (we_term ce) ce
      (committed (le_wal (cl_leader cl))) (cl_nodes cl) = (acked, nodes)" by fastforce
  show ?thesis using rpc_append_step [OF inv ce(2) rpc] th pc rpc ce
    by (auto simp: step_ok_def replicate_step_def Let_def)
qed

lemma step_commit:
  assumes inv: "cluster_inv R nf cl s"
  shows "cluster_inv R nf (cl\<lparr>cl_nodes := rpc_commit R clk net a i t (cl_nodes cl)\<rparr>) s"
  using cluster_inv_nodes [OF inv rpc_commit_ok(1) [OF cluster_invD(4) [OF inv]]]
    rpc_commit_ok(2) [OF cluster_invD(4) [OF inv]] by simp

lemma in_log_next:
  assumes "log_ok L" and "in_log L e"
  shows "1 \<le> we_index e + 1"
proof -
  obtain i where i: "i < length L" "unat (we_index e) = Suc i" using in_log_index [OF assms] by metis
  have "length L < 2 ^ 64 - 1" using assms(1) by (simp add: log_ok_def)
  then have "we_index e \<noteq> - 1" using i by (simp add: u64_not_max)
  then have "unat (we_index e + 1) = Suc (unat (we_index e))" by (rule unat_u64_Suc)
  then show ?thesis by (simp add: word_le_nat_alt)
qed

lemma replicate_step_ok:
  assumes inv: "cluster_inv R nf cl s" and th: "thread_ok (spec_entries s) (node_len (cl_nodes cl)) th"
  shows "step_ok R nf s cl (replicate_step R clk now net th cl)"
proof (cases "rt_pc th")
  case Send
  then show ?thesis using step_send [OF inv th] by blast
next
  case (Catch_up i)
  then show ?thesis using step_catch_up [OF inv th] by blast
next
  case Record
  then show ?thesis using cluster_inv_ack [OF inv] th by (simp add: step_ok_def replicate_step_def Let_def)
next
  case (Catch_record ce)
  then show ?thesis using cluster_inv_ack [OF inv] th by (simp add: step_ok_def replicate_step_def Let_def)
next
  case Commit
  then show ?thesis using step_commit [OF inv] rpc_commit_ok(2) [OF cluster_invD(4) [OF inv]]
    by (simp add: step_ok_def replicate_step_def Let_def)
next
  case (Catch_commit ce)
  then have "1 \<le> we_index ce + 1" using th in_log_next [OF cluster_invD(3) [OF inv]] by simp
  then show ?thesis using Catch_commit step_commit [OF inv] rpc_commit_ok(2) [OF cluster_invD(4) [OF inv]] th
    by (auto simp: step_ok_def replicate_step_def Let_def)
qed

lemma thread_event_inv:
  assumes inv: "cluster_inv R nf cl s"
  shows "cluster_inv R nf (cluster_step R clk (Ev_thread i now net) cl) s"
proof (cases "i < length (cl_threads cl)")
  case True
  then have in_t: "cl_threads cl ! i \<in> set (cl_threads cl)" by simp
  obtain r cl1 where r: "replicate_step R clk now net (cl_threads cl ! i) cl = (r, cl1)" by fastforce
  have "thread_ok (spec_entries s) (node_len (cl_nodes cl)) (cl_threads cl ! i)"
    using cluster_invD(6) [OF inv] in_t by (auto simp: threads_ok_def)
  then have st: "step_ok R nf s cl (r, cl1)" using replicate_step_ok [OF inv] r by metis
  then have inv1: "cluster_inv R nf cl1 s" and same: "cl_threads cl1 = cl_threads cl"
    and new: "\<And>th. r = Some th \<Longrightarrow> thread_ok (spec_entries s) (node_len (cl_nodes cl1)) th"
    by (auto simp: step_ok_def)
  have ts: "threads_ok (spec_entries s) (node_len (cl_nodes cl1)) (cl_threads cl)"
    using cluster_invD(6) [OF inv1] same by simp
  show ?thesis
  proof (cases r)
    case None
    have "threads_ok (spec_entries s) (node_len (cl_nodes cl1)) (remove_nth i (cl_threads cl))"
      using ts set_remove_nth [of i "cl_threads cl"] unfolding threads_ok_def by blast
    then show ?thesis using cluster_inv_threads [OF inv1] None True r by (simp add: cluster_step_def)
  next
    case (Some th)
    have "threads_ok (spec_entries s) (node_len (cl_nodes cl1)) ((cl_threads cl)[i := th])"
      using ts new [OF Some] set_update_subset_insert [of "cl_threads cl" i th] unfolding threads_ok_def by blast
    then show ?thesis using cluster_inv_threads [OF inv1] Some True r by (simp add: cluster_step_def)
  qed
qed (simp add: cluster_step_def inv)

subsection \<open>Steps of the calls\<close>

lemma append_event_inv:
  assumes inv: "cluster_inv R nf cl s" and ty: "type_ok ty" and pl: "payload_ok pl"
    and room: "unat (last_index (le_wal (cl_leader cl))) < 2 ^ 64 - 3"
  shows "cluster_inv R nf (cluster_step R clk (Ev_append ty pl) cl) (spec_append ty 1 pl s)"
proof -
  define le L where "le = cl_leader cl" and "L = spec_entries s"
  define e where "e = \<lparr>we_index = word_of_nat (Suc (length L)), we_term = 1, we_type = ty, we_payload = pl\<rparr>"
  have room': "length (spec_entries s) < 2 ^ 64 - 3"
    using room wal_rel_last [OF cluster_invD(1) [OF inv]] by simp
  obtain r w where wa: "wal_append R ty 1 pl (le_wal le) = (r, w)" by fastforce
  have r: "r = Inr (word_of_nat (Suc (length L)))" and rel: "wal_rel R w (spec_append ty 1 pl s)"
    using append_rel [OF cluster_invD(1) [OF inv] pl ty _ wa [unfolded le_def]] room' by (simp_all add: L_def)
  have step: "cluster_step R clk (Ev_append ty pl) cl =
      cl\<lparr>cl_leader := le\<lparr>le_wal := w\<rparr>, cl_starting := cl_starting cl @ [e]\<rparr>"
    using wa r cluster_invD(2) [OF inv] by (simp add: cluster_step_def write_append_def le_def e_def Let_def)
  have L': "spec_entries (spec_append ty 1 pl s) = L @ [e]" by (simp add: spec_append_def L_def e_def)
  then have pre: "prefix L (spec_entries (spec_append ty 1 pl s))" by simp
  have "log_ok (L @ [e])"
    using cluster_invD(3) [OF inv] room' ty pl by (auto simp: log_ok_def L_def e_def nth_append less_Suc_eq)
  moreover have "in_log (L @ [e]) x" if x: "x \<in> set (cl_starting cl @ [e])" for x
  proof (cases "x = e")
    case True
    then show ?thesis by (auto simp: in_log_def intro!: exI [of _ "length L"])
  next
    case False
    then obtain j where "j < length L" "x = L ! j"
      using x cluster_invD(5) [OF inv, of x] by (auto simp: in_log_def L_def)
    then show ?thesis by (auto simp: in_log_def nth_append intro!: exI [of _ j])
  qed
  ultimately show ?thesis
    using cluster_invD [OF inv] rel nodes_ok_mono [OF cluster_invD(4) [OF inv], of "L @ [e]"]
      threads_ok_mono [OF cluster_invD(6) [OF inv], of "L @ [e]" "node_len (cl_nodes cl)"]
      writes_ok_mono [OF cluster_invD(8) [OF inv], of "L @ [e]" "spec_committed s" "node_len (cl_nodes cl)"]
    unfolding cluster_inv_def step L' by (simp add: L_def le_def spec_append_def)
qed

lemma register_event_inv:
  assumes inv: "cluster_inv R nf cl s"
  shows "cluster_inv R nf (cluster_step R clk (Ev_register i) cl) s"
proof (cases "i < length (cl_starting cl)")
  case True
  define e where "e = cl_starting cl ! i"
  define ths where "ths = map (\<lambda>addr. \<lparr>rt_addr = addr, rt_entry = e, rt_pc = Send\<rparr>) (map fst (le_followers (cl_leader cl)))"
  have e: "in_log (spec_entries s) e" using cluster_invD(5) [OF inv] True by (simp add: e_def)
  then obtain j where j: "j < length (spec_entries s)" "unat (we_index e) = Suc j"
    using in_log_index [OF cluster_invD(3) [OF inv]] by metis
  have maj: "cast_int (length (le_followers (cl_leader cl))) = int nf"
    using cluster_invD(9,10) [OF inv] by (simp add: cast_int_id)
  have "threads_ok (spec_entries s) (node_len (cl_nodes cl)) (cl_threads cl @ ths)"
    using cluster_invD(6) [OF inv] e by (auto simp: threads_ok_def ths_def)
  moreover have "writes_ok nf (spec_entries s) (spec_committed s) (node_len (cl_nodes cl))
      (cl_pending cl @ [(we_index e, (int nf + 1) div 2)]) (cl_returned cl)"
    using cluster_invD(8) [OF inv] j by (auto simp: writes_ok_def)
  moreover have "acks_ok (node_len (cl_nodes cl)) (le_followers (cl_leader cl))
      (um_assign (we_index e) 0 (le_acks (cl_leader cl)))"
    using cluster_invD(7) [OF inv] by (auto simp: acks_ok_def split: if_splits)
  moreover have "cluster_step R clk (Ev_register i) cl =
      cl\<lparr>cl_leader := (cl_leader cl)\<lparr>le_acks := um_assign (we_index e) 0 (le_acks (cl_leader cl))\<rparr>,
         cl_starting := remove_nth i (cl_starting cl), cl_threads := cl_threads cl @ ths,
         cl_pending := cl_pending cl @ [(we_index e, (int nf + 1) div 2)]\<rparr>"
    using True maj by (simp add: cluster_step_def write_register_def Let_def e_def ths_def)
  ultimately show ?thesis
    using cluster_invD [OF inv] set_remove_nth [of i "cl_starting cl"]
    unfolding cluster_inv_def by (simp add: subset_iff)
qed (simp add: cluster_step_def inv)

lemma poll_event_inv:
  assumes inv: "cluster_inv R nf cl s"
  shows "\<exists>s'. cluster_inv R nf (cluster_step R clk (Ev_poll i) cl) s'"
proof (cases "i < length (cl_pending cl)")
  case True
  obtain idx m where im: "cl_pending cl ! i = (idx, m)" by fastforce
  have mem: "(idx, m) \<in> set (cl_pending cl)" using True im by (metis nth_mem)
  have wr: "idx \<noteq> 0" "unat idx \<le> length (spec_entries s)" "m = (int nf + 1) div 2"
    using cluster_invD(8) [OF inv] mem by (auto simp: writes_ok_def)
  show ?thesis
  proof (cases "\<exists>n. um_find (le_acks (cl_leader cl)) idx = Some n \<and> m \<le> n")
    case False
    then have "write_poll R clk idx m (cl_leader cl) = (Inr None, cl_leader cl)"
      by (auto simp: write_poll_def split: option.split)
    then show ?thesis using inv True im by (intro exI [of _ s]) (simp add: cluster_step_def)
  next
    case True
    then obtain n where n: "um_find (le_acks (cl_leader cl)) idx = Some n" "m \<le> n" by blast
    obtain w where w: "wal_commit R idx (le_wal (cl_leader cl)) = Inr w" "wal_rel R w (spec_commit (unat idx) s)"
      using commit_rel [OF cluster_invD(1) [OF inv] wr(2)] by blast
    define returned where "returned = (case on_commit R clk idx w (le_coord (cl_leader cl)) of
       Inl _ \<Rightarrow> cl_returned cl | Inr _ \<Rightarrow> cl_returned cl @ [(idx, OK)])"
    have held: "0 < nf \<Longrightarrow> \<exists>a. unat idx \<le> node_len (cl_nodes cl) a"
      using cluster_invD(7) [OF inv] n wr(3) by (auto simp: acks_ok_def)
    have "writes_ok nf (spec_entries s) (max (unat idx) (spec_committed s)) (node_len (cl_nodes cl))
        (remove_nth i (cl_pending cl)) (cl_returned cl)"
      using writes_ok_mono [OF cluster_invD(8) [OF inv] prefix_order.refl, of "max (unat idx) (spec_committed s)"
          "node_len (cl_nodes cl)"] set_remove_nth [of i "cl_pending cl"]
      unfolding writes_ok_def by auto
    then have "writes_ok nf (spec_entries s) (max (unat idx) (spec_committed s)) (node_len (cl_nodes cl))
        (remove_nth i (cl_pending cl)) returned"
      using held wr unfolding writes_ok_def returned_def by (auto split: sum.splits)
    moreover obtain c where "cluster_step R clk (Ev_poll i) cl =
        cl\<lparr>cl_leader := (cl_leader cl)\<lparr>le_wal := w, le_coord := c\<rparr>,
           cl_pending := remove_nth i (cl_pending cl), cl_returned := returned\<rparr>"
    proof (cases "on_commit R clk idx w (le_coord (cl_leader cl))")
      case (Inl x)
      then show ?thesis using that [of "le_coord (cl_leader cl)"] \<open>i < length _\<close> im n w
        by (simp add: cluster_step_def write_poll_def Let_def returned_def)
    next
      case (Inr c)
      then show ?thesis using that [of c] \<open>i < length _\<close> im n w
        by (simp add: cluster_step_def write_poll_def Let_def returned_def)
    qed
    ultimately have "cluster_inv R nf (cluster_step R clk (Ev_poll i) cl) (spec_commit (unat idx) s)"
      using cluster_invD [OF inv] w unfolding cluster_inv_def by (simp add: spec_commit_def)
    then show ?thesis by blast
  qed
qed (use inv in \<open>auto simp: cluster_step_def\<close>)

lemma timeout_event_inv:
  assumes inv: "cluster_inv R nf cl s"
  shows "cluster_inv R nf (cluster_step R clk (Ev_timeout i) cl) s"
proof -
  have "writes_ok nf (spec_entries s) (spec_committed s) (node_len (cl_nodes cl))
      (remove_nth i (cl_pending cl)) (cl_returned cl @ [(idx, UNAVAILABLE)])" for idx
    using cluster_invD(8) [OF inv] set_remove_nth [of i "cl_pending cl"] unfolding writes_ok_def by auto
  then show ?thesis using cluster_invD [OF inv] unfolding cluster_inv_def by (simp add: cluster_step_def)
qed

lemma heartbeats_event_inv:
  assumes inv: "cluster_inv R nf cl s"
  shows "cluster_inv R nf (cluster_step R clk (Ev_heartbeats hb t) cl) s"
proof -
  define fs where "fs = le_followers (send_heartbeats hb t (cl_leader cl))"
  have "unat (fs_match_index f) \<le> node_len (cl_nodes cl) a" if f: "um_find fs a = Some f" for a f
  proof -
    obtain g where "um_find (le_followers (cl_leader cl)) a = Some g" "fs_match_index g = fs_match_index f"
      using send_heartbeats_match [of hb t "cl_leader cl" a] f
      by (cases "um_find (le_followers (cl_leader cl)) a") (auto simp: fs_def)
    then show ?thesis using cluster_invD(7) [OF inv] unfolding acks_ok_def by metis
  qed
  then have "acks_ok (node_len (cl_nodes cl)) fs (le_acks (cl_leader cl))"
    using cluster_invD(7) [OF inv] unfolding acks_ok_def by blast
  then show ?thesis using cluster_invD [OF inv] unfolding cluster_inv_def
    by (simp add: cluster_step_def fs_def)
qed

end

section \<open>Reachable clusters\<close>

text \<open>
  Guards of the environment: the payload fits the 32-bit length field, its type is one of the
  program's byte values and the 64-bit index does not run out.
\<close>

fun event_ok :: "'db cluster \<Rightarrow> cluster_event \<Rightarrow> bool" where
  "event_ok cl (Ev_append ty pl) \<longleftrightarrow> type_ok ty \<and> payload_ok pl \<and>
     unat (last_index (le_wal (cl_leader cl))) < 2 ^ 64 - 3"
| "event_ok cl ev \<longleftrightarrow> True"

inductive reachable :: "'db rocksdb_ops \<Rightarrow> (u64 \<Rightarrow> u64) \<Rightarrow> 'db cluster \<Rightarrow> 'db cluster \<Rightarrow> bool"
  for R :: "'db rocksdb_ops" and clk :: "u64 \<Rightarrow> u64" and cl0 :: "'db cluster" where
  start: "reachable R clk cl0 cl0"
| step: "reachable R clk cl0 cl \<Longrightarrow> event_ok cl ev \<Longrightarrow> reachable R clk cl0 (cluster_step R clk ev cl)"

text \<open>A concrete schedule is a reachability proof.\<close>

fun run_events :: "'db rocksdb_ops \<Rightarrow> (u64 \<Rightarrow> u64) \<Rightarrow> cluster_event list \<Rightarrow> 'db cluster \<Rightarrow> 'db cluster option" where
  "run_events R clk [] cl = Some cl"
| "run_events R clk (ev # evs) cl = (if event_ok cl ev then run_events R clk evs (cluster_step R clk ev cl) else None)"

lemma run_events_reachable:
  "reachable R clk cl0 cl \<Longrightarrow> run_events R clk evs cl = Some cl' \<Longrightarrow> reachable R clk cl0 cl'"
  by (induction evs arbitrary: cl) (auto split: if_splits intro: reachable.step)

lemma fold_add_follower:
  "distinct addrs \<Longrightarrow> (\<And>a. a \<in> set addrs \<Longrightarrow> um_find (le_followers le) a = None) \<Longrightarrow>
    (\<And>a f. um_find (le_followers le) a = Some f \<Longrightarrow> fs_match_index f = 0) \<Longrightarrow>
    (let le' = fold (add_follower now) addrs le in
       length (le_followers le') = length (le_followers le) + length addrs \<and>
       (\<forall>a f. um_find (le_followers le') a = Some f \<longrightarrow> fs_match_index f = 0) \<and>
       le_wal le' = le_wal le \<and> le_term le' = le_term le \<and> le_acks le' = le_acks le)"
proof (induction addrs arbitrary: le)
  case (Cons a addrs)
  have len: "um_find m a = None \<Longrightarrow> length (um_assign a v m) = Suc (length m)" for v and m :: "(string, follower_state) umap"
    by (induction m) (auto split: if_splits)
  have new: "um_find (le_followers le) a = None" using Cons.prems(2) by simp
  have "length (le_followers (add_follower now a le)) = Suc (length (le_followers le))"
    using len [OF new] by (simp add: add_follower_def)
  moreover have "\<And>b. b \<in> set addrs \<Longrightarrow> um_find (le_followers (add_follower now a le)) b = None"
    using Cons.prems(1,2) by (auto simp: add_follower_def)
  moreover have "\<And>b f. um_find (le_followers (add_follower now a le)) b = Some f \<Longrightarrow> fs_match_index f = 0"
    using Cons.prems(3) by (auto simp: add_follower_def split: if_splits)
  ultimately show ?case
    using Cons.IH [of "add_follower now a le"] Cons.prems(1) by (simp add: Let_def add_follower_def)
qed (simp add: Let_def)

lemma fresh_cluster_inv:
  assumes empty: "\<And>k. db_get R d k = None" and dist: "distinct addrs" and len: "length addrs < 2 ^ 31 - 1"
  shows "cluster_inv R (length addrs) (fresh_cluster d now addrs) \<lparr>spec_entries = [], spec_committed = 0\<rparr>"
proof -
  define w where "w = \<lparr>wal_db = d, last_index = 0, committed = 0\<rparr>"
  define le where "le = fold (add_follower now) addrs (new_leader w empty_coordinator)"
  have rel: "wal_rel R w \<lparr>spec_entries = [], spec_committed = 0\<rparr>"
    using wal_rel_empty [OF empty] empty by (simp add: wal_open_def w_def)
  have le: "length (le_followers le) = length addrs" "le_wal le = w" "le_term le = 1" "le_acks le = []"
    "\<And>a f. um_find (le_followers le) a = Some f \<Longrightarrow> fs_match_index f = 0"
    using fold_add_follower [OF dist, of "new_leader w empty_coordinator" now]
    by (simp_all add: le_def new_leader_def Let_def)
  have "node_rel R (fresh_node d) \<lparr>spec_entries = [], spec_committed = 0\<rparr>"
    using rel empty by (simp add: node_rel_def fresh_node_def w_def)
  moreover have "um_find (map (\<lambda>a. (a, fresh_node d)) as) a = Some nd \<Longrightarrow> nd = fresh_node d" for as a nd
    by (induction as) (auto split: if_splits)
  ultimately have "nodes_ok R [] (map (\<lambda>a. (a, fresh_node d)) addrs)"
    unfolding nodes_ok_def by (metis log_spec.select_convs(1) prefix_order.refl)
  then show ?thesis using rel le len unfolding cluster_inv_def fresh_cluster_def w_def [symmetric] le_def [symmetric]
    by (simp add: log_ok_def threads_ok_def acks_ok_def writes_ok_def)
qed

context reliable_rocksdb
begin

lemma cluster_step_inv:
  assumes inv: "cluster_inv R nf cl s" and ev: "event_ok cl ev"
  shows "\<exists>s'. cluster_inv R nf (cluster_step R clk ev cl) s'"
proof (cases ev)
  case (Ev_append ty pl)
  then show ?thesis using append_event_inv [OF inv] ev by auto
qed (use register_event_inv [OF inv] thread_event_inv [OF inv] poll_event_inv [OF inv]
      timeout_event_inv [OF inv] heartbeats_event_inv [OF inv] in blast)+

lemma reachable_inv:
  assumes "reachable R clk (fresh_cluster d now addrs) cl"
    and "\<And>k. db_get R d k = None" and "distinct addrs" and "length addrs < 2 ^ 31 - 1"
  shows "\<exists>s. cluster_inv R (length addrs) cl s"
  using assms(1)
proof induction
  case start
  then show ?case using fresh_cluster_inv [OF assms(2-4)] by blast
next
  case (step cl ev)
  then show ?case using cluster_step_inv by blast
qed

end

lemma log_matching_inv:
  assumes inv: "cluster_inv R nf cl s" and node: "um_find (cl_nodes cl) a = Some nd"
    and i: "1 \<le> i" "i \<le> last_index (fo_wal (mn_follower nd))"
  shows "i \<le> last_index (le_wal (cl_leader cl)) \<and>
    (\<exists>e. wal_read_entry R i (fo_wal (mn_follower nd)) = Inr (Some e) \<and>
         wal_read_entry R i (le_wal (cl_leader cl)) = Inr (Some e))"
proof -
  obtain t where t: "node_rel R nd t" "prefix (spec_entries t) (spec_entries s)"
    using cluster_invD(4) [OF inv] node by (auto simp: nodes_ok_def)
  have rel: "wal_rel R (fo_wal (mn_follower nd)) t" using t(1) by (simp add: node_rel_def)
  have le: "unat i \<le> length (spec_entries t)" using i(2) wal_rel_last [OF rel] by (simp add: word_le_nat_alt)
  then have le': "unat i \<le> length (spec_entries s)" using prefix_length_le [OF t(2)] by simp
  have "0 < unat i" using i(1) by (simp add: word_le_nat_alt)
  then have "spec_entries t ! (unat i - 1) = spec_entries s ! (unat i - 1)"
    using t(2) le by (auto simp: prefix_def nth_append)
  then show ?thesis
    using wal_rel_read [OF rel i(1) le] wal_rel_read [OF cluster_invD(1) [OF inv] i(1) le'] le'
      wal_rel_last [OF cluster_invD(1) [OF inv]] by (simp add: word_le_nat_alt)
qed


lemma returned_holder:
  assumes inv: "cluster_inv R nf cl s" and ret: "(i, OK) \<in> set (cl_returned cl)" and nf: "0 < nf"
  shows "\<exists>a nd. um_find (cl_nodes cl) a = Some nd \<and> 1 \<le> i \<and> i \<le> last_index (fo_wal (mn_follower nd))"
proof -
  have w: "i \<noteq> 0" "\<exists>a. unat i \<le> node_len (cl_nodes cl) a"
    using cluster_invD(8) [OF inv] ret nf unfolding writes_ok_def by blast+
  from w(2) obtain a where a: "unat i \<le> node_len (cl_nodes cl) a" by blast
  then obtain nd where nd: "um_find (cl_nodes cl) a = Some nd"
    using w(1) by (cases "um_find (cl_nodes cl) a") (auto simp: node_len_def unat_eq_0)
  then have "i \<le> last_index (fo_wal (mn_follower nd))" using a by (simp add: node_len_def word_le_nat_alt)
  then show ?thesis using nd w(1) by (auto simp: word_le_nat_alt unat_gt_0 Suc_le_eq)
qed

text \<open>
  C2. A write that returned OK is durable: its index is committed in the leader's log, which
  holds the entry, and with followers at least one of them holds the same entry.
\<close>

theorem write_ok_durable:
  assumes db: "reliable_rocksdb R" and empty: "\<forall>k. db_get R d k = None"
    and addrs: "distinct addrs" "length addrs < 2 ^ 31 - 1"
    and reach: "reachable R clk (fresh_cluster d now addrs) cl"
    and ret: "(i, OK) \<in> set (cl_returned cl)"
  shows "i \<noteq> 0 \<and> i \<le> committed (le_wal (cl_leader cl)) \<and>
    (\<exists>e. wal_read_entry R i (le_wal (cl_leader cl)) = Inr (Some e) \<and>
       (addrs \<noteq> [] \<longrightarrow> (\<exists>a nd. um_find (cl_nodes cl) a = Some nd \<and>
          wal_read_entry R i (fo_wal (mn_follower nd)) = Inr (Some e))))"
proof -
  obtain s where inv: "cluster_inv R (length addrs) cl s"
    using reliable_rocksdb.reachable_inv [OF db reach _ addrs] empty by blast
  have w: "i \<noteq> 0" "unat i \<le> spec_committed s"
    using cluster_invD(8) [OF inv] ret unfolding writes_ok_def by blast+
  have i1: "1 \<le> i" using w(1) by (simp add: word_le_nat_alt unat_gt_0 Suc_le_eq)
  have le: "unat i \<le> length (spec_entries s)" using w(2) wal_relD(2) [OF cluster_invD(1) [OF inv]] by simp
  define e where "e = spec_entries s ! (unat i - 1)"
  have rd: "wal_read_entry R i (le_wal (cl_leader cl)) = Inr (Some e)"
    using wal_rel_read [OF cluster_invD(1) [OF inv] i1 le] by (simp add: e_def)
  have "\<exists>a nd. um_find (cl_nodes cl) a = Some nd \<and> wal_read_entry R i (fo_wal (mn_follower nd)) = Inr (Some e)"
    if "addrs \<noteq> []"
    using returned_holder [OF inv ret] that log_matching_inv [OF inv] rd by fastforce
  moreover have "i \<le> committed (le_wal (cl_leader cl))"
    using wal_rel_committed [OF cluster_invD(1) [OF inv]] w(2) by (simp add: word_le_nat_alt)
  ultimately show ?thesis using w(1) rd by blast
qed

text \<open>
  The assertion in \<^verbatim>\<open>MetaWal::commit\<close> cannot fail from a waiting write: the index of
  every pending write is in the leader's log.
\<close>

theorem pending_commit_in_log:
  assumes db: "reliable_rocksdb R" and empty: "\<forall>k. db_get R d k = None"
    and addrs: "distinct addrs" "length addrs < 2 ^ 31 - 1"
    and reach: "reachable R clk (fresh_cluster d now addrs) cl"
    and pend: "(i, m) \<in> set (cl_pending cl)"
  shows "(\<exists>w. wal_commit R i (le_wal (cl_leader cl)) = Inr w) \<and> m = (int (length addrs) + 1) div 2"
proof -
  obtain s where inv: "cluster_inv R (length addrs) cl s"
    using reliable_rocksdb.reachable_inv [OF db reach _ addrs] empty by blast
  have "unat i \<le> length (spec_entries s)" "m = (int (length addrs) + 1) div 2"
    using cluster_invD(8) [OF inv] pend unfolding writes_ok_def by blast+
  then show ?thesis using reliable_rocksdb.commit_rel [OF db cluster_invD(1) [OF inv]] by blast
qed


text \<open>A schedule on two followers: one write, replicated to the first, acknowledged and committed.\<close>

definition demo_cluster :: "mem_db cluster" where
  "demo_cluster = fresh_cluster [] 0 [''a'', ''b'']"

definition demo_events :: "cluster_event list" where
  "demo_events = [Ev_append DELETE_CHUNK ''x'', Ev_register 0, Ev_thread 0 7 Delivered, Ev_thread 0 8 Delivered,
     Ev_thread 0 9 Delivered, Ev_poll 0]"

lemma demo_run:
  "(case run_events mem_rocksdb (\<lambda>_. 0) demo_events demo_cluster of
     None \<Rightarrow> False
   | Some cl \<Rightarrow> cl_returned cl = [(1, OK)] \<and> (case um_find (cl_nodes cl) ''a'' of None \<Rightarrow> False
       | Some nd \<Rightarrow> last_index (fo_wal (mn_follower nd)) = 1))"
  by code_simp

lemma demo_reaches:
  "\<exists>cl nd. reachable mem_rocksdb (\<lambda>_. 0) (fresh_cluster [] 0 [''a'', ''b'']) cl \<and> cl_returned cl = [(1, OK)] \<and>
     um_find (cl_nodes cl) ''a'' = Some nd \<and> last_index (fo_wal (mn_follower nd)) = 1"
  using demo_run run_events_reachable [OF reachable.start, of mem_rocksdb "\<lambda>_. 0" demo_events demo_cluster]
  by (auto simp: demo_cluster_def split: option.splits)

lemma demo_pending:
  "\<exists>cl. reachable mem_rocksdb (\<lambda>_. 0) (fresh_cluster [] 0 [''a'', ''b'']) cl \<and> cl_pending cl = [(1, 1)]"
proof -
  have "(case run_events mem_rocksdb (\<lambda>_. 0) [Ev_append DELETE_CHUNK ''x'', Ev_register 0] demo_cluster of
      None \<Rightarrow> False | Some cl \<Rightarrow> cl_pending cl = [(1, 1)])" by code_simp
  then show ?thesis
    using run_events_reachable [OF reachable.start, of mem_rocksdb "\<lambda>_. 0"
        "[Ev_append DELETE_CHUNK ''x'', Ev_register 0]" demo_cluster]
    by (auto simp: demo_cluster_def split: option.splits)
qed

lemma mem_empty: "\<forall>k. db_get mem_rocksdb [] k = None"
  by (simp add: mem_rocksdb_def)


theorem write_ok_durable_witness:
  "\<exists>cl. reachable mem_rocksdb (\<lambda>_. 0) (fresh_cluster [] 0 [''a'', ''b'']) cl \<and>
     1 \<le> committed (le_wal (cl_leader cl)) \<and>
     (\<exists>e a nd. wal_read_entry mem_rocksdb 1 (le_wal (cl_leader cl)) = Inr (Some e) \<and>
        um_find (cl_nodes cl) a = Some nd \<and> wal_read_entry mem_rocksdb 1 (fo_wal (mn_follower nd)) = Inr (Some e))"
proof -
  obtain cl where r: "reachable mem_rocksdb (\<lambda>_. 0) (fresh_cluster [] 0 [''a'', ''b'']) cl"
    and ret: "(1, OK) \<in> set (cl_returned cl)" using demo_reaches by fastforce
  show ?thesis using write_ok_durable [OF mem.reliable_rocksdb_axioms mem_empty _ _ r ret] r by auto
qed


theorem pending_commit_in_log_witness:
  "\<exists>cl. reachable mem_rocksdb (\<lambda>_. 0) (fresh_cluster [] 0 [''a'', ''b'']) cl \<and> cl_pending cl = [(1, 1)] \<and>
     (\<exists>w. wal_commit mem_rocksdb 1 (le_wal (cl_leader cl)) = Inr w)"
proof -
  obtain cl where r: "reachable mem_rocksdb (\<lambda>_. 0) (fresh_cluster [] 0 [''a'', ''b'']) cl"
    and p: "cl_pending cl = [(1, 1)]" using demo_pending by blast
  show ?thesis using pending_commit_in_log [OF mem.reliable_rocksdb_axioms mem_empty _ _ r, of 1 1] r p by auto
qed

definition dup_events :: "cluster_event list" where
  "dup_events = [Ev_append DELETE_CHUNK ''x'', Ev_register 0, Ev_append DELETE_CHUNK ''y'', Ev_register 0,
     Ev_thread 4 1 Delivered, Ev_thread 0 2 Delivered, Ev_thread 0 3 Delivered,
     Ev_thread 4 4 Delivered, Ev_thread 4 5 Delivered, Ev_poll 0]"


end
