(* ===== verification/Meta_Server.thy ===== *)
theory Meta_Server
  imports Node_Config Meta_Rpc Meta_Replication
begin

text \<open>
  The metadata server process, \<^verbatim>\<open>src/bin/meta_server.cpp\<close>: its command line, the objects
  \<^verbatim>\<open>main\<close> makes of it, and its background thread, which sends heartbeats, evicts stale nodes
  and, at every tenth interval, lets the policy resize chunks. The lemmas say what a pass of the policy
  does to the tables and that the result of a failed resize is not tried again.
\<close>

section \<open>Command line\<close>

text \<open>
  The loop over the arguments: \<open>Inl\<close> is the exit status of a process that ends here. An option
  without a value and an unknown argument are skipped.
\<close>

fun meta_args :: "string list \<Rightarrow> node_config \<Rightarrow> int + node_config" where
  "meta_args [] cfg = Inr cfg"
| "meta_args [arg] cfg = (if arg = ''--help'' then Inl 0 else Inr cfg)"
| "meta_args (arg # v # rest) cfg =
     (if arg = ''--role'' then meta_args rest (cfg\<lparr>cfg_role := v\<rparr>)
      else if arg = ''--id'' then meta_args rest (cfg\<lparr>cfg_node_id := v\<rparr>)
      else if arg = ''--listen'' then meta_args rest (cfg\<lparr>cfg_address := v\<rparr>)
      else if arg = ''--data'' then meta_args rest (cfg\<lparr>cfg_data_dir := v\<rparr>)
      else if arg = ''--mode'' then meta_args rest (cfg\<lparr>cfg_mode := v\<rparr>)
      else if arg = ''--peers'' then meta_args rest (cfg\<lparr>cfg_peers := cfg_peers cfg @ split_nonempty v CHR '',''\<rparr>)
      else if arg = ''--help'' then Inl 0
      else meta_args (v # rest) cfg)"

definition meta_server_config :: "string list \<Rightarrow> int + node_config" where
  "meta_server_config args = ebind (meta_args args (default_node_config\<lparr>cfg_mode := ''adaptive''\<rparr>)) (\<lambda>cfg.
     if cfg_role cfg = [] \<or> cfg_address cfg = [] \<or> cfg_data_dir cfg = [] then Inl 1 else Inr cfg)"

text \<open>
  The service object: a server whose role is \<^verbatim>\<open>leader\<close> replicates; the policy and the driver
  are there for a leader in adaptive mode.
\<close>

definition service_of_config :: "node_config \<Rightarrow> rpc_service" where
  "service_of_config cfg =
     (let leader = (cfg_role cfg = ''leader''); adaptive = (leader \<and> cfg_mode cfg = ''adaptive'')
      in \<lparr>rs_repl = leader, rs_policy = adaptive, rs_reconfig = adaptive, rs_mode = cfg_mode cfg,
          rs_address = cfg_address cfg, rs_peers = cfg_peers cfg, rs_heartbeat_interval_ms = cfg_heartbeat_interval_ms cfg\<rparr>)"

section \<open>The background thread\<close>

text \<open>One chunk of a policy pass; \<open>now\<close> is the clock when it is evaluated.\<close>

definition policy_chunk :: "'db rpc_env \<Rightarrow> placement_config \<Rightarrow> policy_config \<Rightarrow> (float64 \<Rightarrow> float64) \<Rightarrow> (string \<Rightarrow> u64) \<Rightarrow>
     chunk_entry \<Rightarrow> 'db rpc_state \<Rightarrow> cxx_exc + 'db rpc_state" where
  "policy_chunk env plc pol exp_fn now c s =
     (let (dec, p) = evaluate pol exp_fn (now (ce_chunk_id c)) (ce_chunk_id c) (st_policy s);
          s1 = s\<lparr>st_policy := p\<rparr>
      in if pd_changed dec \<and> pd_new_rf dec \<noteq> ce_replication_factor c
         then ebind (reconfig (env_db env) (env_ord env) plc (env_shuffle env) (env_up env) (env_outcome env) (env_clk env)
                       (ce_chunk_id c) (pd_new_rf dec) [] [] (st_coord s1, st_nodes s1))
                (\<lambda>(ok, coord, nodes). Inr (s1\<lparr>st_coord := coord, st_nodes := nodes\<rparr>))
         else Inr s1)"

definition policy_pass :: "'db rpc_env \<Rightarrow> placement_config \<Rightarrow> policy_config \<Rightarrow> (float64 \<Rightarrow> float64) \<Rightarrow> (string \<Rightarrow> u64) \<Rightarrow>
     'db rpc_state \<Rightarrow> cxx_exc + 'db rpc_state" where
  "policy_pass env plc pol exp_fn now s =
     efold (policy_chunk env plc pol exp_fn now) (get_chunks (env_ord_chunks env) (st_coord s)) s"

text \<open>
  One turn of the loop. \<open>repl\<close> is the replication object of a leader, of which only the follower
  table is touched here; the product \<^verbatim>\<open>follower_timeout_ms * 5\<close> is a 32-bit one. An exception
  ends the process, as nothing catches it in that thread.
\<close>

definition background_tick :: "node_config \<Rightarrow> 'db rpc_env \<Rightarrow> (float64 \<Rightarrow> float64) \<Rightarrow> u64 \<Rightarrow> u64 \<Rightarrow> (string \<Rightarrow> u64) \<Rightarrow>
     'db leader option \<times> u32 \<times> 'db rpc_state \<Rightarrow> cxx_exc + 'db leader option \<times> u32 \<times> 'db rpc_state" where
  "background_tick cfg env exp_fn t_steady t_unix now = (\<lambda>(repl, policy_tick, s).
     let repl1 = map_option (send_heartbeats (cfg_heartbeat_interval_ms cfg) t_steady) repl;
         s1 = s\<lparr>st_coord := evict_stale_nodes t_unix (ucast (cfg_follower_timeout_ms cfg * 5)) (st_coord s)\<rparr>;
         svc = service_of_config cfg
     in if rs_policy svc \<and> rs_reconfig svc
        then let policy_tick1 = policy_tick + 1
             in if 10 \<le> policy_tick1
                then ebind (policy_pass env default_placement_config default_policy_config exp_fn now s1)
                       (\<lambda>s2. Inr (repl1, 0, s2))
                else Inr (repl1, policy_tick1, s1)
        else Inr (repl1, policy_tick, s1))"

section \<open>The command line\<close>

text \<open>The command line that gives a configuration.\<close>

definition config_args :: "node_config \<Rightarrow> string list" where
  "config_args cfg = [''--role'', cfg_role cfg, ''--id'', cfg_node_id cfg, ''--listen'', cfg_address cfg, ''--data'', cfg_data_dir cfg,
     ''--mode'', cfg_mode cfg, ''--peers'', join_csv (cfg_peers cfg)]"

section \<open>A pass of the policy\<close>

definition resizable :: "'db rpc_env \<Rightarrow> policy_config \<Rightarrow> coordinator \<Rightarrow> bool" where
  "resizable env pol c \<longleftrightarrow> coord_inv c \<and> visits_all (env_ord env) \<and> visits_all (env_ord_chunks env) \<and> visits_all (env_shuffle env) \<and>
     length (node_table c) < 2 ^ 31 \<and> (\<forall>n \<in> set (get_alive_nodes (env_ord env) c). node_ok n) \<and>
     (\<forall>t. 0 < rf_for_tier pol t \<and> rf_for_tier pol t < 2 ^ 31)"

definition chunk_resizable :: "chunk_entry \<Rightarrow> bool" where
  "chunk_resizable e \<longleftrightarrow> id_ok (ce_chunk_id e) \<and> list_all entry_ok (ce_replica_set e) \<and> ce_replica_set e \<noteq> [] \<and>
     length (ce_replica_set e) < 2 ^ 31 - 1"

text \<open>What a resize makes of an entry: stable on the new set, or in transition to it.\<close>

definition resized :: "policy_config \<Rightarrow> policy_decision \<Rightarrow> chunk_entry \<Rightarrow> chunk_entry \<Rightarrow> bool" where
  "resized pol d e e' \<longleftrightarrow> pd_changed d \<and> ce_config_state e \<noteq> TRANSITIONING \<and>
     ce_replication_factor e' = rf_for_tier pol (pd_new_tier d) \<and>
     length (ce_replica_set e') = nat (rf_for_tier pol (pd_new_tier d)) \<and>
     ce_version e' = ce_version e \<and> ce_size_bytes e' = ce_size_bytes e \<and>
     (ce_config_state e' = STABLE \<and> ce_old_replica_set e' = [] \<or>
      ce_config_state e' = TRANSITIONING \<and> ce_old_replica_set e' = ce_replica_set e)"

lemma logged_write_inv:
  "coord_inv c \<Longrightarrow> logged_write outcome clk ty pl c = Inr (ok, c') \<Longrightarrow> coord_inv c'"
  by (auto simp: logged_write_def coord_inv_apply_entry split: option.splits)

lemma reconfig_inv:
  "coord_inv c \<Longrightarrow> reconfig R ord cfg shuffle up outcome clk cid n inc exc (c, nodes) = Inr (ok, c', nodes') \<Longrightarrow> coord_inv c'"
  by (auto simp: reconfig_def Let_def split: option.splits if_splits prod.splits dest: logged_write_inv)

lemma evaluate_cong:
  assumes "access_state st cid = access_state st' cid"
  shows "fst (evaluate cfg exp_fn now cid st) = fst (evaluate cfg exp_fn now cid st')"
    "access_state (snd (evaluate cfg exp_fn now cid st)) cid = access_state (snd (evaluate cfg exp_fn now cid st')) cid"
  using assms by (simp_all add: evaluate_def Let_def split: prod.split)

lemma policy_chunk_step:
  assumes res: "resizable env pol (st_coord s)" and c: "get_chunk (st_coord s) (ce_chunk_id c) = Some c" and ok: "chunk_resizable c"
    and ev: "evaluate pol exp_fn (now (ce_chunk_id c)) (ce_chunk_id c) (st_policy s) = (d, p)"
  shows "\<exists>s'. policy_chunk env plc pol exp_fn now c s = Inr s' \<and> st_policy s' = p \<and>
    node_table (st_coord s') = node_table (st_coord s) \<and> resizable env pol (st_coord s') \<and>
    (\<forall>k. k \<noteq> ce_chunk_id c \<longrightarrow> get_chunk (st_coord s') k = get_chunk (st_coord s) k) \<and>
    (\<exists>e'. get_chunk (st_coord s') (ce_chunk_id c) = Some e' \<and> (e' = c \<or> resized pol d c e'))"
proof (cases "pd_changed d \<and> pd_new_rf d \<noteq> ce_replication_factor c \<and> ce_config_state c \<noteq> TRANSITIONING")
  case False
  then have "policy_chunk env plc pol exp_fn now c s = Inr (s\<lparr>st_policy := p\<rparr>)"
    using ev c by (auto simp: policy_chunk_def reconfig_def Let_def)
  then show ?thesis using res c by simp
next
  case True
  let ?n = "pd_new_rf d" and ?alive = "get_alive_nodes (env_ord env) (st_coord s)"
  have rf: "?n = rf_for_tier pol (pd_new_tier d)" using evaluate_hysteresis [OF ev] by blast
  have h: "coord_inv (st_coord s)" "visits_all (env_ord env)" "visits_all (env_shuffle env)" "id_ok (ce_chunk_id c)"
      "\<forall>r \<in> set (ce_replica_set c). entry_ok r" "ce_replica_set c \<noteq> []" "length (ce_replica_set c) < 2 ^ 31 - 1"
      "\<forall>x \<in> set ?alive. node_ok x" "length (node_table (st_coord s)) < 2 ^ 31" "0 < ?n" "?n < 2 ^ 31"
    using res ok rf by (auto simp: resizable_def chunk_resizable_def list_all_iff)
  note cases = reconfig_cases [OF h(1-3) c _ h(4-11), where R = "env_db env" and cfg = plc and up = "env_up env"
      and outcome = "env_outcome env" and clk = "env_clk env" and inc = "[]" and exc = "[]" and nodes = "st_nodes s"]
  obtain k c' ns where run: "reconfig (env_db env) (env_ord env) plc (env_shuffle env) (env_up env) (env_outcome env) (env_clk env)
        (ce_chunk_id c) ?n [] [] (st_coord s, st_nodes s) = Inr (k, c', ns)"
      and nt: "node_table c' = node_table (st_coord s)" and other: "\<forall>k. k \<noteq> ce_chunk_id c \<longrightarrow> get_chunk c' k = get_chunk (st_coord s) k"
      and eff: "c' = st_coord s \<or> (\<exists>ids :: string list. length ids = nat ?n \<and>
        (get_chunk c' (ce_chunk_id c) = Some (c\<lparr>ce_config_state := STABLE, ce_replication_factor := ?n,
            ce_replica_set := map (\<lambda>nid. encode_replica_entry nid ?alive) ids, ce_old_replica_set := []\<rparr>) \<or>
         get_chunk c' (ce_chunk_id c) = Some (c\<lparr>ce_config_state := TRANSITIONING, ce_replication_factor := ?n,
            ce_old_replica_set := ce_replica_set c, ce_replica_set := map (\<lambda>nid. encode_replica_entry nid ?alive) ids\<rparr>)))"
    using cases True by (metis (no_types, lifting))
  have "coord_inv c'" using reconfig_inv [OF h(1) run] .
  then have "resizable env pol c'" using res nt get_alive_nodes_cong [OF nt] by (simp add: resizable_def)
  moreover have "\<exists>e'. get_chunk c' (ce_chunk_id c) = Some e' \<and> (e' = c \<or> resized pol d c e')"
    using eff c True rf by (auto simp: resized_def)
  moreover have "policy_chunk env plc pol exp_fn now c s = Inr (s\<lparr>st_policy := p, st_coord := c', st_nodes := ns\<rparr>)"
    using ev True run by (simp add: policy_chunk_def Let_def)
  ultimately show ?thesis using nt other by simp
qed

lemma policy_chunks_fold:
  assumes "resizable env pol (st_coord s)" and "distinct (map ce_chunk_id cs)"
    and "\<forall>c \<in> set cs. get_chunk (st_coord s) (ce_chunk_id c) = Some c \<and> chunk_resizable c"
  shows "\<exists>s'. efold (policy_chunk env plc pol exp_fn now) cs s = Inr s' \<and> node_table (st_coord s') = node_table (st_coord s) \<and>
    (\<forall>k. k \<notin> ce_chunk_id ` set cs \<longrightarrow> get_chunk (st_coord s') k = get_chunk (st_coord s) k \<and>
       access_state (st_policy s') k = access_state (st_policy s) k) \<and>
    (\<forall>c \<in> set cs. let (d, p) = evaluate pol exp_fn (now (ce_chunk_id c)) (ce_chunk_id c) (st_policy s) in
       access_state (st_policy s') (ce_chunk_id c) = access_state p (ce_chunk_id c) \<and>
       (\<exists>e'. get_chunk (st_coord s') (ce_chunk_id c) = Some e' \<and> (e' = c \<or> resized pol d c e')))"
  using assms
proof (induction cs arbitrary: s)
  case (Cons c cs)
  let ?id = "ce_chunk_id c"
  obtain d p where ev: "evaluate pol exp_fn (now ?id) ?id (st_policy s) = (d, p)" by fastforce
  obtain s1 where s1: "policy_chunk env plc pol exp_fn now c s = Inr s1" "st_policy s1 = p"
      "node_table (st_coord s1) = node_table (st_coord s)" "resizable env pol (st_coord s1)"
      "\<forall>k. k \<noteq> ?id \<longrightarrow> get_chunk (st_coord s1) k = get_chunk (st_coord s) k"
      "\<exists>e'. get_chunk (st_coord s1) ?id = Some e' \<and> (e' = c \<or> resized pol d c e')"
    using policy_chunk_step [where now = now, OF Cons.prems(1) _ _ ev, of plc] Cons.prems(3) by auto
  have acc: "access_state p k = access_state (st_policy s) k" if "k \<noteq> ?id" for k
    using evaluate_hysteresis [OF ev] that by blast
  have ne: "ce_chunk_id x \<noteq> ?id" if "x \<in> set cs" for x using Cons.prems(2) that by (metis distinct.simps(2) image_eqI list.simps(9) set_map)
  obtain s' where s': "efold (policy_chunk env plc pol exp_fn now) cs s1 = Inr s'" "node_table (st_coord s') = node_table (st_coord s1)"
      "\<forall>k. k \<notin> ce_chunk_id ` set cs \<longrightarrow> get_chunk (st_coord s') k = get_chunk (st_coord s1) k \<and>
         access_state (st_policy s') k = access_state (st_policy s1) k"
      "\<forall>x \<in> set cs. let (d, p) = evaluate pol exp_fn (now (ce_chunk_id x)) (ce_chunk_id x) (st_policy s1) in
         access_state (st_policy s') (ce_chunk_id x) = access_state p (ce_chunk_id x) \<and>
         (\<exists>e'. get_chunk (st_coord s') (ce_chunk_id x) = Some e' \<and> (e' = x \<or> resized pol d x e'))"
    using Cons.IH [OF s1(4)] Cons.prems(2,3) s1(5) ne by auto
  have rest: "let (d, p) = evaluate pol exp_fn (now (ce_chunk_id x)) (ce_chunk_id x) (st_policy s) in
       access_state (st_policy s') (ce_chunk_id x) = access_state p (ce_chunk_id x) \<and>
       (\<exists>e'. get_chunk (st_coord s') (ce_chunk_id x) = Some e' \<and> (e' = x \<or> resized pol d x e'))" if x: "x \<in> set cs" for x
    using bspec [OF s'(4) x] evaluate_cong [of "st_policy s1" "ce_chunk_id x" "st_policy s" pol exp_fn "now (ce_chunk_id x)"]
      acc [OF ne [OF x]] s1(2) by (simp add: case_prod_unfold Let_def)
  have nin: "?id \<notin> ce_chunk_id ` set cs" using Cons.prems(2) by simp
  have first: "let (d, p) = evaluate pol exp_fn (now ?id) ?id (st_policy s) in
       access_state (st_policy s') ?id = access_state p ?id \<and>
       (\<exists>e'. get_chunk (st_coord s') ?id = Some e' \<and> (e' = c \<or> resized pol d c e'))"
    using s'(3) nin s1(2,6) ev by simp
  show ?case
    using s1(1,3,5) s'(1-3) rest first acc s1(2) by (intro exI [of _ s']) auto
qed simp

section \<open>Decisions that are lost\<close>

lemma hysteresis_tier:
  "fst (hysteresis cfg d s) \<Longrightarrow> tier (snd (hysteresis cfg d s)) = d"
  "tier s = d \<Longrightarrow> \<not> fst (hysteresis cfg d s) \<and> tier (snd (hysteresis cfg d s)) = d"
  by (auto simp: hysteresis_def Let_def split: if_splits)

text \<open>A chunk without accesses whose tier is COLD is left alone by every pass.\<close>

lemma cold_idle_chunk:
  assumes thr: "0 < cold_threshold pol" "0 \<le> hot_threshold pol"
    and idle: "pending_count (access_state (st_policy s) (ce_chunk_id c)) = 0" "tier (access_state (st_policy s) (ce_chunk_id c)) = COLD"
  shows "\<exists>p. policy_chunk env plc pol exp_fn now c s = Inr (s\<lparr>st_policy := p\<rparr>) \<and>
    pending_count (access_state p (ce_chunk_id c)) = 0 \<and> tier (access_state p (ce_chunk_id c)) = COLD"
proof -
  let ?id = "ce_chunk_id c"
  obtain d p where ev: "evaluate pol exp_fn (now ?id) ?id (st_policy s) = (d, p)" by fastforce
  have "pd_new_tier d = COLD" using evaluate_idle [OF ev thr idle(1)] .
  then obtain s1 where s1: "hysteresis pol COLD s1 = (pd_changed d, access_state p ?id)" "tier s1 = COLD" "pending_count s1 = 0"
    using evaluate_hysteresis [OF ev] idle(2) by auto
  then have "\<not> pd_changed d" "pending_count (access_state p ?id) = 0" "tier (access_state p ?id) = COLD"
    using hysteresis_tier(2) [of s1 COLD pol] hysteresis_fields(1) [of pol COLD s1] by simp_all
  then show ?thesis using ev by (intro exI [of _ p]) (simp add: policy_chunk_def Let_def)
qed

lemma cold_idle_passes:
  assumes thr: "0 < cold_threshold pol" "0 \<le> hot_threshold pol"
    and "pending_count (access_state (st_policy s) (ce_chunk_id c)) = 0" "tier (access_state (st_policy s) (ce_chunk_id c)) = COLD"
  shows "\<exists>p. efold (\<lambda>(env, now). policy_chunk env plc pol exp_fn now c) passes s = Inr (s\<lparr>st_policy := p\<rparr>)"
  using assms(3,4)
proof (induction passes arbitrary: s)
  case Nil
  show ?case by (intro exI [of _ "st_policy s"]) simp
next
  case (Cons q passes)
  obtain env now where q: "q = (env, now)" by fastforce
  obtain p where p: "policy_chunk env plc pol exp_fn now c s = Inr (s\<lparr>st_policy := p\<rparr>)"
      "pending_count (access_state p (ce_chunk_id c)) = 0" "tier (access_state p (ce_chunk_id c)) = COLD"
    using cold_idle_chunk [OF thr Cons.prems] by blast
  then show ?case using Cons.IH [of "s\<lparr>st_policy := p\<rparr>"] q by auto
qed

lemma reconfig_no_quorum:
  "(\<And>ty pl. outcome ty pl = None) \<Longrightarrow>
    reconfig R ord cfg shuffle up outcome clk cid n inc exc (coord, nodes) = Inr (False, coord, nodes)"
  by (simp add: reconfig_def logged_write_def Let_def split: option.split)

section \<open>Properties\<close>

text \<open>
  The command line carries a configuration: the options written out for it, in any run without
  empty obligatory values and with peers that are not empty and contain no comma, are read back as it.
\<close>

theorem server_config_roundtrip:
  assumes "cfg_role cfg \<noteq> []" "cfg_address cfg \<noteq> []" "cfg_data_dir cfg \<noteq> []"
    and "list_all (\<lambda>p. p \<noteq> [] \<and> CHR '','' \<notin> set p) (cfg_peers cfg)"
  shows "meta_server_config (config_args cfg) = Inr (default_node_config\<lparr>cfg_role := cfg_role cfg, cfg_node_id := cfg_node_id cfg,
    cfg_address := cfg_address cfg, cfg_data_dir := cfg_data_dir cfg, cfg_mode := cfg_mode cfg, cfg_peers := cfg_peers cfg\<rparr>)"
proof -
  have "split_nonempty (join_csv (cfg_peers cfg)) CHR '','' = cfg_peers cfg"
    using assms(4) by (simp add: split_nonempty_join list_all_iff)
  then show ?thesis using assms(1-3) by (simp add: meta_server_config_def config_args_def default_node_config_def)
qed

theorem server_config_roundtrip_witness:
  "meta_server_config [''--role'', ''leader'', ''--id'', ''m1'', ''--listen'', ''h:1'', ''--data'', ''d'', ''--mode'', ''baseline'',
     ''--peers'', ''h:2,h:3,''] =
   Inr (default_node_config\<lparr>cfg_role := ''leader'', cfg_node_id := ''m1'', cfg_address := ''h:1'', cfg_data_dir := ''d'',
     cfg_mode := ''baseline'', cfg_peers := [''h:2'', ''h:3'']\<rparr>)"
  using server_config_roundtrip [of "default_node_config\<lparr>cfg_role := ''leader'', cfg_node_id := ''m1'', cfg_address := ''h:1'',
     cfg_data_dir := ''d'', cfg_mode := ''baseline'', cfg_peers := [''h:2'', ''h:3'']\<rparr>"]
  by (simp add: config_args_def default_node_config_def)



text \<open>
  The decision to shrink an idle chunk is lost when the log has no quorum at that moment: the policy
  has changed the tier already, so no later pass asks again, whatever the state of the cluster then, and
  the chunk keeps its old factor as long as it stays idle.
\<close>

theorem failed_demotion_not_retried:
  assumes thr: "0 < cold_threshold pol" "0 \<le> hot_threshold pol"
    and ev: "evaluate pol exp_fn (now (ce_chunk_id c)) (ce_chunk_id c) (st_policy s) = (d, p)" "pd_changed d" "pd_new_tier d = COLD"
    and out: "\<forall>ty pl. env_outcome env ty pl = None"
  shows "\<exists>s'. efold (\<lambda>(env, now). policy_chunk env plc pol exp_fn now c) ((env, now) # passes) s = Inr s' \<and>
    st_coord s' = st_coord s \<and> st_nodes s' = st_nodes s"
proof -
  let ?id = "ce_chunk_id c"
  have "policy_chunk env plc pol exp_fn now c s = Inr (s\<lparr>st_policy := p\<rparr>)"
    using ev(1) out by (simp add: policy_chunk_def reconfig_no_quorum Let_def)
  moreover obtain s1 where "hysteresis pol COLD s1 = (True, access_state p ?id)" "pending_count s1 = 0"
    using evaluate_hysteresis [OF ev(1)] ev(2,3) by auto
  then have "pending_count (access_state p ?id) = 0" "tier (access_state p ?id) = COLD"
    using hysteresis_tier(1) [of pol COLD s1] hysteresis_fields(1) [of pol COLD s1] by simp_all
  then obtain p' where "efold (\<lambda>(env, now). policy_chunk env plc pol exp_fn now c) passes (s\<lparr>st_policy := p\<rparr>) =
      Inr (s\<lparr>st_policy := p'\<rparr>)"
    using cold_idle_passes [OF thr, of "s\<lparr>st_policy := p\<rparr>" c plc exp_fn passes] by auto
  ultimately show ?thesis by (intro exI [of _ "s\<lparr>st_policy := p'\<rparr>"]) simp
qed

theorem failed_demotion_not_retried_witness:
  "\<exists>s'. efold (\<lambda>(env, now). policy_chunk env default_placement_config eager_config (\<lambda>x. x) now (demo_chunk\<lparr>ce_replication_factor := 3\<rparr>))
       [(demo_env False, \<lambda>_. 5), (demo_env True, \<lambda>_. 2000), (demo_env True, \<lambda>_. 4000)] demo_change = Inr s' \<and>
     st_coord s' = st_coord demo_change \<and> (3 :: int) \<noteq> rf_for_tier eager_config COLD"
proof -
  let ?c = "demo_chunk\<lparr>ce_replication_factor := 3\<rparr>"
  have id: "ce_chunk_id ?c = ''c''" by (simp add: demo_chunk_def)
  obtain d p where ev: "evaluate eager_config (\<lambda>x. x) 5 (ce_chunk_id ?c) (st_policy demo_change) = (d, p)" "pd_changed d" "pd_new_tier d = COLD"
    using demo_evaluate id by (auto simp: demo_change_def)
  show ?thesis
    using failed_demotion_not_retried [where now = "\<lambda>_. 5" and env = "demo_env False" and plc = default_placement_config
        and passes = "[(demo_env True, \<lambda>_. 2000), (demo_env True, \<lambda>_. 4000)]", OF _ _ ev]
    by (auto simp: demo_env_def)
qed

end
