(* ===== verification/Meta_Snapshot.thy ===== *)
theory Meta_Snapshot
  imports Meta_Wal Meta_Coordinator
begin

text \<open>
  Snapshots of the metadata tables, \<^verbatim>\<open>src/meta/meta_snapshot.{h,cpp}\<close>: a header, then
  length-prefixed text records for the nodes and for the chunks. Installing what was taken gives
  back the chunk table exactly and the node table up to the six-digit text of its fractions and
  its liveness flags. Running out of memory in \<^verbatim>\<open>reserve\<close> is not modelled.
\<close>

section \<open>Length-prefixed strings\<close>

definition write_lp :: "string \<Rightarrow> string \<Rightarrow> string" where
  "write_lp out data = out @ be32 (word_of_nat (length data)) @ data"

definition read_lp :: "string \<Rightarrow> nat \<Rightarrow> cxx_exc + string \<times> nat" where
  "read_lp buf offset =
     (if length buf < offset + 4 then Inl (Runtime_error ''snapshot truncated (len)'')
      else ebind (read_be32 (drop offset buf)) (\<lambda>len.
        let offset1 = offset + 4 in
        if length buf < offset1 + unat len then Inl (Runtime_error ''snapshot truncated (data)'')
        else Inr (take (unat len) (drop offset1 buf), offset1 + unat len)))"

section \<open>Records as text\<close>

fun int_of_state :: "chunk_config_state \<Rightarrow> int" where
  "int_of_state STABLE = 0"
| "int_of_state TRANSITIONING = 1"
| "int_of_state (UNNAMED_STATE i) = i"

definition state_of_int :: "int \<Rightarrow> chunk_config_state" where
  "state_of_int i = (if i = 0 then STABLE else if i = 1 then TRANSITIONING else UNNAMED_STATE i)"

definition serialize_chunk :: "chunk_entry \<Rightarrow> string" where
  "serialize_chunk e = ce_chunk_id e @ '';'' @ to_string_u64 (ce_version e) @ '';'' @
     to_string_int (ce_replication_factor e) @ '';'' @ to_string_u64 (ce_size_bytes e) @ '';'' @
     to_string_int (int_of_state (ce_config_state e)) @ '';'' @ join_csv (ce_replica_set e) @ '';'' @
     join_csv (ce_old_replica_set e) @ '';''"

definition serialize_node :: "node_entry \<Rightarrow> string" where
  "serialize_node n = ne_node_id n @ '';'' @ ne_address n @ '';'' @ to_string_float (ne_load_fraction n) @ '';'' @
     to_string_u64 (ne_free_bytes n) @ '';'' @ to_string_u64 (ne_total_bytes n) @ '';'' @
     to_string_float (ne_failure_rate_7d n) @ '';'' @ to_string_u64 (ne_last_seen_ms n) @ '';'' @
     to_string_int (if ne_alive n then 1 else 0)"

definition parse_list :: "string \<Rightarrow> string list" where
  "parse_list csv = split_nonempty_loop CHR '','' [] [] csv"

text \<open>The readers of the records that nothing calls.\<close>

definition deserialize_chunk :: "string \<Rightarrow> cxx_exc + chunk_entry" where
  "deserialize_chunk s = (let p = split_all s CHR '';'' in
     if length p < 7 then Inl (Runtime_error ''invalid chunk snapshot entry'')
     else ebind (stoull (p ! 1)) (\<lambda>v. ebind (stoi (p ! 2)) (\<lambda>rf. ebind (stoull (p ! 3)) (\<lambda>sz.
          ebind (stoi (p ! 4)) (\<lambda>cs.
            Inr \<lparr>ce_chunk_id = p ! 0, ce_version = v, ce_replica_set = parse_list (p ! 5),
                 ce_replication_factor = rf, ce_config_state = (if cs = 0 then STABLE else TRANSITIONING),
                 ce_old_replica_set = parse_list (p ! 6), ce_size_bytes = sz\<rparr>)))))"

definition deserialize_node :: "string \<Rightarrow> cxx_exc + node_entry" where
  "deserialize_node s = (let p = split_all s CHR '';'' in
     if length p < 8 then Inl (Runtime_error ''invalid node snapshot entry'')
     else ebind (stof (p ! 2)) (\<lambda>l. ebind (stoull (p ! 3)) (\<lambda>fb. ebind (stoull (p ! 4)) (\<lambda>tb.
          ebind (stof (p ! 5)) (\<lambda>fr. ebind (stoull (p ! 6)) (\<lambda>seen. ebind (stoi (p ! 7)) (\<lambda>al.
            Inr \<lparr>ne_node_id = p ! 0, ne_address = p ! 1, ne_load_fraction = l, ne_free_bytes = fb,
                 ne_total_bytes = tb, ne_failure_rate_7d = fr, ne_last_seen_ms = seen, ne_alive = (al \<noteq> 0)\<rparr>)))))))"

fun split_csv_loop :: "string \<Rightarrow> string list \<Rightarrow> string \<Rightarrow> string list" where
  "split_csv_loop cur out [] = (if cur \<noteq> [] then out @ [cur] else out)"
| "split_csv_loop cur out (c # s) =
     (if c = CHR '','' then (if cur \<noteq> [] then split_csv_loop [] (out @ [cur]) s else split_csv_loop cur out s)
      else split_csv_loop (cur @ [c]) out s)"

definition split_csv :: "string \<Rightarrow> string list" where
  "split_csv s = split_csv_loop [] [] s"

text \<open>The field loop both parsers share: empty fields are kept, an empty rest is not.\<close>

fun fields_loop :: "string \<Rightarrow> string list \<Rightarrow> string \<Rightarrow> string list" where
  "fields_loop cur parts [] = (if cur \<noteq> [] then parts @ [cur] else parts)"
| "fields_loop cur parts (c # s) =
     (if c = CHR '';'' then fields_loop [] (parts @ [cur]) s else fields_loop (cur @ [c]) parts s)"

definition parse_node :: "string \<Rightarrow> cxx_exc + node_entry" where
  "parse_node s = (let parts = fields_loop [] [] s in
     if length parts < 7 then Inl (Runtime_error ''malformed node entry'')
     else ebind (stof (parts ! 2)) (\<lambda>l. ebind (stoull (parts ! 3)) (\<lambda>fb. ebind (stoull (parts ! 4)) (\<lambda>tb.
          ebind (stof (parts ! 5)) (\<lambda>fr. ebind (stoull (parts ! 6)) (\<lambda>seen.
            Inr \<lparr>ne_node_id = parts ! 0, ne_address = parts ! 1, ne_load_fraction = l, ne_free_bytes = fb,
                 ne_total_bytes = tb, ne_failure_rate_7d = fr, ne_last_seen_ms = seen, ne_alive = True\<rparr>))))))"

definition parse_chunk :: "string \<Rightarrow> cxx_exc + chunk_entry" where
  "parse_chunk s = (let parts = fields_loop [] [] s in
     if length parts < 7 then Inl (Runtime_error ''malformed chunk entry'')
     else ebind (stoull (parts ! 1)) (\<lambda>v. ebind (stoi (parts ! 2)) (\<lambda>rf. ebind (stoull (parts ! 3)) (\<lambda>sz.
          ebind (stoi (parts ! 4)) (\<lambda>cs.
            Inr \<lparr>ce_chunk_id = parts ! 0, ce_version = v, ce_replica_set = split_csv (parts ! 5),
                 ce_replication_factor = rf, ce_config_state = state_of_int cs,
                 ce_old_replica_set = split_csv (parts ! 6), ce_size_bytes = sz\<rparr>)))))"

section \<open>Taking and installing\<close>

definition SNAPSHOT_MAGIC :: u32 where
  "SNAPSHOT_MAGIC = 0x4E4D5653"

definition take_snapshot :: "(node_entry list \<Rightarrow> node_entry list) \<Rightarrow> (chunk_entry list \<Rightarrow> chunk_entry list) \<Rightarrow>
     'db wal \<Rightarrow> coordinator \<Rightarrow> string \<times> u64" where
  "take_snapshot ordn ordc w coord =
     (let lsn = committed w;
          nodes = get_nodes ordn coord;
          chunks = get_chunks ordc coord;
          buf = be32 SNAPSHOT_MAGIC @ be64 lsn @ be32 (word_of_nat (length nodes));
          buf1 = fold (\<lambda>n out. write_lp out (serialize_node n)) nodes buf;
          buf2 = fold (\<lambda>e out. write_lp out (serialize_chunk e)) chunks (buf1 @ be32 (word_of_nat (length chunks)))
      in (buf2, lsn))"

text \<open>The two reading loops: \<open>k\<close> records from an offset on.\<close>

fun read_records :: "(string \<Rightarrow> cxx_exc + 'a) \<Rightarrow> string \<Rightarrow> nat \<Rightarrow> nat \<Rightarrow> 'a list \<Rightarrow> cxx_exc + 'a list \<times> nat" where
  "read_records parse buf 0 offset acc = Inr (acc, offset)"
| "read_records parse buf (Suc k) offset acc =
     ebind (read_lp buf offset) (\<lambda>(entry, offset1).
     ebind (parse entry) (\<lambda>x. read_records parse buf k offset1 (acc @ [x])))"

text \<open>
  The second count is copied out of the buffer without a check; the byte after the last one is the
  string's terminator and may be read, what is beyond may not.
\<close>

definition install_snapshot :: "string \<Rightarrow> coordinator \<Rightarrow> cxx_exc + u64 \<times> coordinator" where
  "install_snapshot snapshot_data coord =
     (let buf = snapshot_data; len = length snapshot_data in
      if len < 16 then Inl (Runtime_error ''snapshot too small'')
      else ebind (read_be32 buf) (\<lambda>magic.
        if magic \<noteq> SNAPSHOT_MAGIC then Inl (Runtime_error ''snapshot magic mismatch'')
        else ebind (read_be64 (drop 4 buf)) (\<lambda>lsn.
             ebind (read_be32 (drop 12 buf)) (\<lambda>node_count.
             ebind (read_records parse_node buf (unat node_count) 16 []) (\<lambda>(nodes, off).
             ebind (read_be32 (drop off (buf @ [CHR 0x00]))) (\<lambda>chunk_count.
             ebind (read_records parse_chunk buf (unat chunk_count) (off + 4) []) (\<lambda>(chunks, _).
               Inr (lsn, restore_snapshot nodes chunks coord))))))))"

section \<open>Reading back records\<close>

lemma split_csv_eq: "split_csv s = split_nonempty s CHR '',''"
proof -
  have "split_csv_loop cur out s = split_nonempty_loop CHR '','' cur out s" for cur out
    by (induction s arbitrary: cur out) auto
  then show ?thesis by (simp add: split_csv_def split_nonempty_def)
qed

lemma state_of_int_of_state [simp]:
  "st = STABLE \<or> st = TRANSITIONING \<Longrightarrow> state_of_int (int_of_state st) = st"
  by (auto simp: state_of_int_def)

lemma fields_loop_out: "fields_loop cur parts s = parts @ fields_loop cur [] s"
proof (induction s arbitrary: cur parts)
  case (Cons c s)
  show ?case
    using Cons.IH [of "[]" "parts @ [cur]"] Cons.IH [of "[]" "[cur]"] Cons.IH [of "cur @ [c]" parts] by simp
qed simp

lemma fields_loop_field:
  "CHR '';'' \<notin> set x \<Longrightarrow> fields_loop cur [] (x @ CHR '';'' # s) = (cur @ x) # fields_loop [] [] s"
proof (induction x arbitrary: cur)
  case Nil
  then show ?case using fields_loop_out [of "[]" "[cur]" s] by simp
qed auto

lemma fields_loop_last:
  "CHR '';'' \<notin> set x \<Longrightarrow> fields_loop cur [] x = (if cur @ x = [] then [] else [cur @ x])"
  by (induction x arbitrary: cur) auto

text \<open>Texts the records can carry.\<close>

definition field_ok :: "string \<Rightarrow> bool" where
  "field_ok s \<longleftrightarrow> CHR '';'' \<notin> set s"

definition member_ok :: "string \<Rightarrow> bool" where
  "member_ok s \<longleftrightarrow> s \<noteq> [] \<and> CHR '';'' \<notin> set s \<and> CHR '','' \<notin> set s"

definition node_snap_ok :: "node_entry \<Rightarrow> bool" where
  "node_snap_ok n \<longleftrightarrow> field_ok (ne_node_id n) \<and> field_ok (ne_address n) \<and>
     \<bar>ne_load_fraction n\<bar> \<le> pow2 126 \<and> \<bar>ne_failure_rate_7d n\<bar> \<le> pow2 126 \<and> length (serialize_node n) < 2 ^ 32"

definition chunk_snap_ok :: "chunk_entry \<Rightarrow> bool" where
  "chunk_snap_ok e \<longleftrightarrow> field_ok (ce_chunk_id e) \<and> int32 (ce_replication_factor e) \<and>
     (ce_config_state e = STABLE \<or> ce_config_state e = TRANSITIONING) \<and>
     list_all member_ok (ce_replica_set e) \<and> list_all member_ok (ce_old_replica_set e) \<and>
     length (serialize_chunk e) < 2 ^ 32"

text \<open>What a node record keeps of the node.\<close>

definition snap_node :: "node_entry \<Rightarrow> node_entry" where
  "snap_node n = n\<lparr>ne_load_fraction := fl32 (round6 (ne_load_fraction n)),
     ne_failure_rate_7d := fl32 (round6 (ne_failure_rate_7d n)), ne_alive := True\<rparr>"

lemma parse_serialize_node: "node_snap_ok n \<Longrightarrow> parse_node (serialize_node n) = Inr (snap_node n)"
  by (simp add: parse_node_def serialize_node_def node_snap_ok_def field_ok_def fields_loop_field
      fields_loop_last stof_to_string snap_node_def)

lemma member_list:
  assumes "list_all member_ok xs"
  shows "CHR '';'' \<notin> set (join_csv xs)" "split_csv (join_csv xs) = xs"
proof -
  show "CHR '';'' \<notin> set (join_csv xs)"
    using assms by (intro join_csv_no_char) (auto simp: list_all_iff member_ok_def)
  show "split_csv (join_csv xs) = xs"
    using assms by (simp add: split_csv_eq list_all_iff member_ok_def split_nonempty_join)
qed

lemma int32_state: "st = STABLE \<or> st = TRANSITIONING \<Longrightarrow> int32 (int_of_state st)"
  by (auto simp: int32_def)

lemma parse_serialize_chunk: "chunk_snap_ok e \<Longrightarrow> parse_chunk (serialize_chunk e) = Inr e"
proof -
  assume "chunk_snap_ok e"
  then have ok: "field_ok (ce_chunk_id e)" "int32 (ce_replication_factor e)"
      "ce_config_state e = STABLE \<or> ce_config_state e = TRANSITIONING"
      "list_all member_ok (ce_replica_set e)" "list_all member_ok (ce_old_replica_set e)"
    by (simp_all add: chunk_snap_ok_def)
  have "fields_loop [] [] (serialize_chunk e) = [ce_chunk_id e, to_string_u64 (ce_version e),
      to_string_int (ce_replication_factor e), to_string_u64 (ce_size_bytes e),
      to_string_int (int_of_state (ce_config_state e)), join_csv (ce_replica_set e), join_csv (ce_old_replica_set e)]"
    using ok(1) member_list(1) [OF ok(4)] member_list(1) [OF ok(5)]
    by (simp add: serialize_chunk_def field_ok_def fields_loop_field)
  then show ?thesis
    using ok(2,3) member_list(2) [OF ok(4)] member_list(2) [OF ok(5)] int32_state [OF ok(3)]
    by (simp add: parse_chunk_def stoi_to_string)
qed

section \<open>Reading back a snapshot\<close>

abbreviation lp :: "string \<Rightarrow> string" where
  "lp s \<equiv> be32 (word_of_nat (length s)) @ s"

lemma fold_write_lp: "fold (\<lambda>x out. write_lp out (f x)) xs buf = buf @ concat (map (\<lambda>x. lp (f x)) xs)"
  by (induction xs arbitrary: buf) (simp_all add: write_lp_def)

lemma read_lp_lp:
  assumes "length d < 2 ^ 32"
  shows "read_lp (pre @ lp d @ post) (length pre) = Inr (d, length pre + 4 + length d)"
proof -
  have "unat (word_of_nat (length d) :: u32) = length d" using assms by (rule unat_u32_of_nat)
  then show ?thesis by (simp add: read_lp_def)
qed

lemma read_records_ok:
  assumes "\<And>x. x \<in> set xs \<Longrightarrow> parse (f x) = Inr (g x) \<and> length (f x) < 2 ^ 32"
  shows "read_records parse (pre @ concat (map (\<lambda>x. lp (f x)) xs) @ post) (length xs) (length pre) acc =
    Inr (acc @ map g xs, length pre + length (concat (map (\<lambda>x. lp (f x)) xs)))"
  using assms
proof (induction xs arbitrary: pre acc)
  case (Cons x xs)
  have x: "parse (f x) = Inr (g x)" "length (f x) < 2 ^ 32" using Cons.prems by simp_all
  have "read_lp (pre @ lp (f x) @ concat (map (\<lambda>x. lp (f x)) xs) @ post) (length pre) =
      Inr (f x, length pre + 4 + length (f x))"
    using read_lp_lp [OF x(2), of pre "concat (map (\<lambda>x. lp (f x)) xs) @ post"] by simp
  moreover have "read_records parse ((pre @ lp (f x)) @ concat (map (\<lambda>x. lp (f x)) xs) @ post) (length xs)
      (length (pre @ lp (f x))) (acc @ [g x]) =
    Inr ((acc @ [g x]) @ map g xs, length (pre @ lp (f x)) + length (concat (map (\<lambda>x. lp (f x)) xs)))"
    using Cons.prems by (intro Cons.IH) simp
  ultimately show ?case using x(1) by (simp add: add.assoc)
qed simp

lemma drop_prefix: "length p = n \<Longrightarrow> drop n (p @ q) = q"
  by simp

text \<open>The layout of a snapshot and what the installer reads from it.\<close>

lemma install_layout:
  assumes nodes: "\<And>n. n \<in> set ns \<Longrightarrow> node_snap_ok n" and chunks: "\<And>e. e \<in> set es \<Longrightarrow> chunk_snap_ok e"
    and len: "length ns < 2 ^ 32" "length es < 2 ^ 32"
    and buf_def: "buf = be32 SNAPSHOT_MAGIC @ be64 lsn @ be32 (word_of_nat (length ns)) @
     concat (map (\<lambda>n. lp (serialize_node n)) ns) @ be32 (word_of_nat (length es)) @
     concat (map (\<lambda>e. lp (serialize_chunk e)) es)"
  shows "install_snapshot buf coord = Inr (lsn, restore_snapshot (map snap_node ns) es coord)"
proof -
  define N where "N = concat (map (\<lambda>n. lp (serialize_node n)) ns)"
  define C where "C = concat (map (\<lambda>e. lp (serialize_chunk e)) es)"
  define hd16 where "hd16 = be32 SNAPSHOT_MAGIC @ be64 lsn @ be32 (word_of_nat (length ns))"
  have buf: "buf = hd16 @ N @ be32 (word_of_nat (length es)) @ C"
    by (simp add: buf_def hd16_def N_def C_def)
  have l16: "length hd16 = 16" by (simp add: hd16_def)
  have r1: "read_records parse_node buf (length ns) 16 [] = Inr (map snap_node ns, 16 + length N)"
    using read_records_ok [of ns parse_node serialize_node snap_node hd16 "be32 (word_of_nat (length es)) @ C" "[]"]
      nodes parse_serialize_node unfolding buf N_def l16 by (simp add: node_snap_ok_def)
  have r2: "read_records parse_chunk buf (length es) (16 + length N + 4) [] =
      Inr (es, 16 + length N + 4 + length C)"
    using read_records_ok [of es parse_chunk serialize_chunk "\<lambda>e. e" "hd16 @ N @ be32 (word_of_nat (length es))" "[]" "[]"]
      chunks parse_serialize_chunk unfolding buf C_def by (simp add: chunk_snap_ok_def l16)
  have rc: "read_be32 (drop (16 + length N) (buf @ [CHR 0x00])) = Inr (word_of_nat (length es))"
    unfolding buf using drop_prefix [of "hd16 @ N" "16 + length N"] l16 by simp
  have rh: "read_be32 buf = Inr SNAPSHOT_MAGIC" "read_be64 (drop 4 buf) = Inr lsn"
      "read_be32 (drop 12 buf) = Inr (word_of_nat (length ns))"
    by (simp_all add: buf_def)
  have "16 \<le> length buf" using l16 by (simp add: buf)
  then show ?thesis
    using rh r1 r2 rc unat_u32_of_nat [OF len(1)] unat_u32_of_nat [OF len(2)]
    by (simp add: install_snapshot_def Let_def del: of_nat_Suc)
qed

lemma take_snapshot_layout:
  "take_snapshot ordn ordc w coord = (be32 SNAPSHOT_MAGIC @ be64 (committed w) @
     be32 (word_of_nat (length (get_nodes ordn coord))) @
     concat (map (\<lambda>n. lp (serialize_node n)) (get_nodes ordn coord)) @
     be32 (word_of_nat (length (get_chunks ordc coord))) @
     concat (map (\<lambda>e. lp (serialize_chunk e)) (get_chunks ordc coord)), committed w)"
  by (simp add: take_snapshot_def Let_def fold_write_lp)

lemma restore_map_values:
  assumes ord: "visits_all ord" and wf: "um_wf m" and key: "\<And>k v. um_find m k = Some v \<Longrightarrow> f v = k"
    and h: "\<And>v. f (h v) = f v"
  shows "um_find (fold (\<lambda>e. um_assign (f e) e) (map h (ord (um_values m))) []) k = map_option h (um_find m k)"
proof -
  define es where "es = ord (um_values m)"
  have d: "distinct (map f es)"
    using um_values_ids [OF wf key] wf ord by (simp add: es_def visits_all_simps um_wf_def)
  have "um_find (fold (\<lambda>e. um_assign (f e) e) es []) k = um_find m k"
    unfolding es_def by (rule restore_values [OF ord wf key])
  then have fnd: "List.find (\<lambda>e. f e = k) es = um_find m k" using fold_assign_find_distinct [OF d] by simp
  have "List.find (\<lambda>e. f e = k) (map h xs) = map_option h (List.find (\<lambda>e. f e = k) xs)" for xs
    by (induction xs) (simp_all add: h)
  moreover have "distinct (map f (map h es))" using d h by (simp add: comp_def)
  ultimately show ?thesis
    using fold_assign_find_distinct [of f "map h es" k] fnd by (simp add: es_def)
qed

lemma snapshot_restores:
  assumes inv: "coord_inv c" and ord: "visits_all ordn" "visits_all ordc"
    and nodes: "\<forall>n \<in> set (um_values (node_table c)). node_snap_ok n"
    and chunks: "\<forall>e \<in> set (um_values (chunk_table c)). chunk_snap_ok e"
    and len: "length (node_table c) < 2 ^ 32" "length (chunk_table c) < 2 ^ 32"
  shows "\<exists>c'. install_snapshot (fst (take_snapshot ordn ordc w c)) c0 = Inr (committed w, c') \<and>
    (\<forall>k. get_chunk c' k = get_chunk c k) \<and>
    (\<forall>k. um_find (node_table c') k = map_option snap_node (um_find (node_table c) k))"
proof -
  define ns es where "ns = get_nodes ordn c" and "es = get_chunks ordc c"
  have ok: "\<And>n. n \<in> set ns \<Longrightarrow> node_snap_ok n" "\<And>e. e \<in> set es \<Longrightarrow> chunk_snap_ok e"
      "length ns < 2 ^ 32" "length es < 2 ^ 32"
    using nodes chunks len ord
    by (auto simp: ns_def es_def get_nodes_def get_chunks_def visits_all_simps um_values_def)
  have "install_snapshot (fst (take_snapshot ordn ordc w c)) c0 =
      Inr (committed w, restore_snapshot (map snap_node ns) es c0)"
    using install_layout [OF ok refl, of "committed w" c0] by (simp add: take_snapshot_layout ns_def es_def)
  moreover have "get_chunk (restore_snapshot (map snap_node ns) es c0) k = get_chunk c k" for k
    using restore_values [OF ord(2), of "chunk_table c" ce_chunk_id k] inv
    by (simp add: get_chunk_def restore_snapshot_def es_def get_chunks_def coord_inv_def)
  moreover have "um_find (node_table (restore_snapshot (map snap_node ns) es c0)) k =
      map_option snap_node (um_find (node_table c) k)" for k
    using restore_map_values [OF ord(1), of "node_table c" ne_node_id snap_node k] inv
    by (simp add: restore_snapshot_def ns_def get_nodes_def coord_inv_def snap_node_def)
  ultimately show ?thesis by blast
qed

section \<open>Properties\<close>

text \<open>
  C20. Installing a snapshot that was taken from well-formed tables succeeds, returns the log position
  it was taken at, gives back every chunk exactly, and every node with its fractions rounded to six
  decimals and marked alive.
\<close>

theorem snapshot_roundtrip:
  assumes inv: "coord_inv c" and ord: "visits_all ordn" "visits_all ordc"
    and nodes: "\<forall>n \<in> set (um_values (node_table c)). node_snap_ok n"
    and chunks: "\<forall>e \<in> set (um_values (chunk_table c)). chunk_snap_ok e"
    and len: "length (node_table c) < 2 ^ 32" "length (chunk_table c) < 2 ^ 32"
  shows "\<exists>c'. install_snapshot (fst (take_snapshot ordn ordc w c)) c0 = Inr (committed w, c') \<and>
    (\<forall>k. get_chunk c' k = get_chunk c k) \<and>
    (\<forall>k. um_find (node_table c') k = map_option snap_node (um_find (node_table c) k))"
  by (rule snapshot_restores [OF assms])

lemma demo_chunk_snap:
  "chunk_snap_ok \<lparr>ce_chunk_id = ''a'', ce_version = 1, ce_replica_set = [''n''], ce_replication_factor = 2,
     ce_config_state = STABLE, ce_old_replica_set = [], ce_size_bytes = 7\<rparr>"
proof -
  have "length (serialize_chunk \<lparr>ce_chunk_id = ''a'', ce_version = 1, ce_replica_set = [''n''], ce_replication_factor = 2,
     ce_config_state = STABLE, ce_old_replica_set = [], ce_size_bytes = 7\<rparr>) = 14" by code_simp
  then show ?thesis by (simp add: chunk_snap_ok_def field_ok_def member_ok_def int32_def)
qed

theorem snapshot_roundtrip_witness:
  "\<exists>c'. install_snapshot (fst (take_snapshot (\<lambda>xs. xs) rev \<lparr>wal_db = (), last_index = 4, committed = 3\<rparr>
       (apply_put_chunk ''a'' 7 2 [''n''] 1 empty_coordinator))) empty_coordinator = Inr (3, c') \<and>
     get_chunk c' ''a'' = Some \<lparr>ce_chunk_id = ''a'', ce_version = 1, ce_replica_set = [''n''], ce_replication_factor = 2,
       ce_config_state = STABLE, ce_old_replica_set = [], ce_size_bytes = 7\<rparr>"
  using snapshot_roundtrip [of "apply_put_chunk ''a'' 7 2 [''n''] 1 empty_coordinator" "\<lambda>xs. xs" rev
      "\<lparr>wal_db = (), last_index = 4, committed = 3\<rparr>" empty_coordinator] demo_chunk_snap
    coord_inv_put [OF coord_inv_empty, of "''a''" 7 2 "[''n'']" 1]
  by (auto simp: apply_put_chunk_def empty_coordinator_def um_values_def get_chunk_def)

text \<open>
  A node declared dead comes back alive from a snapshot: the installed record ignores the
  liveness flag it was written with, while the reader that nothing calls would keep it.
\<close>

theorem snapshot_revives_dead_node:
  assumes "node_snap_ok n" and "\<not> ne_alive n"
  shows "\<exists>n1 n2. parse_node (serialize_node n) = Inr n1 \<and> ne_alive n1 \<and>
    deserialize_node (serialize_node n) = Inr n2 \<and> \<not> ne_alive n2"
proof -
  have "split_all (serialize_node n) CHR '';'' = [ne_node_id n, ne_address n, to_string_float (ne_load_fraction n),
      to_string_u64 (ne_free_bytes n), to_string_u64 (ne_total_bytes n), to_string_float (ne_failure_rate_7d n),
      to_string_u64 (ne_last_seen_ms n), to_string_int 0]"
    using assms by (simp add: serialize_node_def node_snap_ok_def field_ok_def split_all_field split_all_last)
  then show ?thesis
    using assms parse_serialize_node [OF assms(1)]
    by (simp add: deserialize_node_def node_snap_ok_def stof_to_string stoi_to_string int32_def snap_node_def)
qed

theorem snapshot_revives_dead_node_witness:
  "\<exists>n1 n2. parse_node (serialize_node \<lparr>ne_node_id = ''n1'', ne_address = ''h:1'', ne_load_fraction = 0, ne_free_bytes = 1,
      ne_total_bytes = 2, ne_failure_rate_7d = 0, ne_last_seen_ms = 3, ne_alive = False\<rparr>) = Inr n1 \<and> ne_alive n1 \<and>
    deserialize_node (serialize_node \<lparr>ne_node_id = ''n1'', ne_address = ''h:1'', ne_load_fraction = 0, ne_free_bytes = 1,
      ne_total_bytes = 2, ne_failure_rate_7d = 0, ne_last_seen_ms = 3, ne_alive = False\<rparr>) = Inr n2 \<and> \<not> ne_alive n2"
proof (rule snapshot_revives_dead_node)
  have "length (to_string_float 0) = 8" by code_simp
  moreover have "length (to_string_u64 1) = 1" "length (to_string_u64 2) = 1" "length (to_string_u64 3) = 1"
    "length (to_string_int 0) = 1" by code_simp+
  ultimately show "node_snap_ok \<lparr>ne_node_id = ''n1'', ne_address = ''h:1'', ne_load_fraction = 0, ne_free_bytes = 1,
      ne_total_bytes = 2, ne_failure_rate_7d = 0, ne_last_seen_ms = 3, ne_alive = False\<rparr>"
    by (simp add: node_snap_ok_def field_ok_def serialize_node_def less_imp_le)
qed simp

text \<open>
  A snapshot of sixteen bytes passes the size check and is then read beyond its end: the count of
  chunks is fetched without a check of its own.
\<close>

theorem install_snapshot_overread:
  "install_snapshot (be32 SNAPSHOT_MAGIC @ be64 lsn @ be32 0) coord = Inl Out_of_bounds"
  by (simp add: install_snapshot_def read_be32_def [of "[CHR 0x00]"])

end
