(* ===== verification/Meta_Bootstrap.thy ===== *)
theory Meta_Bootstrap
  imports Meta_Follower Meta_Snapshot
begin

text \<open>
  How a follower that starts gets its state from the leader: the streaming handlers
  \<^verbatim>\<open>InstallSnapshot\<close> and \<^verbatim>\<open>FetchLogEntries\<close> of \<^verbatim>\<open>src/meta/meta_rpc.cpp\<close> and
  \<^verbatim>\<open>bootstrap_follower_from_leader\<close> of \<^verbatim>\<open>src/bin/meta_server.cpp\<close>. A stream that breaks
  delivers some of its messages and ends with a status that is not OK (\<open>brk\<close>).
\<close>

section \<open>The leader's side\<close>

record snapshot_chunk =
  sc_data :: string
  sc_is_last_chunk :: bool
  sc_snapshot_lsn :: u64

text \<open>The loop of \<^verbatim>\<open>InstallSnapshot\<close> from offset \<open>sent\<close> on: pieces of at most 65536 bytes.\<close>

function snapshot_chunks :: "string \<Rightarrow> u64 \<Rightarrow> nat \<Rightarrow> snapshot_chunk list" where
  "snapshot_chunks data lsn sent =
     (if sent < length data
      then let n = min 65536 (length data - sent) in
           \<lparr>sc_data = take n (drop sent data), sc_is_last_chunk = length data \<le> sent + n, sc_snapshot_lsn = lsn\<rparr> #
           snapshot_chunks data lsn (sent + n)
      else [])"
  by pat_completeness auto
termination
  by (relation "measure (\<lambda>(data, lsn, sent). length data - sent)") auto

declare snapshot_chunks.simps [simp del]

definition InstallSnapshot :: "(node_entry list \<Rightarrow> node_entry list) \<Rightarrow> (chunk_entry list \<Rightarrow> chunk_entry list) \<Rightarrow>
     'db wal \<Rightarrow> coordinator \<Rightarrow> snapshot_chunk list" where
  "InstallSnapshot ordn ordc w coord = (let (data, lsn) = take_snapshot ordn ordc w coord in snapshot_chunks data lsn 0)"

text \<open>The loop of \<^verbatim>\<open>FetchLogEntries\<close>: the entries written, and the exception that ended it, if one did.\<close>

fun fetch_entries :: "'db rocksdb_ops \<Rightarrow> 'db wal \<Rightarrow> u64 list \<Rightarrow> wal_entry list \<times> cxx_exc option" where
  "fetch_entries R w [] = ([], None)"
| "fetch_entries R w (idx # idxs) = (case wal_read_entry R idx w of
     Inl x \<Rightarrow> ([], Some x)
   | Inr None \<Rightarrow> ([], None)
   | Inr (Some e) \<Rightarrow> (let (es, x) = fetch_entries R w idxs in (e # es, x)))"

definition FetchLogEntries :: "'db rocksdb_ops \<Rightarrow> bool \<Rightarrow> u64 \<Rightarrow> 'db wal \<Rightarrow> wal_entry list \<times> cxx_exc option" where
  "FetchLogEntries R has_repl from_index w =
     (let last = (if has_repl then last_index w else 0) in
      case u64_loop from_index last of
        Inl x \<Rightarrow> ([], Some x)
      | Inr idxs \<Rightarrow> fetch_entries R w idxs)"

section \<open>The follower's side\<close>

text \<open>The reading loop: data, position and whether anything was received.\<close>

fun read_snapshot :: "snapshot_chunk list \<Rightarrow> string \<Rightarrow> u64 \<Rightarrow> bool \<Rightarrow> string \<times> u64 \<times> bool" where
  "read_snapshot [] data lsn received = (data, lsn, received)"
| "read_snapshot (c # cs) data lsn received =
     (let data1 = data @ sc_data c; lsn1 = sc_snapshot_lsn c
      in if sc_is_last_chunk c then (data1, lsn1, True) else read_snapshot cs data1 lsn1 True)"

text \<open>The loop over the log entries: append, then commit at once; the first refusal ends it.\<close>

fun bootstrap_log :: "'db rocksdb_ops \<Rightarrow> (u64 \<Rightarrow> u64) \<Rightarrow> u64 \<Rightarrow> u64 \<Rightarrow> u64 \<Rightarrow> wal_entry list \<Rightarrow> 'db meta_node \<Rightarrow>
     (cxx_exc + unit) \<times> 'db meta_node" where
  "bootstrap_log R clk lsn prev_index prev_term [] nd = (Inr (), nd)"
| "bootstrap_log R clk lsn prev_index prev_term (e # es) nd =
     (case handle_append R (we_term e) prev_index prev_term (we_index e) (we_term e) (we_type e) (we_payload e) lsn (mn_follower nd) of
        (Inl x, f) \<Rightarrow> (Inl x, nd\<lparr>mn_follower := f\<rparr>)
      | (Inr False, f) \<Rightarrow> (Inr (), nd\<lparr>mn_follower := f\<rparr>)
      | (Inr True, f) \<Rightarrow>
          (case CommitEntry R clk (we_index e) (we_term e) (nd\<lparr>mn_follower := f\<rparr>) of
             (Inl x, nd1) \<Rightarrow> (Inl x, nd1)
           | (Inr _, nd1) \<Rightarrow> bootstrap_log R clk lsn (we_index e) (we_term e) es nd1))"

definition broken :: "nat option \<Rightarrow> 'a list \<Rightarrow> 'a list \<times> bool" where
  "broken brk ms = (case brk of None \<Rightarrow> (ms, True) | Some k \<Rightarrow> (take k ms, False))"

text \<open>
  \<open>leader\<close> is the log and the tables of the server at the first peer address, or \<open>None\<close> when it does
  not answer. The \<^verbatim>\<open>catch\<close> clause takes every exception of the standard library; an access outside
  the buffer is not one.
\<close>

definition bootstrap_follower_from_leader :: "'db rocksdb_ops \<Rightarrow> (u64 \<Rightarrow> u64) \<Rightarrow> (node_entry list \<Rightarrow> node_entry list) \<Rightarrow>
     (chunk_entry list \<Rightarrow> chunk_entry list) \<Rightarrow> string list \<Rightarrow> ('db wal \<times> coordinator) option \<Rightarrow> nat option \<Rightarrow> nat option \<Rightarrow>
     'db meta_node \<Rightarrow> (cxx_exc + bool) \<times> 'db meta_node" where
  "bootstrap_follower_from_leader R clk ordn ordc peers leader brk1 brk2 nd =
     (if peers = [] then (Inr False, nd)
      else case leader of
             None \<Rightarrow> (Inr False, nd)
           | Some (w, coord) \<Rightarrow>
               (let (chunks, ok) = broken brk1 (InstallSnapshot ordn ordc w coord);
                    (snapshot_data, _, received) = read_snapshot chunks [] 0 False
                in if \<not> ok \<or> \<not> received then (Inr False, nd)
                   else case install_snapshot snapshot_data (mn_coord nd) of
                          Inl Out_of_bounds \<Rightarrow> (Inl Out_of_bounds, nd)
                        | Inl _ \<Rightarrow> (Inr False, nd)
                        | Inr (lsn, coord1) \<Rightarrow>
                            (let nd1 = nd\<lparr>mn_coord := coord1, mn_follower := install_snapshot_lsn snapshot_data lsn (mn_follower nd)\<rparr>;
                                 (sent, x) = FetchLogEntries R True (lsn + 1) w;
                                 (entries, ok2) = broken brk2 sent
                             in case bootstrap_log R clk lsn lsn 0 entries nd1 of
                                  (Inl exc, nd2) \<Rightarrow> (Inl exc, nd2)
                                | (Inr _, nd2) \<Rightarrow> (Inr (ok2 \<and> x = None), nd2))))"

section \<open>The snapshot stream\<close>

lemma snapshot_chunks_read:
  assumes "sent < length data"
  shows "read_snapshot (snapshot_chunks data lsn sent) (take sent data) l r = (data, lsn, True)"
  using assms
proof (induction data lsn sent arbitrary: l r rule: snapshot_chunks.induct)
  case (1 data lsn sent)
  define n where "n = min 65536 (length data - sent)"
  have n: "0 < n" "sent + n \<le> length data" using "1.prems" by (auto simp: n_def)
  have eq: "snapshot_chunks data lsn sent =
      \<lparr>sc_data = take n (drop sent data), sc_is_last_chunk = length data \<le> sent + n, sc_snapshot_lsn = lsn\<rparr> #
      snapshot_chunks data lsn (sent + n)"
    using "1.prems" by (subst snapshot_chunks.simps) (simp add: n_def Let_def)
  have app: "take sent data @ take n (drop sent data) = take (sent + n) data" by (simp add: take_add)
  show ?case
  proof (cases "length data \<le> sent + n")
    case True
    then show ?thesis using app by (simp add: eq Let_def)
  next
    case False
    then have "read_snapshot (snapshot_chunks data lsn (sent + n)) (take (sent + n) data) lsn True = (data, lsn, True)"
      using "1.IH" [OF "1.prems" n_def] by simp
    then show ?thesis using False app by (simp add: eq Let_def)
  qed
qed

lemma install_stream_read:
  "read_snapshot (InstallSnapshot ordn ordc w coord) [] 0 False = (fst (take_snapshot ordn ordc w coord), committed w, True)"
  using snapshot_chunks_read [of 0 "fst (take_snapshot ordn ordc w coord)" "committed w" 0 False]
  by (simp add: InstallSnapshot_def take_snapshot_layout Let_def)

section \<open>Streaming the log\<close>

lemma fetch_entries_all:
  assumes "\<And>i. i \<in> set idxs \<Longrightarrow> wal_read_entry R i w = Inr (Some (f i))"
  shows "fetch_entries R w idxs = (map f idxs, None)"
  using assms by (induction idxs) auto

text \<open>The handler sends the entries from an index to the end, the uncommitted ones included.\<close>

lemma FetchLogEntries_rel:
  assumes rel: "wal_rel R w s" and n: "n \<le> length (spec_entries s)"
  shows "FetchLogEntries R True (word_of_nat (Suc n)) w = (drop n (spec_entries s), None)"
proof -
  let ?es = "spec_entries s"
  have len: "length ?es < 2 ^ 64 - 1" by (rule wal_relD(1) [OF rel])
  have lu: "unat (last_index w) = length ?es" by (rule wal_rel_last [OF rel])
  then have nm: "last_index w \<noteq> - 1" using len u64_not_max [of "last_index w"] by simp
  have nu: "unat (word_of_nat (Suc n) :: u64) = Suc n" using n len by (intro unat_u64_of_nat) simp
  have loop: "u64_loop (word_of_nat (Suc n)) (last_index w) = Inr (map word_of_nat [Suc n ..< Suc (length ?es)])"
    using nm nu lu by (simp add: u64_loop_def del: of_nat_Suc)
  have rd: "wal_read_entry R i w = Inr (Some (?es ! (unat i - 1)))" if i: "i \<in> set (map word_of_nat [Suc n ..< Suc (length ?es)])" for i
  proof -
    obtain m where m: "i = word_of_nat m" "m \<in> {Suc n ..< Suc (length ?es)}" using i unfolding set_map set_upt by blast
    then obtain j where j: "i = word_of_nat (Suc j)" "j < length ?es" by (cases m) auto
    then show ?thesis using wal_relD(5) [OF rel j(2)] len unat_u64_of_nat [of "Suc j"] by (simp del: of_nat_Suc)
  qed
  have "map (\<lambda>i. ?es ! (unat i - 1)) (map (word_of_nat :: nat \<Rightarrow> u64) [Suc n ..< Suc (length ?es)]) = drop n ?es"
  proof (rule nth_equalityI)
    fix k assume k: "k < length (map (\<lambda>i. ?es ! (unat i - 1)) (map (word_of_nat :: nat \<Rightarrow> u64) [Suc n ..< Suc (length ?es)]))"
    then have "n + k < length ?es" using n by (simp del: upt_Suc)
    then have "unat (word_of_nat (Suc (n + k)) :: u64) = Suc (n + k)" using len by (intro unat_u64_of_nat) linarith
    then show "map (\<lambda>i. ?es ! (unat i - 1)) (map (word_of_nat :: nat \<Rightarrow> u64) [Suc n ..< Suc (length ?es)]) ! k = drop n ?es ! k"
      using k n by (simp del: upt_Suc of_nat_Suc)
  qed (simp del: upt_Suc)
  then show ?thesis
    using fetch_entries_all [of "map word_of_nat [Suc n ..< Suc (length ?es)]", OF rd] loop
    by (simp add: FetchLogEntries_def Let_def del: upt_Suc of_nat_Suc)
qed

section \<open>Taking over the log\<close>

lemma read_entry_index: "wal_read_entry R i w = Inr (Some e) \<Longrightarrow> we_index e = i"
  by (auto simp: wal_read_entry_def decode_entry_def split: option.splits if_splits)

text \<open>Entries that leave a gap are refused, and the log stays as it is.\<close>

lemma bootstrap_log_gap:
  assumes "last_index (fo_wal (mn_follower nd)) = 0" and "es \<noteq> [] \<Longrightarrow> 1 < we_index (hd es)"
  shows "\<exists>nd'. bootstrap_log R clk lsn p pt es nd = (Inr (), nd') \<and> fo_wal (mn_follower nd') = fo_wal (mn_follower nd) \<and>
    mn_coord nd' = mn_coord nd"
proof (cases es)
  case (Cons e es')
  then have "1 < we_index e" using assms(2) by simp
  moreover from this have "\<not> we_index e \<le> 0" by (auto simp: word_le_nat_alt word_less_nat_alt)
  ultimately have "\<exists>f'. handle_append R (we_term e) p pt (we_index e) (we_term e) (we_type e) (we_payload e) lsn (mn_follower nd) = (Inr False, f') \<and>
      fo_wal f' = fo_wal (mn_follower nd)"
    using assms(1) by (auto simp: handle_append_def Let_def)
  then show ?thesis using Cons by auto
qed simp

context reliable_rocksdb
begin

lemma commit_follower:
  assumes "CommitEntry R clk i t nd = (Inr True, nd')"
  shows "fo_term (mn_follower nd') = fo_term (mn_follower nd) \<and>
    db_get R (wal_db (fo_wal (mn_follower nd'))) (wal_key 0) = db_get R (wal_db (fo_wal (mn_follower nd))) (wal_key 0)"
  using assms
  by (auto simp: CommitEntry_def handle_commit_def Let_def commit_get split: if_splits sum.splits prod.splits)

text \<open>Entries that continue the log are appended, committed and applied one by one.\<close>

lemma bootstrap_log_all:
  assumes "wal_rel R (fo_wal (mn_follower nd)) s" and "spec_entries s = cmd_entries 0 t taken"
    and "db_get R (wal_db (fo_wal (mn_follower nd))) (wal_key 0) = None" and "fo_term (mn_follower nd) \<le> t"
    and "length taken + length rest < 2 ^ 64 - 2" and "\<forall>cmd \<in> set (taken @ rest). cmd_ok cmd \<and> payload_ok (cmd_payload cmd)"
  shows "\<exists>nd' s'. bootstrap_log R clk lsn (word_of_nat (length taken)) pt (cmd_entries (length taken) t rest) nd = (Inr (), nd') \<and>
    wal_rel R (fo_wal (mn_follower nd')) s' \<and> spec_entries s' = cmd_entries 0 t (taken @ rest) \<and>
    (rest \<noteq> [] \<longrightarrow> spec_committed s' = length taken + length rest) \<and>
    mn_coord nd' = run_cmds clk (length taken) rest (mn_coord nd)"
  using assms
proof (induction rest arbitrary: taken nd s pt)
  case (Cons cmd rest)
  let ?n = "length taken" and ?f = "mn_follower nd"
  let ?e = "cmd_entry (word_of_nat (Suc ?n)) t cmd"
  have ok: "\<forall>c \<in> set (taken @ [cmd]). cmd_ok c" "payload_ok (cmd_payload cmd)" using Cons.prems(6) by auto
  have len: "length (spec_entries s) = ?n" using Cons.prems(2) by simp
  obtain r f' where ha: "handle_append R t (word_of_nat ?n) pt (word_of_nat (Suc ?n)) t (cmd_type cmd) (cmd_payload cmd) lsn ?f = (r, f')"
    by fastforce
  have room: "length (spec_entries s) < 2 ^ 64 - 2" using len Cons.prems(5) by simp
  obtain s1 where s1: "spec_handle_append (word_of_nat ?n) (word_of_nat (Suc ?n)) t (cmd_type cmd) (cmd_payload cmd) s = (r = Inr True, s1)"
      "wal_rel R (fo_wal f') s1" "fo_term f' = t" "db_get R (wal_db (fo_wal f')) (wal_key 0) = None"
    using handle_append_rel [OF Cons.prems(1,3) ok(2) type_ok_cmd room Cons.prems(4) ha] by blast
  have u: "unat (word_of_nat (Suc ?n) :: u64) = Suc ?n" "unat (word_of_nat ?n :: u64) = ?n"
    using Cons.prems(5) by (intro unat_u64_of_nat; simp)+
  then have nz: "(word_of_nat (Suc ?n) :: u64) \<noteq> 0" by (metis unat_0 nat.distinct(1))
  have r: "r = Inr True" "s1 = spec_append (cmd_type cmd) t (cmd_payload cmd) s"
    using s1(1) u nz len by (auto simp: spec_handle_append_def simp del: of_nat_Suc)
  have es1: "spec_entries s1 = cmd_entries 0 t (taken @ [cmd])"
    using r(2) Cons.prems(2) len by (simp add: spec_append_def cmd_entries_append cmd_entry_def del: of_nat_Suc)
  obtain nd1 where nd1: "CommitEntry R clk (word_of_nat (Suc ?n)) t (nd\<lparr>mn_follower := f'\<rparr>) = (Inr True, nd1)"
      "wal_rel R (fo_wal (mn_follower nd1)) (spec_commit (Suc ?n) s1)"
      "mn_coord nd1 = apply_cmd (clk (word_of_nat (Suc ?n))) cmd (mn_coord nd)"
    using commit_any_rel [of "nd\<lparr>mn_follower := f'\<rparr>" s1 t "taken @ [cmd]" ?n clk t] s1(2) es1 ok(1) by auto
  have f1: "fo_term (mn_follower nd1) = t" "db_get R (wal_db (fo_wal (mn_follower nd1))) (wal_key 0) = None"
    using commit_follower [OF nd1(1)] s1(3,4) by simp_all
  have run: "bootstrap_log R clk lsn (word_of_nat ?n) pt (cmd_entries ?n t (cmd # rest)) nd =
      bootstrap_log R clk lsn (word_of_nat (length (taken @ [cmd]))) t (cmd_entries (length (taken @ [cmd])) t rest) nd1"
    using ha r(1) nd1(1) by (simp add: cmd_entry_def del: of_nat_Suc)
  have es1': "spec_entries (spec_commit (Suc ?n) s1) = cmd_entries 0 t (taken @ [cmd])" using es1 by (simp add: spec_commit_def)
  have rest: "fo_term (mn_follower nd1) \<le> t" "length (taken @ [cmd]) + length rest < 2 ^ 64 - 2"
      "\<forall>c \<in> set ((taken @ [cmd]) @ rest). cmd_ok c \<and> payload_ok (cmd_payload c)"
    using f1(1) Cons.prems(5,6) by auto
  note IH = Cons.IH [OF nd1(2) es1' f1(2) rest, of t]
  obtain nd' s' where fin: "bootstrap_log R clk lsn (word_of_nat (length (taken @ [cmd]))) t (cmd_entries (length (taken @ [cmd])) t rest) nd1 = (Inr (), nd')"
      "wal_rel R (fo_wal (mn_follower nd')) s'" "spec_entries s' = cmd_entries 0 t ((taken @ [cmd]) @ rest)"
      "rest \<noteq> [] \<longrightarrow> spec_committed s' = length (taken @ [cmd]) + length rest"
      "mn_coord nd' = run_cmds clk (length (taken @ [cmd])) rest (mn_coord nd1)"
    using IH by blast
  have "spec_committed s' = Suc ?n" if "rest = []"
  proof -
    have "nd' = nd1" using fin(1) that by simp
    then show ?thesis
      using wal_rel_committed [OF nd1(2)] wal_rel_committed [OF fin(2)] wal_relD(2) [OF s1(2)] es1 by (simp add: spec_commit_def)
  qed
  then show ?case using fin nd1(3) run by (intro exI [of _ nd'] exI [of _ s']) auto
qed auto

end

section \<open>The whole exchange\<close>

text \<open>Tables that a snapshot can carry.\<close>

definition snapshot_ok :: "coordinator \<Rightarrow> bool" where
  "snapshot_ok c \<longleftrightarrow> coord_inv c \<and> list_all node_snap_ok (um_values (node_table c)) \<and>
     list_all chunk_snap_ok (um_values (chunk_table c)) \<and>
     length (node_table c) < 2 ^ 32 \<and> length (chunk_table c) < 2 ^ 32"

lemma snapshot_ok_empty: "snapshot_ok empty_coordinator"
  by (simp add: snapshot_ok_def coord_inv_empty) (simp add: empty_coordinator_def um_values_def)

lemma install_lsn_wal [simp]:
  "fo_wal (install_snapshot_lsn data lsn f) = fo_wal f" "fo_term (install_snapshot_lsn data lsn f) = fo_term f"
  by (simp_all add: install_snapshot_lsn_def)

text \<open>
  With streams that do not break, the exchange is the installation of the snapshot followed by the
  taking over of the entries after the leader's committed position.
\<close>

lemma bootstrap_course:
  assumes rel: "wal_rel R w s" and ok: "snapshot_ok c" and ord: "visits_all ordn" "visits_all ordc"
  shows "\<exists>c' nd1. (\<forall>k. get_chunk c' k = get_chunk c k) \<and>
    (\<forall>k. um_find (node_table c') k = map_option snap_node (um_find (node_table c) k)) \<and>
    mn_coord nd1 = c' \<and> fo_wal (mn_follower nd1) = fo_wal (mn_follower nd) \<and> fo_term (mn_follower nd1) = fo_term (mn_follower nd) \<and>
    bootstrap_follower_from_leader R clk ordn ordc (p # ps) (Some (w, c)) None None nd =
      (case bootstrap_log R clk (committed w) (committed w) 0 (drop (spec_committed s) (spec_entries s)) nd1 of
         (Inl x, nd2) \<Rightarrow> (Inl x, nd2) | (Inr _, nd2) \<Rightarrow> (Inr True, nd2))"
proof -
  obtain c' where c': "install_snapshot (fst (take_snapshot ordn ordc w c)) (mn_coord nd) = Inr (committed w, c')"
      "\<forall>k. get_chunk c' k = get_chunk c k"
      "\<forall>k. um_find (node_table c') k = map_option snap_node (um_find (node_table c) k)"
    using snapshot_restores [of c ordn ordc w "mn_coord nd"] ok ord by (auto simp: snapshot_ok_def list_all_iff)
  define nd1 where "nd1 = nd\<lparr>mn_coord := c',
    mn_follower := install_snapshot_lsn (fst (take_snapshot ordn ordc w c)) (committed w) (mn_follower nd)\<rparr>"
  have "FetchLogEntries R True (committed w + 1) w = (drop (spec_committed s) (spec_entries s), None)"
    using FetchLogEntries_rel [OF rel wal_relD(2) [OF rel]] wal_relD(4) [OF rel] by (simp add: add.commute)
  then have "bootstrap_follower_from_leader R clk ordn ordc (p # ps) (Some (w, c)) None None nd =
      (case bootstrap_log R clk (committed w) (committed w) 0 (drop (spec_committed s) (spec_entries s)) nd1 of
         (Inl x, nd2) \<Rightarrow> (Inl x, nd2) | (Inr _, nd2) \<Rightarrow> (Inr True, nd2))"
    using c'(1) install_stream_read [of ordn ordc w c]
    by (simp add: bootstrap_follower_from_leader_def broken_def nd1_def split: prod.split sum.split)
  then show ?thesis using c'(2,3) by (intro exI [of _ c'] exI [of _ nd1]) (simp add: nd1_def)
qed

section \<open>Properties\<close>

text \<open>
  C37. A new follower that bootstraps from a leader with committed entries reports success and has the
  leader's chunks, and its nodes as the snapshot carries them; but its log stays as empty as it was, and
  so the leader's next append request is refused: the snapshot never moves the log position.
\<close>

theorem bootstrap_from_snapshot:
  assumes rel: "wal_rel R w s" and com: "1 \<le> spec_committed s" and ok: "snapshot_ok c"
    and ord: "visits_all ordn" "visits_all ordc" and new: "last_index (fo_wal (mn_follower nd)) = 0"
  shows "\<exists>nd'. bootstrap_follower_from_leader R clk ordn ordc (p # ps) (Some (w, c)) None None nd = (Inr True, nd') \<and>
    (\<forall>k. get_chunk (mn_coord nd') k = get_chunk c k) \<and>
    (\<forall>k. um_find (node_table (mn_coord nd')) k = map_option snap_node (um_find (node_table c) k)) \<and>
    fo_wal (mn_follower nd') = fo_wal (mn_follower nd) \<and>
    fst (handle_append R lt (last_index w) pt (last_index w + 1) t ty pl lc (mn_follower nd')) = Inr False"
proof -
  let ?es = "drop (spec_committed s) (spec_entries s)"
  have lu: "unat (last_index w) = length (spec_entries s)" by (rule wal_rel_last [OF rel])
  then have "last_index w \<noteq> - 1" using u64_not_max [of "last_index w"] wal_relD(1) [OF rel] by simp
  then have nx: "unat (last_index w + 1) = Suc (length (spec_entries s))" using lu unat_u64_Suc by metis
  obtain nd1 where nd1: "\<forall>k. get_chunk (mn_coord nd1) k = get_chunk c k"
      "\<forall>k. um_find (node_table (mn_coord nd1)) k = map_option snap_node (um_find (node_table c) k)"
      "fo_wal (mn_follower nd1) = fo_wal (mn_follower nd)"
      "bootstrap_follower_from_leader R clk ordn ordc (p # ps) (Some (w, c)) None None nd =
        (case bootstrap_log R clk (committed w) (committed w) 0 ?es nd1 of (Inl x, nd2) \<Rightarrow> (Inl x, nd2) | (Inr _, nd2) \<Rightarrow> (Inr True, nd2))"
    using bootstrap_course [OF rel ok ord] by blast
  have "1 < we_index (hd ?es)" if ne: "?es \<noteq> []"
  proof -
    have lt: "spec_committed s < length (spec_entries s)" using ne by simp
    then have "we_index (hd ?es) = word_of_nat (Suc (spec_committed s))"
      using read_entry_index [OF wal_relD(5) [OF rel lt]] by (simp add: hd_drop_conv_nth)
    moreover have "unat (word_of_nat (Suc (spec_committed s)) :: u64) = Suc (spec_committed s)"
      using lt wal_relD(1) [OF rel] by (intro unat_u64_of_nat) simp
    ultimately show ?thesis using com by (simp add: word_less_nat_alt del: of_nat_Suc)
  qed
  then obtain nd' where nd': "bootstrap_log R clk (committed w) (committed w) 0 ?es nd1 = (Inr (), nd')"
      "fo_wal (mn_follower nd') = fo_wal (mn_follower nd1)" "mn_coord nd' = mn_coord nd1"
    using bootstrap_log_gap [of nd1 ?es R clk "committed w" "committed w" 0] new nd1(3) by auto
  have "1 < unat (last_index w + 1)" using nx com wal_relD(2) [OF rel] by linarith
  then have "1 < last_index w + 1" "\<not> last_index w + 1 \<le> 0" by (simp_all only: word_less_nat_alt word_le_nat_alt) simp_all
  then have "fst (handle_append R lt (last_index w) pt (last_index w + 1) t ty pl lc (mn_follower nd')) = Inr False"
    using nd'(2) nd1(3) new by (simp add: handle_append_def Let_def)
  then show ?thesis using nd1 nd' by (intro exI [of _ nd']) simp
qed

text \<open>
  Bootstrapping from a leader that has committed nothing yet: the follower takes over every entry of
  the leader's log, and commits and applies them all, although the leader has committed none of them.
\<close>

theorem bootstrap_commits_uncommitted:
  assumes db: "reliable_rocksdb R" and rel: "wal_rel R w s" and com: "spec_committed s = 0"
    and es: "spec_entries s = cmd_entries 0 t cmds" and ne: "cmds \<noteq> []" "length cmds < 2 ^ 64 - 2"
    and cmds: "\<forall>cmd \<in> set cmds. cmd_ok cmd \<and> payload_ok (cmd_payload cmd)"
    and ok: "snapshot_ok c" and ord: "visits_all ordn" "visits_all ordc"
    and new: "wal_rel R (fo_wal (mn_follower nd)) \<lparr>spec_entries = [], spec_committed = 0\<rparr>"
    "db_get R (wal_db (fo_wal (mn_follower nd))) (wal_key 0) = None" "fo_term (mn_follower nd) \<le> t"
  shows "\<exists>nd' c'. bootstrap_follower_from_leader R clk ordn ordc (p # ps) (Some (w, c)) None None nd = (Inr True, nd') \<and>
    (\<forall>k. get_chunk c' k = get_chunk c k) \<and> mn_coord nd' = run_cmds clk 0 cmds c' \<and>
    wal_rel R (fo_wal (mn_follower nd')) \<lparr>spec_entries = spec_entries s, spec_committed = length cmds\<rparr>"
proof -
  obtain nd1 where nd1: "\<forall>k. get_chunk (mn_coord nd1) k = get_chunk c k"
      "fo_wal (mn_follower nd1) = fo_wal (mn_follower nd)" "fo_term (mn_follower nd1) = fo_term (mn_follower nd)"
      "bootstrap_follower_from_leader R clk ordn ordc (p # ps) (Some (w, c)) None None nd =
        (case bootstrap_log R clk (committed w) (committed w) 0 (drop (spec_committed s) (spec_entries s)) nd1 of
           (Inl x, nd2) \<Rightarrow> (Inl x, nd2) | (Inr _, nd2) \<Rightarrow> (Inr True, nd2))"
    using bootstrap_course [OF rel ok ord] by blast
  have c0: "committed w = 0" using wal_relD(4) [OF rel] com by simp
  obtain nd' s' where nd': "bootstrap_log R clk 0 0 0 (cmd_entries 0 t cmds) nd1 = (Inr (), nd')"
      "wal_rel R (fo_wal (mn_follower nd')) s'" "spec_entries s' = cmd_entries 0 t cmds" "spec_committed s' = length cmds"
      "mn_coord nd' = run_cmds clk 0 cmds (mn_coord nd1)"
    using reliable_rocksdb.bootstrap_log_all [OF db, of nd1 _ t "[]" cmds clk 0 0] new nd1(2,3) ne cmds by fastforce
  have "wal_rel R (fo_wal (mn_follower nd')) \<lparr>spec_entries = spec_entries s, spec_committed = length cmds\<rparr>"
    using nd'(2-4) es by (cases s') simp
  then show ?thesis using nd1 nd' c0 com es by (intro exI [of _ nd'] exI [of _ "mn_coord nd1"]) simp
qed

lemma demo_leader_log:
  "\<exists>w. wal_rel mem_rocksdb w \<lparr>spec_entries = cmd_entries 0 1 [Cmd_delete ''x''], spec_committed = 0\<rparr>"
  "\<exists>w. wal_rel mem_rocksdb w \<lparr>spec_entries = cmd_entries 0 1 [Cmd_delete ''x''], spec_committed = 1\<rparr>"
proof -
  have "wal_ops_ok [Op_append DELETE_CHUNK 1 ''x''] \<lparr>spec_entries = [], spec_committed = 0\<rparr>"
    by (simp add: payload_ok_def)
  then obtain w where w: "wal_rel mem_rocksdb w (fold spec_op_step [Op_append DELETE_CHUNK 1 ''x''] \<lparr>spec_entries = [], spec_committed = 0\<rparr>)"
    using mem.wal_ops_rel [OF mem_wal_empty] by blast
  then have w1: "wal_rel mem_rocksdb w \<lparr>spec_entries = cmd_entries 0 1 [Cmd_delete ''x''], spec_committed = 0\<rparr>"
    by (simp add: spec_append_def cmd_entry_def)
  then show "\<exists>w. wal_rel mem_rocksdb w \<lparr>spec_entries = cmd_entries 0 1 [Cmd_delete ''x''], spec_committed = 0\<rparr>" by blast
  show "\<exists>w. wal_rel mem_rocksdb w \<lparr>spec_entries = cmd_entries 0 1 [Cmd_delete ''x''], spec_committed = 1\<rparr>"
    using mem.commit_rel [OF w1, of 1] by (auto simp: spec_commit_def)
qed

theorem bootstrap_from_snapshot_witness:
  "\<exists>(w :: mem_db wal) nd nd'. committed w = 1 \<and> last_index (fo_wal (mn_follower nd)) = 0 \<and>
     bootstrap_follower_from_leader mem_rocksdb (\<lambda>_. 0) (\<lambda>xs. xs) (\<lambda>xs. xs) [''leader:1''] (Some (w, empty_coordinator)) None None nd = (Inr True, nd') \<and>
     fst (handle_append mem_rocksdb 1 1 1 2 1 DELETE_CHUNK ''x'' 1 (mn_follower nd')) = Inr False"
proof -
  let ?nd = "\<lparr>mn_follower = \<lparr>fo_wal = \<lparr>wal_db = [], last_index = 0, committed = 0\<rparr>, fo_term = 0, fo_snapshot_lsn = 0\<rparr>,
      mn_coord = empty_coordinator\<rparr> :: mem_db meta_node"
  obtain w where w: "wal_rel mem_rocksdb w \<lparr>spec_entries = cmd_entries 0 1 [Cmd_delete ''x''], spec_committed = 1\<rparr>"
    using demo_leader_log(2) by blast
  have i: "committed w = 1" "last_index w = 1" using wal_relD(3,4) [OF w] by simp_all
  obtain nd' where "bootstrap_follower_from_leader mem_rocksdb (\<lambda>_. 0) (\<lambda>xs. xs) (\<lambda>xs. xs) [''leader:1''] (Some (w, empty_coordinator)) None None ?nd = (Inr True, nd')"
      "fst (handle_append mem_rocksdb 1 1 1 2 1 DELETE_CHUNK ''x'' 1 (mn_follower nd')) = Inr False"
    using bootstrap_from_snapshot [OF w _ snapshot_ok_empty visits_all_id visits_all_id, of ?nd "\<lambda>_. 0" "''leader:1''" "[]" 1 1 1 DELETE_CHUNK "''x''" 1] i(2)
    by auto
  then show ?thesis using i(1) by (intro exI [of _ w] exI [of _ ?nd] exI [of _ nd']) simp
qed

theorem bootstrap_commits_uncommitted_witness:
  "\<exists>(w :: mem_db wal) nd nd'. committed w = 0 \<and> last_index (fo_wal (mn_follower nd)) = 0 \<and>
     bootstrap_follower_from_leader mem_rocksdb (\<lambda>_. 0) (\<lambda>xs. xs) (\<lambda>xs. xs) [''leader:1''] (Some (w, empty_coordinator)) None None nd = (Inr True, nd') \<and>
     committed (fo_wal (mn_follower nd')) = 1"
proof -
  let ?nd = "\<lparr>mn_follower = \<lparr>fo_wal = \<lparr>wal_db = [], last_index = 0, committed = 0\<rparr>, fo_term = 0, fo_snapshot_lsn = 0\<rparr>,
      mn_coord = empty_coordinator\<rparr> :: mem_db meta_node"
  obtain w where w: "wal_rel mem_rocksdb w \<lparr>spec_entries = cmd_entries 0 1 [Cmd_delete ''x''], spec_committed = 0\<rparr>"
    using demo_leader_log(1) by blast
  have "cmd_ok (Cmd_delete ''x'') \<and> payload_ok (cmd_payload (Cmd_delete ''x''))" by (simp add: payload_ok_def)
  then obtain nd' where nd': "bootstrap_follower_from_leader mem_rocksdb (\<lambda>_. 0) (\<lambda>xs. xs) (\<lambda>xs. xs) [''leader:1''] (Some (w, empty_coordinator)) None None ?nd = (Inr True, nd')"
      "wal_rel mem_rocksdb (fo_wal (mn_follower nd')) \<lparr>spec_entries = cmd_entries 0 1 [Cmd_delete ''x''], spec_committed = 1\<rparr>"
    using bootstrap_commits_uncommitted [OF mem.reliable_rocksdb_axioms w _ _ _ _ _ snapshot_ok_empty visits_all_id visits_all_id,
        of 1 "[Cmd_delete ''x'']" ?nd "\<lambda>_. 0" "''leader:1''" "[]"] mem_wal_empty
    by (auto simp: mem_rocksdb_def)
  then show ?thesis
    using wal_relD(4) [OF w] wal_relD(4) [OF nd'(2)] by (intro exI [of _ w] exI [of _ ?nd] exI [of _ nd']) simp
qed

end
