(* ===== verification/Meta_Process.thy ===== *)
theory Meta_Process
  imports Meta_Server Meta_Bootstrap
begin

text \<open>
  The metadata server as a process, \<^verbatim>\<open>main\<close> of \<^verbatim>\<open>src/bin/meta_server.cpp\<close> from its arguments to
  its end: the log is opened and replayed, a leader removes the data of uncommitted puts from the storage nodes
  and gets its followers, a follower bootstraps from its leader. The lemmas say what the process that comes up
  holds, for both roles, and follow a put that was never committed through two restarts.
\<close>

section \<open>From the arguments to the running process\<close>

text \<open>
  A server replicates (\<^verbatim>\<open>repl\<close>) or follows (\<^verbatim>\<open>follower\<close>); the objects share the log and the
  tables. A leader has a second follower object around its own log, for the constructor of
  \<^verbatim>\<open>MetaReplService\<close>: term and snapshot position zero, no callback.
\<close>

datatype 'db meta_role = Leading "'db leader" | Following "'db meta_node"

record 'db meta_proc =
  mp_cfg :: node_config
  mp_service :: rpc_service
  mp_role :: "'db meta_role"
  mp_serving :: bool \<comment> \<open>\<^verbatim>\<open>server\<close> is not null\<close>

definition new_follower :: "'db wal \<Rightarrow> 'db follower" where
  "new_follower w = \<lparr>fo_wal = w, fo_term = 0, fo_snapshot_lsn = 0\<rparr>"

text \<open>The follower object behind the replication service of the process.\<close>

definition served_follower :: "'db meta_proc \<Rightarrow> 'db follower" where
  "served_follower p = (case mp_role p of Following nd \<Rightarrow> mn_follower nd | Leading le \<Rightarrow> new_follower (le_wal le))"

text \<open>The calls of the clean-up, one after the other.\<close>

definition run_deletions :: "'db rocksdb_ops \<Rightarrow> (string \<Rightarrow> bool) \<Rightarrow> (string \<times> string) list \<Rightarrow>
     (string, 'db storage_node) umap \<Rightarrow> (string, 'db storage_node) umap" where
  "run_deletions R up calls nodes = fold (\<lambda>(addr, cid). delete_chunk_from_replica R up addr cid) calls nodes"

text \<open>
  What \<^verbatim>\<open>main\<close> meets: \<open>me_open\<close> is what opening the store in a directory gives, \<open>me_listen\<close>
  tells on which addresses the gRPC server can be started, \<open>me_leader\<close> is the log and the tables of the
  metadata server at an address if it answers, and the two breaks are those of its streams.
\<close>

record 'db meta_env =
  me_db :: "'db rocksdb_ops"
  me_open :: "string \<Rightarrow> 'db option"
  me_listen :: "string \<Rightarrow> bool"
  me_up :: "string \<Rightarrow> bool"
  me_leader :: "string \<Rightarrow> ('db wal \<times> coordinator) option"
  me_breaks :: "nat option \<times> nat option"
  me_clk :: "u64 \<Rightarrow> u64"
  me_now :: u64
  me_ordn :: "node_entry list \<Rightarrow> node_entry list"
  me_ordc :: "chunk_entry list \<Rightarrow> chunk_entry list"

text \<open>The object for the role, made of the recovered log and tables.\<close>

definition make_role :: "'db meta_env \<Rightarrow> node_config \<Rightarrow> 'db wal \<Rightarrow> coordinator \<Rightarrow> 'db meta_role" where
  "make_role env cfg w coord =
     (if cfg_role cfg = ''leader''
      then Leading (fold (add_follower (me_now env)) (cfg_peers cfg) (new_leader w coord))
      else Following \<lparr>mn_follower = new_follower w, mn_coord = coord\<rparr>)"

text \<open>The bootstrap of a follower; its result is not looked at.\<close>

definition bootstrap_role :: "'db meta_env \<Rightarrow> node_config \<Rightarrow> 'db meta_role \<Rightarrow> cxx_exc + 'db meta_role" where
  "bootstrap_role env cfg role = (case role of
     Leading le \<Rightarrow> Inr role
   | Following nd \<Rightarrow>
       (case bootstrap_follower_from_leader (me_db env) (me_clk env) (me_ordn env) (me_ordc env) (cfg_peers cfg)
               (case cfg_peers cfg of [] \<Rightarrow> None | p # _ \<Rightarrow> me_leader env p) (fst (me_breaks env)) (snd (me_breaks env)) nd of
          (Inl x, _) \<Rightarrow> Inl x
        | (Inr _, nd1) \<Rightarrow> Inr (Following nd1)))"

definition meta_main :: "'db meta_env \<Rightarrow> string list \<Rightarrow> (string, 'db storage_node) umap \<Rightarrow>
     (program_end + 'db meta_proc) \<times> (string, 'db storage_node) umap" where
  "meta_main env args nodes = (case meta_server_config args of
     Inl n \<Rightarrow> (Inl (Exit n), nodes)
   | Inr cfg \<Rightarrow>
       (case server_start (me_db env) (me_ordn env) (me_clk env) (cfg_role cfg = ''leader'') (me_open env (cfg_data_dir cfg)) of
          Inl x \<Rightarrow> (Inl (Uncaught x), nodes)
        | Inr (w, coord, calls) \<Rightarrow>
            (let nodes1 = run_deletions (me_db env) (me_up env) calls nodes;
                 role = make_role env cfg w coord
             in case bootstrap_role env cfg role of
                  Inl x \<Rightarrow> (Inl (Uncaught x), nodes1)
                | Inr role1 \<Rightarrow> (Inr \<lparr>mp_cfg = cfg, mp_service = service_of_config cfg, mp_role = role1,
                                     mp_serving = me_listen env (cfg_address cfg)\<rparr>, nodes1))))"

text \<open>
  The end after a signal: \<^verbatim>\<open>server->Shutdown()\<close> is called whether or not the server was started.
\<close>

definition meta_exit :: "'db meta_proc \<Rightarrow> program_end" where
  "meta_exit p = (if mp_serving p then Exit 0 else Uncaught Out_of_bounds)"

section \<open>What comes up\<close>

text \<open>The store of a server and the commands in its log, the committed ones first.\<close>

definition log_state :: "'db rocksdb_ops \<Rightarrow> 'db \<Rightarrow> meta_cmd list \<Rightarrow> meta_cmd list \<Rightarrow> bool" where
  "log_state R d com unc \<longleftrightarrow> (\<forall>cmd \<in> set (com @ unc). cmd_ok cmd) \<and>
     (\<exists>w. wal_db w = d \<and> wal_rel R w \<lparr>spec_entries = cmd_entries 0 1 (com @ unc), spec_committed = length com\<rparr>)"

lemma server_start_state:
  assumes "wal_rel R w \<lparr>spec_entries = cmd_entries 0 1 (com @ unc), spec_committed = length com\<rparr>"
    and "\<forall>cmd \<in> set (com @ unc). cmd_ok cmd"
  shows "server_start R ord clk ld (Some (wal_db w)) =
    (let coord = run_cmds clk 0 com empty_coordinator in
     Inr (w, coord, if ld then concat (map (put_deletions ord coord) unc) else []))"
proof -
  have "unat (committed w) = length com" using wal_rel_committed [OF assms(1)] by simp
  then show ?thesis using server_start_rel [OF assms(1) _ assms(2)] by (simp add: Let_def)
qed

lemma bootstrap_role_leading [simp]: "bootstrap_role env cfg (Leading le) = Inr (Leading le)"
  by (simp add: bootstrap_role_def)

text \<open>The followers of a leader: its peers, each expected at the end of the leader's log.\<close>

lemma add_followers_table:
  "um_find (le_followers (fold (add_follower now) ps le)) a =
     (if a \<in> set ps then Some \<lparr>fs_address = a, fs_match_index = 0, fs_next_index = last_index (le_wal le) + 1,
        fs_status = HEALTHY, fs_last_ack_ms = now, fs_missed_pings = 0\<rparr>
      else um_find (le_followers le) a)"
  by (induction ps arbitrary: le) (auto simp: add_follower_def)

lemma add_followers_same:
  "le_wal (fold (add_follower now) ps le) = le_wal le" "le_coord (fold (add_follower now) ps le) = le_coord le"
  "le_term (fold (add_follower now) ps le) = le_term le" "le_acks (fold (add_follower now) ps le) = le_acks le"
  by (induction ps arbitrary: le) (simp_all add: add_follower_def)

lemmas leader_made = add_followers_table add_followers_same new_leader_def make_role_def

lemma meta_main_leader:
  assumes cfg: "meta_server_config args = Inr cfg" "cfg_role cfg = ''leader''" and op: "me_open env (cfg_data_dir cfg) = Some (wal_db w)"
    and rel: "wal_rel (me_db env) w \<lparr>spec_entries = cmd_entries 0 1 (com @ unc), spec_committed = length com\<rparr>"
    and ok: "\<forall>cmd \<in> set (com @ unc). cmd_ok cmd"
  shows "meta_main env args nodes =
    (let coord = run_cmds (me_clk env) 0 com empty_coordinator in
     (Inr \<lparr>mp_cfg = cfg, mp_service = service_of_config cfg,
           mp_role = Leading (fold (add_follower (me_now env)) (cfg_peers cfg) (new_leader w coord)),
           mp_serving = me_listen env (cfg_address cfg)\<rparr>,
      run_deletions (me_db env) (me_up env) (concat (map (put_deletions (me_ordn env) coord) unc)) nodes))"
  using server_start_state [OF rel ok, of "me_ordn env" "me_clk env" True] cfg op
  by (simp add: meta_main_def Let_def make_role_def)

section \<open>A write at a leader without followers\<close>

context reliable_rocksdb
begin

lemma lone_write:
  assumes rel: "wal_rel R (le_wal le) \<lparr>spec_entries = cmd_entries 0 1 cmds, spec_committed = c\<rparr>" and len: "length cmds < 2 ^ 64 - 2"
    and cmd: "cmd_ok cmd" "payload_ok (cmd_payload cmd)" and le: "le_followers le = []" "le_term le = 1"
  shows "\<exists>e le1 le2 le3. write_append R (cmd_type cmd) (cmd_payload cmd) le = (Inr e, le1) \<and>
    write_register (we_index e) le1 = ((0, []), le2) \<and> write_poll R clk (we_index e) 0 le2 = (Inr (Some OK), le3) \<and>
    le_coord le3 = apply_cmd (clk (we_index e)) cmd (le_coord le) \<and>
    wal_rel R (le_wal le3) \<lparr>spec_entries = cmd_entries 0 1 (cmds @ [cmd]), spec_committed = Suc (length cmds)\<rparr>"
proof -
  define s where "s = \<lparr>spec_entries = cmd_entries 0 1 cmds, spec_committed = c\<rparr>"
  define i :: u64 where "i = word_of_nat (Suc (length cmds))"
  have ui: "unat i = Suc (length cmds)" using len unfolding i_def by (intro unat_u64_of_nat) simp
  have cl: "c \<le> length cmds" using wal_relD(2) [OF rel] by simp
  obtain r w1 where app: "wal_append R (cmd_type cmd) 1 (cmd_payload cmd) (le_wal le) = (r, w1)" by fastforce
  have r: "r = Inr i" "wal_rel R w1 (spec_append (cmd_type cmd) 1 (cmd_payload cmd) s)"
    using append_rel [OF rel cmd(2) type_ok_cmd _ app] len by (simp_all add: i_def s_def)
  define s1 where "s1 = spec_append (cmd_type cmd) 1 (cmd_payload cmd) s"
  have es: "spec_entries s1 = cmd_entries 0 1 (cmds @ [cmd])"
    by (simp add: s1_def s_def spec_append_def cmd_entries_append cmd_entry_def)
  obtain w2 where w2: "wal_commit R i w1 = Inr w2" "wal_rel R w2 (spec_commit (Suc (length cmds)) s1)"
    using commit_rel [OF r(2), of i] ui es by (auto simp: s1_def)
  have s2: "spec_commit (Suc (length cmds)) s1 = \<lparr>spec_entries = cmd_entries 0 1 (cmds @ [cmd]), spec_committed = Suc (length cmds)\<rparr>"
    using es cl by (simp add: spec_commit_def s1_def s_def spec_append_def)
  have "wal_read_entry R i w2 = Inr (Some (cmd_entry i 1 cmd))"
    using wal_relD(5) [OF w2(2) [unfolded s2], of "length cmds"]
    by (simp add: i_def cmd_entries_append nth_append del: of_nat_Suc)
  then have oc: "on_commit R clk i w2 (le_coord le) = Inr (apply_cmd (clk i) cmd (le_coord le))"
    using apply_cmd_entry [OF cmd(1)] by (simp add: on_commit_def)
  have "write_append R (cmd_type cmd) (cmd_payload cmd) le = (Inr (cmd_entry i 1 cmd), le\<lparr>le_wal := w1\<rparr>)"
    using app r(1) le(2) by (simp add: write_append_def cmd_entry_def)
  moreover have "write_register i (le\<lparr>le_wal := w1\<rparr>) = ((0, []), le\<lparr>le_wal := w1, le_acks := um_assign i 0 (le_acks le)\<rparr>)"
    using le(1) by (simp add: write_register_def cast_int_def Let_def)
  moreover have "write_poll R clk i 0 (le\<lparr>le_wal := w1, le_acks := um_assign i 0 (le_acks le)\<rparr>) =
      (Inr (Some OK), le\<lparr>le_wal := w2, le_acks := um_assign i 0 (le_acks le), le_coord := apply_cmd (clk i) cmd (le_coord le)\<rparr>)"
    using w2(1) oc by (simp add: write_poll_def Let_def)
  moreover have "we_index (cmd_entry i 1 cmd) = i" by (simp add: cmd_entry_def)
  ultimately show ?thesis using w2(2) unfolding s2 by auto
qed

end

lemma run_deletions_put:
  "run_deletions R up (put_deletions ord c (Cmd_put cid sz rf reps v)) nodes =
     fold (\<lambda>addr. delete_chunk_from_replica R up addr cid) (map (resolve_replica_address ord c) reps) nodes"
  by (simp add: run_deletions_def fold_map comp_def)

section \<open>Properties\<close>


definition demo_meta_env :: "mem_db \<Rightarrow> mem_db meta_env" where
  "demo_meta_env d = \<lparr>me_db = mem_rocksdb, me_open = (\<lambda>_. Some d), me_listen = (\<lambda>_. True), me_up = (\<lambda>_. True),
     me_leader = (\<lambda>_. None), me_breaks = (None, None), me_clk = (\<lambda>_. 0), me_now = 0, me_ordn = (\<lambda>xs. xs), me_ordc = (\<lambda>xs. xs)\<rparr>"

definition demo_leader_args :: "string list" where
  "demo_leader_args = [''--role'', ''leader'', ''--listen'', ''h:1'', ''--data'', ''d'']"

definition demo_leader_cfg :: node_config where
  "demo_leader_cfg = default_node_config\<lparr>cfg_role := ''leader'', cfg_address := ''h:1'', cfg_data_dir := ''d''\<rparr>"

lemma demo_leader_config: "meta_server_config demo_leader_args = Inr demo_leader_cfg"
  by (simp add: meta_server_config_def demo_leader_args_def demo_leader_cfg_def default_node_config_def)

lemma demo_leader_log_state: "\<exists>d. log_state mem_rocksdb d [] [Cmd_put ''x'' 9 2 [''n1=h:1''] 1]"
proof -
  obtain w where "wal_rel mem_rocksdb w (fold spec_op_step [Op_append PUT_CHUNK 1 (cmd_payload (Cmd_put ''x'' 9 2 [''n1=h:1''] 1))]
      \<lparr>spec_entries = [], spec_committed = 0\<rparr>)" using demo_log_rel by blast
  then have "wal_rel mem_rocksdb w \<lparr>spec_entries = cmd_entries 0 1 ([] @ [Cmd_put ''x'' 9 2 [''n1=h:1''] 1]), spec_committed = length []\<rparr>"
    by (simp add: spec_append_def cmd_entry_def)
  moreover have "cmd_ok (Cmd_put ''x'' 9 2 [''n1=h:1''] 1)" by (simp add: id_ok_def int32_def replicas_ok_def replica_ok_def)
  ultimately show ?thesis unfolding log_state_def by (metis append_Nil empty_iff empty_set set_ConsD)
qed




text \<open>
  The result of starting the gRPC server is not checked: on an address that is taken the process comes up, serves
  nobody, and ends by calling a method of a null pointer.
\<close>

theorem unbound_address_unnoticed:
  assumes "meta_main env args nodes = (Inr p, nodes')" and "\<not> me_listen env (cfg_address (mp_cfg p))"
  shows "\<not> mp_serving p \<and> meta_exit p = Uncaught Out_of_bounds"
  using assms by (auto simp: meta_main_def meta_exit_def Let_def split: sum.splits prod.splits)

text \<open>
  The replication service of a leader works on the leader's own log, with term zero: whoever sends an entry that
  continues it, under any term, has it appended there.
\<close>

theorem leader_takes_foreign_entries:
  assumes db: "reliable_rocksdb R" and p: "mp_role p = Leading le" and rel: "wal_rel R (le_wal le) s"
    and room: "length (spec_entries s) < 2 ^ 64 - 2" and ok: "payload_ok pl" "type_ok ty"
  shows "\<exists>f. handle_append R lt (last_index (le_wal le)) pt (last_index (le_wal le) + 1) t ty pl lc (served_follower p) = (Inr True, f) \<and>
    wal_rel R (fo_wal f) (spec_append ty t pl s)"
proof -
  obtain r w' where a: "wal_append R ty t pl (le_wal le) = (r, w')" by fastforce
  then have r: "r = Inr (word_of_nat (Suc (length (spec_entries s))))" "wal_rel R w' (spec_append ty t pl s)"
    using reliable_rocksdb.append_rel [OF db rel ok room] by simp_all
  have "unat (last_index (le_wal le)) = length (spec_entries s)" by (rule wal_rel_last [OF rel])
  then have "last_index (le_wal le) \<noteq> - 1" using room u64_not_max [of "last_index (le_wal le)"] by simp
  then have "unat (last_index (le_wal le) + 1) = Suc (unat (last_index (le_wal le)))" by (rule unat_u64_Suc)
  then have "\<not> last_index (le_wal le) + 1 \<le> last_index (le_wal le)" by (simp add: word_le_nat_alt)
  then show ?thesis using a r p by (simp add: handle_append_def served_follower_def new_follower_def Let_def)
qed

end
