(* ===== verification/Bootstrap_Steps.thy ===== *)
theory Bootstrap_Steps
  imports Meta_Bootstrap Meta_Replication
begin

text \<open>
  The bootstrap of a follower next to the requests it serves. \<^verbatim>\<open>main\<close> starts the gRPC server before it
  calls \<^verbatim>\<open>bootstrap_follower_from_leader\<close>, so that \<^verbatim>\<open>AppendEntry\<close> and \<^verbatim>\<open>CommitEntry\<close> are handled while
  the bootstrap is on its way. Here it is cut at its calls of the leader and its accesses to the follower and
  the tables. Left alone the steps are the function of \<open>Meta_Bootstrap\<close>. Among requests of the leader, the log stays a prefix of
  the leader's; the tables do not stay what the log says.
\<close>

section \<open>The bootstrap, step by step\<close>

text \<open>The leader at the moment of a step, where its two streams break, the clock, the order of its tables.\<close>

record 'db boot_env =
  be_leader :: "('db wal \<times> coordinator) option"
  be_break_snapshot :: "nat option"
  be_break_log :: "nat option"
  be_clk :: "u64 \<Rightarrow> u64"
  be_ordn :: "node_entry list \<Rightarrow> node_entry list"
  be_ordc :: "chunk_entry list \<Rightarrow> chunk_entry list"

text \<open>
  Before the snapshot is asked for; with its bytes, before it is installed; before the log is asked for, with
  \<^verbatim>\<open>snapshot_lsn\<close>; in the loop, with \<^verbatim>\<open>prev_log_index\<close>, \<^verbatim>\<open>prev_log_term\<close>, the entries left and
  whether the stream ends well, before an append, and, with its entry, before a commit; returned.
\<close>

datatype boot_point =
    Boot_snapshot
  | Boot_install string
  | Boot_fetch u64
  | Boot_append u64 u64 u64 "wal_entry list" bool
  | Boot_commit u64 wal_entry "wal_entry list" bool
  | Boot_done "cxx_exc + bool"

definition boot_receive :: "'db boot_env \<Rightarrow> boot_point" where
  "boot_receive env = (case be_leader env of
     None \<Rightarrow> Boot_done (Inr False)
   | Some (w, coord) \<Rightarrow>
       (let (chunks, ok) = broken (be_break_snapshot env) (InstallSnapshot (be_ordn env) (be_ordc env) w coord);
            (snapshot_data, _, received) = read_snapshot chunks [] 0 False
        in if \<not> ok \<or> \<not> received then Boot_done (Inr False) else Boot_install snapshot_data))"

definition boot_installed :: "string \<Rightarrow> 'db meta_node \<Rightarrow> boot_point \<times> 'db meta_node" where
  "boot_installed snapshot_data nd = (case install_snapshot snapshot_data (mn_coord nd) of
     Inl Out_of_bounds \<Rightarrow> (Boot_done (Inl Out_of_bounds), nd)
   | Inl _ \<Rightarrow> (Boot_done (Inr False), nd)
   | Inr (lsn, coord1) \<Rightarrow>
       (Boot_fetch lsn, nd\<lparr>mn_coord := coord1, mn_follower := install_snapshot_lsn snapshot_data lsn (mn_follower nd)\<rparr>))"

definition boot_entries :: "'db rocksdb_ops \<Rightarrow> 'db boot_env \<Rightarrow> u64 \<Rightarrow> boot_point" where
  "boot_entries R env lsn = (case be_leader env of
     None \<Rightarrow> Boot_done (Inr False)
   | Some (w, _) \<Rightarrow>
       (let (sent, x) = FetchLogEntries R True (lsn + 1) w; (entries, ok) = broken (be_break_log env) sent
        in Boot_append lsn lsn 0 entries (ok \<and> x = None)))"

fun boot_step :: "'db rocksdb_ops \<Rightarrow> string list \<Rightarrow> 'db boot_env \<Rightarrow> boot_point \<Rightarrow> 'db meta_node \<Rightarrow> boot_point \<times> 'db meta_node" where
  "boot_step R peers env Boot_snapshot nd = (if peers = [] then Boot_done (Inr False) else boot_receive env, nd)"
| "boot_step R peers env (Boot_install snapshot_data) nd = boot_installed snapshot_data nd"
| "boot_step R peers env (Boot_fetch lsn) nd = (boot_entries R env lsn, nd)"
| "boot_step R peers env (Boot_append lsn prev_index prev_term [] ok) nd = (Boot_done (Inr ok), nd)"
| "boot_step R peers env (Boot_append lsn prev_index prev_term (e # es) ok) nd =
     (case handle_append R (we_term e) prev_index prev_term (we_index e) (we_term e) (we_type e) (we_payload e) lsn (mn_follower nd) of
        (Inl x, f) \<Rightarrow> (Boot_done (Inl x), nd\<lparr>mn_follower := f\<rparr>)
      | (Inr False, f) \<Rightarrow> (Boot_done (Inr ok), nd\<lparr>mn_follower := f\<rparr>)
      | (Inr True, f) \<Rightarrow> (Boot_commit lsn e es ok, nd\<lparr>mn_follower := f\<rparr>))"
| "boot_step R peers env (Boot_commit lsn e es ok) nd =
     (case CommitEntry R (be_clk env) (we_index e) (we_term e) nd of
        (Inl x, nd1) \<Rightarrow> (Boot_done (Inl x), nd1)
      | (Inr _, nd1) \<Rightarrow> (Boot_append lsn (we_index e) (we_term e) es ok, nd1))"
| "boot_step R peers env (Boot_done r) nd = (Boot_done r, nd)"

section \<open>A bootstrap left alone\<close>

fun boot_steps :: "nat \<Rightarrow> 'db rocksdb_ops \<Rightarrow> string list \<Rightarrow> 'db boot_env \<Rightarrow> boot_point \<times> 'db meta_node \<Rightarrow> boot_point \<times> 'db meta_node" where
  "boot_steps 0 R peers env ps = ps"
| "boot_steps (Suc n) R peers env (pc, nd) = boot_steps n R peers env (boot_step R peers env pc nd)"

lemma boot_steps_done [simp]: "boot_steps n R peers env (Boot_done r, nd) = (Boot_done r, nd)"
  by (induction n) auto

text \<open>Two steps for every entry of the log, and one to see its end.\<close>

lemma boot_steps_log:
  "boot_steps (2 * length es + 1) R peers env (Boot_append lsn p pt es ok, nd) =
     (case bootstrap_log R (be_clk env) lsn p pt es nd of (Inl x, nd') \<Rightarrow> (Boot_done (Inl x), nd') | (Inr _, nd') \<Rightarrow> (Boot_done (Inr ok), nd'))"
proof (induction es arbitrary: p pt nd)
  case (Cons e es)
  obtain r f where h: "handle_append R (we_term e) p pt (we_index e) (we_term e) (we_type e) (we_payload e) lsn (mn_follower nd) = (r, f)"
    by fastforce
  consider (raised) x where "r = Inl x" | (refused) "r = Inr False" | (taken) "r = Inr True" by (cases r) auto
  then show ?case
  proof cases
    case taken
    obtain r1 nd1 where c: "CommitEntry R (be_clk env) (we_index e) (we_term e) (nd\<lparr>mn_follower := f\<rparr>) = (r1, nd1)" by fastforce
    show ?thesis using h taken c Cons.IH [of "we_index e" "we_term e" nd1] by (cases r1) simp_all
  qed (use h in simp_all)
qed simp

text \<open>How many steps the bootstrap takes at most: the entries are those the leader sends.\<close>

definition boot_fuel :: "'db boot_env \<Rightarrow> nat" where
  "boot_fuel env = (case be_leader env of None \<Rightarrow> 4 | Some (w, _) \<Rightarrow> 2 * unat (last_index w) + 6)"

lemma boot_steps_add: "boot_steps (m + n) R peers env ps = boot_steps n R peers env (boot_steps m R peers env ps)"
proof (induction m arbitrary: ps)
  case (Suc m)
  then show ?case by (cases ps) simp
qed simp

lemma boot_steps_enough:
  assumes "boot_steps m R peers env ps = (Boot_done r, nd)" and "m \<le> n"
  shows "boot_steps n R peers env ps = (Boot_done r, nd)"
  using assms boot_steps_add [of m "n - m" R peers env ps] by simp

lemma fetch_entries_length: "length (fst (fetch_entries R w idxs)) \<le> length idxs"
  by (induction idxs) (auto split: sum.split option.split prod.split)

lemma FetchLogEntries_length: "length (fst (FetchLogEntries R True from_index w)) \<le> unat (last_index w) + 1"
proof (cases "u64_loop from_index (last_index w)")
  case (Inr idxs)
  then have "length idxs \<le> unat (last_index w) + 1" by (auto simp: u64_loop_def split: if_splits)
  then show ?thesis using Inr fetch_entries_length [of R w idxs] by (simp add: FetchLogEntries_def)
qed (simp add: FetchLogEntries_def)

lemma broken_length: "length (fst (broken brk ms)) \<le> length ms"
  by (simp add: broken_def split: option.split)

lemma boot_steps_result:
  assumes "bootstrap_follower_from_leader R (be_clk env) (be_ordn env) (be_ordc env) peers (be_leader env)
      (be_break_snapshot env) (be_break_log env) nd = (r, nd')"
  shows "boot_steps (boot_fuel env) R peers env (Boot_snapshot, nd) = (Boot_done r, nd')"
proof (cases "peers = [] \<or> be_leader env = None")
  case True
  then have "boot_steps 1 R peers env (Boot_snapshot, nd) = (Boot_done r, nd')"
    using assms by (auto simp: bootstrap_follower_from_leader_def boot_receive_def)
  then show ?thesis by (rule boot_steps_enough) (simp add: boot_fuel_def split: option.split)
next
  case False
  then obtain w coord where l: "be_leader env = Some (w, coord)" "peers \<noteq> []" by auto
  obtain chunks ok where ch: "broken (be_break_snapshot env) (InstallSnapshot (be_ordn env) (be_ordc env) w coord) = (chunks, ok)" by fastforce
  obtain data l0 received where rd: "read_snapshot chunks [] 0 False = (data, l0, received)" by (metis prod.exhaust)
  show ?thesis
  proof (cases "ok \<and> received")
    case False
    then have "boot_steps 1 R peers env (Boot_snapshot, nd) = (Boot_done r, nd')"
      using assms l ch rd by (auto simp: bootstrap_follower_from_leader_def boot_receive_def)
    then show ?thesis by (rule boot_steps_enough) (simp add: boot_fuel_def l)
  next
    case True
    have one: "boot_steps 1 R peers env (Boot_snapshot, nd) = (Boot_install data, nd)" using True l ch rd by (simp add: boot_receive_def)
    show ?thesis
    proof (cases "install_snapshot data (mn_coord nd)")
      case (Inl x)
      then have "boot_steps (1 + 1) R peers env (Boot_snapshot, nd) = (Boot_done r, nd')"
        using assms l ch rd True unfolding boot_steps_add one
        by (auto simp: bootstrap_follower_from_leader_def boot_installed_def split: cxx_exc.splits)
      then show ?thesis by (rule boot_steps_enough) (simp add: boot_fuel_def l)
    next
      case (Inr lc)
      obtain lsn c1 where lc: "lc = (lsn, c1)" by fastforce
      let ?nd1 = "nd\<lparr>mn_coord := c1, mn_follower := install_snapshot_lsn data lsn (mn_follower nd)\<rparr>"
      obtain sent x where sent: "FetchLogEntries R True (lsn + 1) w = (sent, x)" by fastforce
      obtain es ok2 where es: "broken (be_break_log env) sent = (es, ok2)" by fastforce
      have "length es \<le> unat (last_index w) + 1"
        using broken_length [of "be_break_log env" sent] FetchLogEntries_length [of R "lsn + 1" w] sent es by simp
      then have le: "1 + (2 + (2 * length es + 1)) \<le> boot_fuel env" using l by (simp add: boot_fuel_def)
      have "boot_steps 2 R peers env (Boot_install data, nd) = (Boot_append lsn lsn 0 es (ok2 \<and> x = None), ?nd1)"
        using Inr lc l sent es by (simp add: numeral_2_eq_2 boot_installed_def boot_entries_def)
      then have "boot_steps (1 + (2 + (2 * length es + 1))) R peers env (Boot_snapshot, nd) =
          (case bootstrap_log R (be_clk env) lsn lsn 0 es ?nd1 of (Inl x, nd') \<Rightarrow> (Boot_done (Inl x), nd')
             | (Inr _, nd') \<Rightarrow> (Boot_done (Inr (ok2 \<and> x = None)), nd'))"
        unfolding boot_steps_add [of 1] boot_steps_add [of 2] one by (simp only: boot_steps_log)
      also have "\<dots> = (Boot_done r, nd')"
        using assms l ch rd True Inr lc sent es by (auto simp: bootstrap_follower_from_leader_def split: prod.splits sum.splits)
      finally show ?thesis using boot_steps_enough le by blast
    qed
  qed
qed

section \<open>The requests in between\<close>

datatype 'db follower_event =
    Fv_boot "'db boot_env"
  | Fv_append u64 u64 u64 wal_entry u64
  | Fv_commit u64 u64 "u64 \<Rightarrow> u64"

fun follower_step :: "'db rocksdb_ops \<Rightarrow> string list \<Rightarrow> 'db follower_event \<Rightarrow> boot_point \<times> 'db meta_node \<Rightarrow> boot_point \<times> 'db meta_node" where
  "follower_step R peers (Fv_boot env) (pc, nd) = boot_step R peers env pc nd"
| "follower_step R peers (Fv_append leader_term prev_index prev_term e leader_committed) (pc, nd) =
     (pc, snd (AppendEntry R leader_term prev_index prev_term e leader_committed nd))"
| "follower_step R peers (Fv_commit idx t clk) (pc, nd) = (pc, snd (CommitEntry R clk idx t nd))"

definition follower_run :: "'db rocksdb_ops \<Rightarrow> string list \<Rightarrow> 'db follower_event list \<Rightarrow> 'db meta_node \<Rightarrow> boot_point \<times> 'db meta_node" where
  "follower_run R peers evs nd = fold (follower_step R peers) evs (Boot_snapshot, nd)"

text \<open>
  Requests and streams of a leader whose log is, or will be, \<open>L\<close>: what it sends are entries of \<open>L\<close>,
  each with the index before its own; what it has at a step is a prefix, and its tables fit a snapshot.
\<close>

definition leader_ok :: "'db rocksdb_ops \<Rightarrow> wal_entry list \<Rightarrow> 'db boot_env \<Rightarrow> bool" where
  "leader_ok R L env \<longleftrightarrow> visits_all (be_ordn env) \<and> visits_all (be_ordc env) \<and>
     (\<forall>w c. be_leader env = Some (w, c) \<longrightarrow> snapshot_ok c \<and> (\<exists>s. wal_rel R w s \<and> prefix (spec_entries s) L))"

fun follower_event_ok :: "'db rocksdb_ops \<Rightarrow> wal_entry list \<Rightarrow> 'db follower_event \<Rightarrow> bool" where
  "follower_event_ok R L (Fv_boot env) \<longleftrightarrow> leader_ok R L env"
| "follower_event_ok R L (Fv_append lt p pt e lc) \<longleftrightarrow> lt = 1 \<and> p = we_index e - 1 \<and> in_log L e"
| "follower_event_ok R L (Fv_commit idx t clk) \<longleftrightarrow> True"

text \<open>What the bootstrap holds at its points: a position of the leader, or a part of its log.\<close>

definition log_part :: "wal_entry list \<Rightarrow> u64 \<Rightarrow> wal_entry list \<Rightarrow> bool" where
  "log_part L p es \<longleftrightarrow> unat p \<le> length L \<and> prefix es (drop (unat p) L)"

fun boot_point_ok :: "wal_entry list \<Rightarrow> boot_point \<Rightarrow> bool" where
  "boot_point_ok L (Boot_install data) \<longleftrightarrow> (\<forall>c lsn c'. install_snapshot data c = Inr (lsn, c') \<longrightarrow> unat lsn \<le> length L)"
| "boot_point_ok L (Boot_fetch lsn) \<longleftrightarrow> unat lsn \<le> length L"
| "boot_point_ok L (Boot_append lsn p pt es ok) \<longleftrightarrow> log_part L p es"
| "boot_point_ok L (Boot_commit lsn e es ok) \<longleftrightarrow> in_log L e \<and> log_part L (we_index e) es"
| "boot_point_ok L _ \<longleftrightarrow> True"

lemma log_part_Cons:
  assumes ok: "log_ok L" and part: "log_part L p (e # es)"
  shows "in_log L e \<and> p = we_index e - 1 \<and> log_part L (we_index e) es"
proof -
  have lt: "unat p < length L" using part by (auto simp: log_part_def intro: ccontr)
  then have d: "drop (unat p) L = L ! unat p # drop (Suc (unat p)) L" by (simp add: Cons_nth_drop_Suc)
  then have e: "e = L ! unat p" "prefix es (drop (Suc (unat p)) L)" using part by (simp_all add: log_part_def)
  have i: "we_index e = word_of_nat (Suc (unat p))" using ok lt e(1) by (simp add: log_ok_def)
  then have "we_index e = p + 1" by (simp add: add.commute)
  moreover have "unat (we_index e) = Suc (unat p)"
    using ok lt unfolding i by (intro unat_u64_of_nat) (simp add: log_ok_def)
  ultimately show ?thesis using lt e by (auto simp: in_log_def log_part_def)
qed

lemma take_log_part: "log_part L p es \<Longrightarrow> log_part L p (take k es)"
  by (auto simp: log_part_def intro: prefix_order.trans take_is_prefix)

lemma boot_receive_ok:
  assumes "leader_ok R L env"
  shows "boot_point_ok L (boot_receive env)"
proof (cases "be_leader env")
  case (Some wc)
  obtain w c where wc: "wc = (w, c)" by fastforce
  obtain s where l: "snapshot_ok c" "wal_rel R w s" "prefix (spec_entries s) L" "visits_all (be_ordn env)" "visits_all (be_ordc env)"
    using assms Some wc by (auto simp: leader_ok_def)
  have com: "unat (committed w) \<le> length L" using wal_rel_committed [OF l(2)] wal_relD(2) [OF l(2)] prefix_length_le [OF l(3)] by simp
  have data: "data = fst (take_snapshot (be_ordn env) (be_ordc env) w c)" if "boot_receive env = Boot_install data" for data
    using that Some wc install_stream_read [of "be_ordn env" "be_ordc env" w c]
    by (auto simp: boot_receive_def broken_def split: option.splits if_splits prod.splits)
  have "unat lsn \<le> length L" if "boot_receive env = Boot_install data" "install_snapshot data c0 = Inr (lsn, c')" for data c0 lsn c'
  proof -
    note eq = data [OF that(1)]
    obtain c1 where "install_snapshot data c0 = Inr (committed w, c1)"
      using snapshot_restores [of c "be_ordn env" "be_ordc env" w c0] l unfolding eq by (auto simp: snapshot_ok_def list_all_iff)
    then show ?thesis using that(2) com by simp
  qed
  then show ?thesis using Some wc by (cases "boot_receive env") (auto simp: boot_receive_def Let_def split: prod.splits if_splits)
qed (simp add: boot_receive_def)

lemma boot_entries_ok:
  assumes env: "leader_ok R L env" and lsn: "unat lsn \<le> length L" and ok: "log_ok L"
  shows "boot_point_ok L (boot_entries R env lsn)"
proof (cases "be_leader env")
  case (Some wc)
  obtain w c where wc: "wc = (w, c)" by fastforce
  obtain s where s: "wal_rel R w s" "prefix (spec_entries s) L" using env Some wc by (auto simp: leader_ok_def)
  have "length L < 2 ^ 64 - 1" using ok by (simp add: log_ok_def)
  then have nx: "lsn + 1 = word_of_nat (Suc (unat lsn))" "unat (lsn + 1) = Suc (unat lsn)"
    using lsn unat_u64_Suc [of lsn] u64_not_max [of lsn] by (simp_all add: add.commute)
  have part: "log_part L lsn (fst (FetchLogEntries R True (lsn + 1) w))"
  proof (cases "unat lsn \<le> length (spec_entries s)")
    case True
    then show ?thesis using FetchLogEntries_rel [OF s(1) True, folded nx(1)] s(2) lsn by (auto simp: log_part_def prefix_def)
  next
    case False
    then have "unat (last_index w) < unat (lsn + 1)" using nx(2) wal_rel_last [OF s(1)] by simp
    then have "fst (FetchLogEntries R True (lsn + 1) w) = []" by (auto simp: FetchLogEntries_def u64_loop_def Let_def)
    then show ?thesis using lsn by (simp add: log_part_def)
  qed
  then show ?thesis using Some wc take_log_part [OF part]
    by (auto simp: boot_entries_def broken_def split: prod.split option.split)
qed (simp add: boot_entries_def)

section \<open>The log in between\<close>

text \<open>The previous term and the leader's commit index make no difference to an append.\<close>

lemma handle_append_ignores: "handle_append R lt p pt i t ty pl lc f = handle_append R lt p pt' i t ty pl lc' f"
  by (simp add: handle_append_def)

lemma AppendEntry_node: "snd (AppendEntry R lt p pt e lc nd) =
    nd\<lparr>mn_follower := snd (handle_append R lt p pt (we_index e) (we_term e) (we_type e) (we_payload e) lc (mn_follower nd))\<rparr>"
  by (auto simp: AppendEntry_def Let_def split: prod.split sum.split)

context reliable_rocksdb
begin

lemma append_request_node:
  assumes nd: "node_rel R nd s" "prefix (spec_entries s) L" and ok: "log_ok L" "in_log L e"
  shows "\<exists>s'. node_rel R (nd\<lparr>mn_follower := snd (handle_append R 1 (we_index e - 1) pt (we_index e) (we_term e) (we_type e) (we_payload e) lc (mn_follower nd))\<rparr>) s' \<and>
    prefix (spec_entries s') L \<and> length (spec_entries s) \<le> length (spec_entries s')"
proof -
  let ?h = "handle_append R 1 (we_index e - 1) pt (we_index e) (we_term e) (we_type e) (we_payload e) lc (mn_follower nd)"
  have "snd (AppendEntry R 1 (we_index e - 1) 1 e lc nd) = nd\<lparr>mn_follower := snd ?h\<rparr>"
    unfolding AppendEntry_node handle_append_ignores [of R 1 _ 1 _ _ _ _ lc _ pt lc] ..
  moreover obtain r nd' where "AppendEntry R 1 (we_index e - 1) 1 e lc nd = (r, nd')" by fastforce
  ultimately show ?thesis using append_entry_node [OF nd ok, of lc r nd'] by auto
qed

lemma boot_step_node:
  assumes nd: "node_rel R nd s" "prefix (spec_entries s) L" and ok: "log_ok L" and pc: "boot_point_ok L pc" and env: "leader_ok R L env"
    and run: "boot_step R peers env pc nd = (pc1, nd1)"
  shows "boot_point_ok L pc1 \<and> (\<exists>s'. node_rel R nd1 s' \<and> prefix (spec_entries s') L \<and> length (spec_entries s) \<le> length (spec_entries s'))"
proof (cases "(R, peers, env, pc, nd)" rule: boot_step.cases)
  case (1 _ _ _ _)
  then show ?thesis using run nd boot_receive_ok [OF env] by auto
next
  case (2 _ _ _ data _)
  have "node_rel R (nd\<lparr>mn_coord := c, mn_follower := install_snapshot_lsn data lsn (mn_follower nd)\<rparr>) s" for c lsn
    using nd(1) by (simp add: node_rel_def)
  then show ?thesis using run nd pc 2 by (fastforce simp: boot_installed_def split: sum.splits cxx_exc.splits)
next
  case (3 _ _ _ lsn _)
  then show ?thesis using run nd pc boot_entries_ok [OF env _ ok] by auto
next
  case (5 _ _ _ lsn p pt e es k _)
  then have e: "in_log L e" "p = we_index e - 1" "log_part L (we_index e) es" using log_part_Cons [OF ok] pc by auto
  have t: "we_term e = 1" using in_log_index [OF ok e(1)] by metis
  obtain r f where h: "handle_append R 1 (we_index e - 1) pt (we_index e) (we_term e) (we_type e) (we_payload e) lsn (mn_follower nd) = (r, f)"
    by fastforce
  have run5: "(case (r, f) of (Inl x, f) \<Rightarrow> (Boot_done (Inl x), nd\<lparr>mn_follower := f\<rparr>)
      | (Inr False, f) \<Rightarrow> (Boot_done (Inr k), nd\<lparr>mn_follower := f\<rparr>)
      | (Inr True, f) \<Rightarrow> (Boot_commit lsn e es k, nd\<lparr>mn_follower := f\<rparr>)) = (pc1, nd1)"
    using run 5 h e(2) t by auto
  have "nd1 = nd\<lparr>mn_follower := f\<rparr>" "boot_point_ok L pc1" using run5 e(1,3) by (auto split: sum.splits bool.splits)
  then show ?thesis using append_request_node [OF nd ok e(1), of pt lsn] h by simp
next
  case (6 _ _ _ lsn e es k _)
  then have "boot_point_ok L pc1" "nd1 = snd (CommitEntry R (be_clk env) (we_index e) (we_term e) nd)"
    using run pc by (auto split: prod.splits sum.splits)
  then show ?thesis using commit_entry_node [OF nd(1), of "be_clk env" "we_index e" "we_term e"] nd(2) by auto
qed (use run nd in auto)

lemma follower_event_node:
  assumes nd: "node_rel R nd s" "prefix (spec_entries s) L" and ok: "log_ok L" and pc: "boot_point_ok L pc" and ev: "follower_event_ok R L ev"
    and run: "follower_step R peers ev (pc, nd) = (pc1, nd1)"
  shows "boot_point_ok L pc1 \<and> (\<exists>s'. node_rel R nd1 s' \<and> prefix (spec_entries s') L \<and> length (spec_entries s) \<le> length (spec_entries s'))"
proof (cases ev)
  case (Fv_boot env)
  then show ?thesis using boot_step_node [OF nd ok pc] ev run by simp
next
  case (Fv_append lt p pt e lc)
  then have "nd1 = nd\<lparr>mn_follower := snd (handle_append R 1 (we_index e - 1) pt (we_index e) (we_term e) (we_type e) (we_payload e) lc (mn_follower nd))\<rparr>"
      "pc1 = pc" "in_log L e" using ev run by (auto simp: AppendEntry_node)
  then show ?thesis using append_request_node [OF nd ok, of e pt lc] pc by simp
next
  case (Fv_commit i t clk)
  then show ?thesis using commit_entry_node [OF nd(1), of clk i t] nd(2) pc run by auto
qed

lemma follower_run_node:
  assumes nd: "node_rel R nd s" "prefix (spec_entries s) L" and ok: "log_ok L" and evs: "list_all (follower_event_ok R L) evs"
    and run: "follower_run R peers evs nd = (pc', nd')"
  shows "boot_point_ok L pc' \<and> (\<exists>s'. node_rel R nd' s' \<and> prefix (spec_entries s') L \<and> length (spec_entries s) \<le> length (spec_entries s'))"
  using evs run
proof (induction evs arbitrary: pc' nd' rule: rev_induct)
  case (snoc ev evs)
  obtain pc1 nd1 where r1: "follower_run R peers evs nd = (pc1, nd1)" by fastforce
  obtain s1 where s1: "boot_point_ok L pc1" "node_rel R nd1 s1" "prefix (spec_entries s1) L" "length (spec_entries s) \<le> length (spec_entries s1)"
    using snoc.IH [OF _ r1] snoc.prems(1) by auto
  have "follower_step R peers ev (pc1, nd1) = (pc', nd')" using snoc.prems(2) r1 by (simp add: follower_run_def)
  from follower_event_node [OF s1(2,3) ok s1(1) _ this] snoc.prems(1) s1(4) show ?case by (auto intro: order_trans)
qed (use nd in \<open>auto simp: follower_run_def\<close>)

end

text \<open>The first three steps, when the streams do not break.\<close>

lemma boot_start:
  assumes l: "be_leader env = Some (w, c)" and rel: "wal_rel R w s" and ok: "snapshot_ok c"
    and env: "visits_all (be_ordn env)" "visits_all (be_ordc env)" "be_break_snapshot env = None" "be_break_log env = None" "peers \<noteq> []"
  shows "\<exists>c' data. fold (follower_step R peers) [Fv_boot env, Fv_boot env, Fv_boot env] (Boot_snapshot, nd) =
    (Boot_append (committed w) (committed w) 0 (drop (spec_committed s) (spec_entries s)) True,
     nd\<lparr>mn_coord := c', mn_follower := install_snapshot_lsn data (committed w) (mn_follower nd)\<rparr>)"
proof -
  define data where "data = fst (take_snapshot (be_ordn env) (be_ordc env) w c)"
  obtain c' where c': "install_snapshot data (mn_coord nd) = Inr (committed w, c')"
    using snapshot_restores [of c "be_ordn env" "be_ordc env" w "mn_coord nd"] ok env by (auto simp: data_def snapshot_ok_def list_all_iff)
  have "boot_receive env = Boot_install data"
    using l env install_stream_read [of "be_ordn env" "be_ordc env" w c] by (simp add: boot_receive_def broken_def data_def)
  moreover have "FetchLogEntries R True (committed w + 1) w = (drop (spec_committed s) (spec_entries s), None)"
    using FetchLogEntries_rel [OF rel wal_relD(2) [OF rel]] wal_relD(4) [OF rel] by (simp add: add.commute)
  then have "boot_entries R env (committed w) = Boot_append (committed w) (committed w) 0 (drop (spec_committed s) (spec_entries s)) True"
    using l env by (simp add: boot_entries_def broken_def)
  ultimately show ?thesis using c' env(5) by (intro exI [of _ c'] exI [of _ data]) (simp add: boot_installed_def)
qed

section \<open>Following a log of commands\<close>

text \<open>A follower with these commands in its log, the first \<open>k\<close> of them committed, and these tables.\<close>

definition node_log :: "'db rocksdb_ops \<Rightarrow> 'db meta_node \<Rightarrow> meta_cmd list \<Rightarrow> nat \<Rightarrow> coordinator \<Rightarrow> bool" where
  "node_log R nd cmds k c \<longleftrightarrow> mn_coord nd = c \<and> list_all (\<lambda>cmd. cmd_ok cmd \<and> payload_ok (cmd_payload cmd)) cmds \<and>
     (\<exists>s. node_rel R nd s \<and> spec_entries s = cmd_entries 0 1 cmds \<and> spec_committed s = k)"

lemma node_log_coord: "node_log R nd cmds k c \<Longrightarrow> node_log R (nd\<lparr>mn_coord := c', mn_follower := install_snapshot_lsn data lsn (mn_follower nd)\<rparr>) cmds k c'"
  by (auto simp: node_log_def node_rel_def)

context reliable_rocksdb
begin

lemma node_log_append:
  assumes nd: "node_log R nd cmds k c" and i: "i \<le> length cmds" and cmd: "i < length cmds \<Longrightarrow> cmd = cmds ! i"
    and ok: "cmd_ok cmd" "payload_ok (cmd_payload cmd)" and len: "length cmds < 2 ^ 64 - 2"
  shows "\<exists>f. handle_append R 1 (word_of_nat i) pt (word_of_nat (Suc i)) 1 (cmd_type cmd) (cmd_payload cmd) lc (mn_follower nd) = (Inr True, f) \<and>
    node_log R (nd\<lparr>mn_follower := f\<rparr>) (if i < length cmds then cmds else cmds @ [cmd]) k c"
proof -
  obtain s where s: "node_rel R nd s" "spec_entries s = cmd_entries 0 1 cmds" "spec_committed s = k" using nd by (auto simp: node_log_def)
  obtain r f where h: "handle_append R 1 (word_of_nat i) pt (word_of_nat (Suc i)) 1 (cmd_type cmd) (cmd_payload cmd) lc (mn_follower nd) = (r, f)"
    by fastforce
  have room: "length (spec_entries s) < 2 ^ 64 - 2" using s(2) len by simp
  obtain s' where s': "spec_handle_append (word_of_nat i) (word_of_nat (Suc i)) 1 (cmd_type cmd) (cmd_payload cmd) s = (r = Inr True, s')"
      "wal_rel R (fo_wal f) s'" "fo_term f = 1" "db_get R (wal_db (fo_wal f)) (wal_key 0) = None"
    using handle_append_rel [OF _ _ ok(2) type_ok_cmd room _ h] s(1) by (auto simp: node_rel_def)
  have u: "unat (word_of_nat (Suc i) :: u64) = Suc i" "unat (word_of_nat i :: u64) = i" using i len by (intro unat_u64_of_nat; simp)+
  then have nz: "(word_of_nat (Suc i) :: u64) \<noteq> 0" by (metis unat_0 nat.distinct(1))
  have "r = Inr True \<and> spec_entries s' = cmd_entries 0 1 (if i < length cmds then cmds else cmds @ [cmd]) \<and> spec_committed s' = k"
  proof (cases "i < length cmds")
    case True
    then show ?thesis using s'(1) u nz s(2,3) cmd
      by (auto simp: spec_handle_append_def Let_def nth_cmd_entries cmd_entry_def simp del: of_nat_Suc split: if_splits)
  next
    case False
    then have "i = length cmds" using i by simp
    then show ?thesis using s'(1) u nz s(2,3)
      by (auto simp: spec_handle_append_def spec_append_def cmd_entries_append cmd_entry_def simp del: of_nat_Suc split: if_splits)
  qed
  moreover have "list_all (\<lambda>cmd. cmd_ok cmd \<and> payload_ok (cmd_payload cmd)) (if i < length cmds then cmds else cmds @ [cmd])"
    using nd ok by (simp add: node_log_def)
  ultimately show ?thesis using h s'(2-4) nd by (auto simp: node_log_def node_rel_def)
qed

lemma node_log_commit:
  assumes nd: "node_log R nd cmds k c" and n: "n < length cmds"
  shows "\<exists>nd'. CommitEntry R clk (word_of_nat (Suc n)) t nd = (Inr True, nd') \<and>
    node_log R nd' cmds (max (Suc n) k) (apply_cmd (clk (word_of_nat (Suc n))) (cmds ! n) c)"
proof -
  obtain s where s: "node_rel R nd s" "spec_entries s = cmd_entries 0 1 cmds" "spec_committed s = k" using nd by (auto simp: node_log_def)
  have rel: "wal_rel R (fo_wal (mn_follower nd)) s" "\<forall>cmd \<in> set cmds. cmd_ok cmd" using s(1) nd by (auto simp: node_rel_def node_log_def list_all_iff)
  obtain nd' where nd': "CommitEntry R clk (word_of_nat (Suc n)) t nd = (Inr True, nd')" "wal_rel R (fo_wal (mn_follower nd')) (spec_commit (Suc n) s)"
      "mn_coord nd' = apply_cmd (clk (word_of_nat (Suc n))) (cmds ! n) (mn_coord nd)"
    using commit_any_rel [OF rel(1) s(2) rel(2) n, of clk t] by blast
  have "node_rel R nd' (spec_commit (Suc n) s)" using nd'(2) commit_follower [OF nd'(1)] s(1) by (simp add: node_rel_def)
  then show ?thesis using nd' nd s(2,3) by (auto simp: node_log_def spec_commit_def)
qed

end

section \<open>A small exchange\<close>

text \<open>The leader's log has a put of a chunk and, later, its deletion.\<close>

definition chunk_history :: "wal_entry list" where
  "chunk_history = cmd_entries 0 1 [Cmd_put ''x'' 9 2 [''n1''] 1, Cmd_delete ''x'']"

definition leader_log :: "mem_db wal" where
  "leader_log = snd (wal_append mem_rocksdb PUT_CHUNK 1 (cmd_payload (Cmd_put ''x'' 9 2 [''n1''] 1)) \<lparr>wal_db = [], last_index = 0, committed = 0\<rparr>)"

definition demo_boot :: "mem_db follower_event" where
  "demo_boot = Fv_boot \<lparr>be_leader = Some (leader_log, empty_coordinator), be_break_snapshot = None, be_break_log = None,
     be_clk = (\<lambda>_. 0), be_ordn = (\<lambda>xs. xs), be_ordc = (\<lambda>xs. xs)\<rparr>"

text \<open>The log stream has the put; then the replication thread delivers and commits both entries, and the bootstrap goes on.\<close>

definition late_requests :: "mem_db follower_event list" where
  "late_requests = replicate 3 demo_boot @ [Fv_append 1 0 1 (chunk_history ! 0) 0, Fv_commit 1 1 (\<lambda>_. 0),
     Fv_append 1 1 1 (chunk_history ! 1) 1, Fv_commit 2 1 (\<lambda>_. 0)] @ replicate 3 demo_boot"

lemma demo_payload_ok: "payload_ok (cmd_payload (Cmd_put ''x'' 9 2 [''n1''] 1))" "payload_ok (cmd_payload (Cmd_delete ''x''))"
proof -
  have "length (cmd_payload (Cmd_put ''x'' 9 2 [''n1''] 1)) = 11" by code_simp
  then show "payload_ok (cmd_payload (Cmd_put ''x'' 9 2 [''n1''] 1))" by (simp add: payload_ok_def)
qed (simp add: payload_ok_def)

lemma chunk_history_ok: "log_ok chunk_history"
  using demo_payload_ok by (auto simp: log_ok_def chunk_history_def cmd_entry_def less_Suc_eq)

lemma leader_log_rel: "wal_rel mem_rocksdb leader_log \<lparr>spec_entries = take 1 chunk_history, spec_committed = 0\<rparr>"
proof -
  obtain r w where w: "wal_append mem_rocksdb PUT_CHUNK 1 (cmd_payload (Cmd_put ''x'' 9 2 [''n1''] 1)) \<lparr>wal_db = [], last_index = 0, committed = 0\<rparr> = (r, w)"
    by fastforce
  have "wal_rel mem_rocksdb w (spec_append PUT_CHUNK 1 (cmd_payload (Cmd_put ''x'' 9 2 [''n1''] 1)) \<lparr>spec_entries = [], spec_committed = 0\<rparr>)"
    using mem.append_rel [OF mem_wal_empty demo_payload_ok(1) _ _ w] by simp
  then show ?thesis using w by (simp add: leader_log_def chunk_history_def spec_append_def cmd_entry_def)
qed

lemma late_requests_ok: "list_all (follower_event_ok mem_rocksdb chunk_history) late_requests"
proof -
  have "follower_event_ok mem_rocksdb chunk_history demo_boot"
    using leader_log_rel take_is_prefix [of 1 chunk_history] snapshot_ok_empty
    by (auto simp: demo_boot_def leader_ok_def intro!: exI [of _ "\<lparr>spec_entries = take 1 chunk_history, spec_committed = 0\<rparr>"])
  moreover have "in_log chunk_history (chunk_history ! 0)" "in_log chunk_history (chunk_history ! 1)"
    by (auto simp: in_log_def chunk_history_def)
  moreover have "we_index (chunk_history ! 0) = 1" "we_index (chunk_history ! 1) = 2" by (simp_all add: chunk_history_def cmd_entry_def)
  ultimately show ?thesis by (simp add: late_requests_def numeral_3_eq_3)
qed

lemma demo_boot_start:
  "\<exists>c nd. fold (follower_step mem_rocksdb [''leader:1'']) (replicate 3 demo_boot) (Boot_snapshot, fresh_node []) =
     (Boot_append 0 0 0 (take 1 chunk_history) True, nd) \<and> node_log mem_rocksdb nd [] 0 c"
proof -
  let ?env = "\<lparr>be_leader = Some (leader_log, empty_coordinator), be_break_snapshot = None, be_break_log = None,
     be_clk = (\<lambda>_. 0), be_ordn = (\<lambda>xs. xs), be_ordc = (\<lambda>xs. xs)\<rparr> :: mem_db boot_env"
  have "node_log mem_rocksdb (fresh_node []) [] 0 empty_coordinator"
    using mem_wal_empty by (auto simp: node_log_def node_rel_def fresh_node_def mem_rocksdb_def)
  from boot_start [of ?env, OF _ leader_log_rel snapshot_ok_empty] node_log_coord [OF this]
  show ?thesis using visits_all_id wal_relD(4) [OF leader_log_rel] by (fastforce simp: demo_boot_def numeral_3_eq_3)
qed

text \<open>The rest of the exchange, request by request.\<close>

lemma late_requests_run:
  "\<exists>nd c. follower_run mem_rocksdb [''leader:1''] late_requests (fresh_node []) = (Boot_done (Inr True), nd) \<and>
     node_log mem_rocksdb nd [Cmd_put ''x'' 9 2 [''n1''] 1, Cmd_delete ''x''] 2
       (apply_cmd 0 (Cmd_put ''x'' 9 2 [''n1''] 1) c)"
proof -
  let ?put = "Cmd_put ''x'' 9 2 [''n1''] 1" and ?del = "Cmd_delete ''x''"
  have ok: "cmd_ok ?put" "cmd_ok ?del" by (simp_all add: id_ok_def int32_def replicas_ok_def replica_ok_def)
  have ix: "(word_of_nat (Suc 0) :: u64) = 1" "(word_of_nat (Suc (Suc 0)) :: u64) = 2" by simp_all
  have h: "chunk_history ! 0 = cmd_entry 1 1 ?put" "chunk_history ! 1 = cmd_entry 2 1 ?del" "take 1 chunk_history = [cmd_entry 1 1 ?put]"
    by (simp_all add: chunk_history_def)
  obtain c nd where start: "fold (follower_step mem_rocksdb [''leader:1'']) (replicate 3 demo_boot) (Boot_snapshot, fresh_node []) =
     (Boot_append 0 0 0 (take 1 chunk_history) True, nd)" "node_log mem_rocksdb nd [] 0 c" using demo_boot_start by blast
  obtain f1 where a1: "handle_append mem_rocksdb 1 0 1 1 1 (cmd_type ?put) (cmd_payload ?put) 0 (mn_follower nd) = (Inr True, f1)"
      "node_log mem_rocksdb (nd\<lparr>mn_follower := f1\<rparr>) [?put] 0 c"
    using mem.node_log_append [OF start(2) _ _ ok(1) demo_payload_ok(1), of 0 1 0] ix by auto
  obtain nd2 where c1: "CommitEntry mem_rocksdb (\<lambda>_. 0) 1 1 (nd\<lparr>mn_follower := f1\<rparr>) = (Inr True, nd2)"
      "node_log mem_rocksdb nd2 [?put] 1 (apply_cmd 0 ?put c)"
    using mem.node_log_commit [OF a1(2), of 0 "\<lambda>_. 0" 1] ix by auto
  obtain f3 where a2: "handle_append mem_rocksdb 1 1 1 2 1 (cmd_type ?del) (cmd_payload ?del) 1 (mn_follower nd2) = (Inr True, f3)"
      "node_log mem_rocksdb (nd2\<lparr>mn_follower := f3\<rparr>) [?put, ?del] 1 (apply_cmd 0 ?put c)"
    using mem.node_log_append [OF c1(2) _ _ ok(2) demo_payload_ok(2), of 1 1 1] ix by (auto simp del: cmd_type.simps cmd_payload.simps)
  obtain nd4 where c2: "CommitEntry mem_rocksdb (\<lambda>_. 0) 2 1 (nd2\<lparr>mn_follower := f3\<rparr>) = (Inr True, nd4)"
      "node_log mem_rocksdb nd4 [?put, ?del] 2 (apply_cmd 0 ?del (apply_cmd 0 ?put c))"
    using mem.node_log_commit [OF a2(2), of 1 "\<lambda>_. 0" 1] ix by (auto simp: numeral_2_eq_2 [symmetric] simp del: apply_cmd.simps)
  obtain f5 where a3: "handle_append mem_rocksdb 1 0 0 1 1 (cmd_type ?put) (cmd_payload ?put) 0 (mn_follower nd4) = (Inr True, f5)"
      "node_log mem_rocksdb (nd4\<lparr>mn_follower := f5\<rparr>) [?put, ?del] 2 (apply_cmd 0 ?del (apply_cmd 0 ?put c))"
    using mem.node_log_append [OF c2(2) _ _ ok(1) demo_payload_ok(1), of 0 0 0] ix by (auto simp del: cmd_type.simps cmd_payload.simps apply_cmd.simps)
  obtain nd6 where c3: "CommitEntry mem_rocksdb (\<lambda>_. 0) 1 1 (nd4\<lparr>mn_follower := f5\<rparr>) = (Inr True, nd6)"
      "node_log mem_rocksdb nd6 [?put, ?del] 2 (apply_cmd 0 ?put (apply_cmd 0 ?del (apply_cmd 0 ?put c)))"
    using mem.node_log_commit [OF a3(2), of 0 "\<lambda>_. 0" 1] ix by (auto simp: numeral_2_eq_2 [symmetric] simp del: apply_cmd.simps)
  have "follower_run mem_rocksdb [''leader:1''] late_requests (fresh_node []) = (Boot_done (Inr True), nd6)"
    unfolding follower_run_def late_requests_def fold_append comp_def start(1) h using a1(1) c1(1) a2(1) c2(1) a3(1) c3(1)
    by (simp add: numeral_3_eq_3 AppendEntry_node cmd_entry_def demo_boot_def del: cmd_type.simps cmd_payload.simps)
  then show ?thesis using c3(2) by blast
qed

section \<open>Properties\<close>

text \<open>
  The bootstrap cut into steps is the bootstrap: with a leader that does not change meanwhile, at most
  \<open>boot_fuel\<close> uninterrupted steps take it to its return, with the result and the node of
  \<open>bootstrap_follower_from_leader\<close>, on every path.
\<close>

theorem boot_steps_bootstrap:
  "let (r, nd') = bootstrap_follower_from_leader R (be_clk env) (be_ordn env) (be_ordc env) peers (be_leader env)
      (be_break_snapshot env) (be_break_log env) nd
   in boot_steps (boot_fuel env) R peers env (Boot_snapshot, nd) = (Boot_done r, nd')"
  using boot_steps_result [of R env peers nd] by (auto split: prod.split)

text \<open>
  C16. The log of a follower is safe while it bootstraps. Whatever append and commit requests of the leader arrive
  between any two steps of the bootstrap, in any order and any number of times, wherever the streams break
  and however far the leader has got at each step, the follower's log is
  always a prefix of the leader's, and never shorter than it was.
\<close>

theorem bootstrap_log_matches:
  assumes db: "reliable_rocksdb R" and rel: "wal_rel R (fo_wal (mn_follower nd)) s" and pre: "prefix (spec_entries s) L" and ok: "log_ok L"
    and old: "db_get R (wal_db (fo_wal (mn_follower nd))) (wal_key 0) = None" "fo_term (mn_follower nd) \<le> 1"
    and evs: "list_all (follower_event_ok R L) evs" and run: "follower_run R peers evs nd = (pc, nd')"
  shows "\<exists>s'. wal_rel R (fo_wal (mn_follower nd')) s' \<and> prefix (spec_entries s') L \<and> length (spec_entries s) \<le> length (spec_entries s')"
proof -
  have "node_rel R nd s" using rel old by (simp add: node_rel_def)
  from reliable_rocksdb.follower_run_node [OF db this pre ok evs run] show ?thesis by (auto simp: node_rel_def)
qed

theorem bootstrap_log_matches_witness:
  "\<exists>s'. wal_rel mem_rocksdb (fo_wal (mn_follower (snd (follower_run mem_rocksdb [''leader:1''] late_requests (fresh_node []))))) s' \<and>
     prefix (spec_entries s') chunk_history"
proof -
  obtain pc nd' where run: "follower_run mem_rocksdb [''leader:1''] late_requests (fresh_node []) = (pc, nd')" by fastforce
  have "wal_rel mem_rocksdb (fo_wal (mn_follower (fresh_node []))) \<lparr>spec_entries = [], spec_committed = 0\<rparr>"
    "db_get mem_rocksdb (wal_db (fo_wal (mn_follower (fresh_node [])))) (wal_key 0) = None" "fo_term (mn_follower (fresh_node [] :: mem_db meta_node)) \<le> 1"
    using mem_wal_empty by (simp_all add: fresh_node_def mem_rocksdb_def)
  from bootstrap_log_matches [OF mem.reliable_rocksdb_axioms this(1) _ chunk_history_ok this(2,3) late_requests_ok run] run
  show ?thesis by auto
qed


end
