(* ===== verification/Put_Steps.thy ===== *)
theory Put_Steps
  imports Meta_Rpc
begin

text \<open>
  Puts as the threads of the gRPC server run them. \<^verbatim>\<open>MetaRpcService::PutChunk\<close> holds no lock
  across its body: it looks at the tables, calls the storage nodes one after the other, and writes
  to the log, and other handlers run in between. Here the handler is cut at these accesses to
  shared state. A call is a program point with the local variables that are live there, and
  \<open>put_step\<close> does what lies between two points. Run without interruption the steps are
  \<open>PutChunk\<close>. A run of the service interleaves the steps of any number of puts with deletions and
  heartbeats, whose handlers access the shared state once; which nodes answer, and which log
  writes succeed, may differ from step to step. One turn of the loop over the nodes is one step.
\<close>

section \<open>The handler, step by step\<close>

record put_req =
  pr_chunk_id :: string
  pr_size_bytes :: u64
  pr_desired_rf :: int
  pr_data :: string

text \<open>
  Before the check of the chunk's state, the selection of nodes, and the reading of the version;
  in the loop, with the nodes left, \<^verbatim>\<open>version\<close>, \<^verbatim>\<open>replica_entries\<close>, \<^verbatim>\<open>successful_addrs\<close> and
  \<^verbatim>\<open>failed_ids\<close>; before the log write; in the loop that removes the data again, with the
  addresses left and the error text; returned.
\<close>

datatype put_point =
    Put_check
  | Put_place
  | Put_version "string list"
  | Put_write "string list" u64 "string list" "string list" string
  | Put_log u64 "string list" "string list"
  | Put_undo "string list" string
  | Put_done "cxx_exc + put_resp"

definition put_state_check :: "rpc_service \<Rightarrow> put_req \<Rightarrow> coordinator \<Rightarrow> put_point" where
  "put_state_check svc req coord =
     (if \<not> rs_repl svc then Put_done (Inr (Inl ''NotLeader''))
      else if (case get_chunk coord (pr_chunk_id req) of Some e \<Rightarrow> ce_config_state e = TRANSITIONING | None \<Rightarrow> False)
      then Put_done (Inr (Inl ''ChunkTransitioning''))
      else Put_place)"

definition put_placement :: "rpc_service \<Rightarrow> 'db rpc_env \<Rightarrow> put_req \<Rightarrow> coordinator \<Rightarrow> put_point" where
  "put_placement svc env req coord =
     (let pcfg = default_placement_config\<lparr>random_placement := (rs_mode svc = ''baseline'')\<rparr>;
          alive = get_alive_nodes (env_ord env) coord;
          nodes = select_nodes pcfg (env_shuffle env) (pr_desired_rf req) alive []
      in if cast_int (length nodes) < pr_desired_rf req then Put_done (Inr (Inl ''not enough nodes'')) else Put_version nodes)"

definition put_majority :: "u64 \<Rightarrow> string list \<Rightarrow> string list \<Rightarrow> string \<Rightarrow> put_point" where
  "put_majority version entries addrs failed =
     (if length addrs < length entries div 2 + 1
      then Put_undo addrs (if failed = [] then ''storage majority unavailable''
             else ''storage majority unavailable: '' @ failed)
      else Put_log version entries addrs)"

definition put_log_write :: "'db rpc_env \<Rightarrow> put_req \<Rightarrow> u64 \<Rightarrow> string list \<Rightarrow> string list \<Rightarrow> 'db rpc_state \<Rightarrow> put_point \<times> 'db rpc_state" where
  "put_log_write env req version entries addrs s =
     (case logged_write (env_outcome env) (env_clk env) PUT_CHUNK
             (encode_put_payload (pr_chunk_id req) (pr_size_bytes req) (pr_desired_rf req) version entries) (st_coord s) of
        Inl x \<Rightarrow> (Put_done (Inl x), s)
      | Inr (False, _) \<Rightarrow> (Put_undo addrs ''metadata quorum unavailable after storage write'', s)
      | Inr (True, coord1) \<Rightarrow> (Put_done (Inr (Inr (version, entries))), s\<lparr>st_coord := coord1\<rparr>))"

fun put_step :: "rpc_service \<Rightarrow> 'db rpc_env \<Rightarrow> put_req \<Rightarrow> put_point \<Rightarrow> 'db rpc_state \<Rightarrow> put_point \<times> 'db rpc_state" where
  "put_step svc env req Put_check s = (put_state_check svc req (st_coord s), s)"
| "put_step svc env req Put_place s = (put_placement svc env req (st_coord s), s)"
| "put_step svc env req (Put_version nodes) s = (Put_write nodes (next_version (st_coord s) (pr_chunk_id req)) [] [] [], s)"
| "put_step svc env req (Put_write (n # ns) version entries addrs failed) s =
     (let entry = encode_replica_target (env_ord env) (st_coord s) n;
          addr = rpc_replica_address (env_ord env) (st_coord s) entry;
          (ok, nodes1) = write_chunk_to_replica (env_db env) (env_up env) addr (pr_chunk_id req) version (pr_data req) (st_nodes s)
      in (Put_write ns version (entries @ [entry]) (if ok then addrs @ [addr] else addrs)
            (if ok then failed else failed @ strip_node_id entry @ '';''), s\<lparr>st_nodes := nodes1\<rparr>))"
| "put_step svc env req (Put_write [] version entries addrs failed) s = (put_majority version entries addrs failed, s)"
| "put_step svc env req (Put_log version entries addrs) s = put_log_write env req version entries addrs s"
| "put_step svc env req (Put_undo (a # as) err) s =
     (Put_undo as err, s\<lparr>st_nodes := delete_chunk_from_replica (env_db env) (env_up env) a (pr_chunk_id req) (st_nodes s)\<rparr>)"
| "put_step svc env req (Put_undo [] err) s = (Put_done (Inr (Inl err)), s)"
| "put_step svc env req (Put_done r) s = (Put_done r, s)"

section \<open>A handler left alone\<close>

text \<open>How many steps a call has left at most; \<open>rf\<close> bounds the nodes a placement selects.\<close>

fun put_fuel :: "nat \<Rightarrow> put_point \<Rightarrow> nat" where
  "put_fuel rf Put_check = 2 * rf + 7"
| "put_fuel rf Put_place = 2 * rf + 6"
| "put_fuel rf (Put_version nodes) = 2 * length nodes + 5"
| "put_fuel rf (Put_write ns _ _ addrs _) = 2 * length ns + length addrs + 4"
| "put_fuel rf (Put_log _ _ addrs) = length addrs + 3"
| "put_fuel rf (Put_undo as _) = length as + 2"
| "put_fuel rf (Put_done _) = 0"

fun put_returned :: "put_point \<Rightarrow> bool" where
  "put_returned (Put_done _) = True"
| "put_returned _ = False"

fun put_steps :: "nat \<Rightarrow> rpc_service \<Rightarrow> 'db rpc_env \<Rightarrow> put_req \<Rightarrow> put_point \<times> 'db rpc_state \<Rightarrow> put_point \<times> 'db rpc_state" where
  "put_steps 0 svc env req ps = ps"
| "put_steps (Suc n) svc env req (pc, s) = put_steps n svc env req (put_step svc env req pc s)"

lemma put_steps_add: "put_steps (m + n) svc env req ps = put_steps n svc env req (put_steps m svc env req ps)"
proof (induction m arbitrary: ps)
  case (Suc m)
  then show ?case by (cases ps) simp
qed simp

lemma put_steps_done [simp]: "put_steps n svc env req (Put_done r, s) = (Put_done r, s)"
  by (induction n) auto

text \<open>The loop over the nodes is a prefix of the run.\<close>

lemma put_steps_loop:
  "put_loop env (st_coord s) (pr_chunk_id req) v (pr_data req) ns (st_nodes s) = (es', as', f', nodes') \<Longrightarrow>
   put_steps (length ns) svc env req (Put_write ns v es as f, s) = (Put_write [] v (es @ es') (as @ as') (f @ f'), s\<lparr>st_nodes := nodes'\<rparr>)"
proof (induction ns arbitrary: s es as f es' as' f' nodes')
  case (Cons n ns)
  let ?e = "encode_replica_target (env_ord env) (st_coord s) n"
  let ?a = "rpc_replica_address (env_ord env) (st_coord s) ?e"
  obtain ok n1 where w: "write_chunk_to_replica (env_db env) (env_up env) ?a (pr_chunk_id req) v (pr_data req) (st_nodes s) = (ok, n1)"
    by fastforce
  obtain es2 as2 f2 n2 where l: "put_loop env (st_coord s) (pr_chunk_id req) v (pr_data req) ns n1 = (es2, as2, f2, n2)"
    by (metis prod.exhaust)
  have "put_loop env (st_coord (s\<lparr>st_nodes := n1\<rparr>)) (pr_chunk_id req) v (pr_data req) ns (st_nodes (s\<lparr>st_nodes := n1\<rparr>)) = (es2, as2, f2, n2)"
    using l by simp
  note IH = Cons.IH [OF this]
  show ?case using Cons.prems w l IH by (auto simp: Let_def)
qed simp

lemma put_steps_undo:
  "put_steps (length as + 1) svc env req (Put_undo as err, s) = (Put_done (Inr (Inl err)),
     s\<lparr>st_nodes := fold (\<lambda>addr. delete_chunk_from_replica (env_db env) (env_up env) addr (pr_chunk_id req)) as (st_nodes s)\<rparr>)"
  by (induction as arbitrary: s) auto

lemma put_steps_reach:
  assumes "put_steps m svc env req ps = (Put_done r, s')" and "m \<le> n"
  shows "put_steps n svc env req ps = (Put_done r, s')"
  using put_steps_add [of m "n - m" svc env req ps] assms by simp

lemma put_loop_lengths:
  "put_loop env coord cid v data ns nodes = (entries, addrs, failed, nodes') \<Longrightarrow> length entries = length ns \<and> length addrs \<le> length ns"
proof (induction ns arbitrary: nodes entries addrs failed)
  case (Cons n ns)
  then show ?case by (fastforce simp: Let_def split: prod.splits if_splits)
qed simp

lemma select_greedy_length: "length (select_greedy cfg k candidates chosen) \<le> k"
  by (induction k arbitrary: candidates chosen) (auto simp: Let_def)

lemma select_nodes_length: "length (select_nodes cfg shuffle n alive exclude) \<le> nat n"
  using select_greedy_length [of cfg "nat n" "filter (\<lambda>x. ne_node_id x \<notin> set exclude) alive" "[]"]
  by (auto simp: select_nodes_def Let_def)

lemma put_steps_log:
  assumes "put_log_write env req v es as s = (pc, s1)"
  shows "put_steps (length as + 2) svc env req (Put_log v es as, s) = put_steps (length as + 1) svc env req (pc, s1)"
  using assms by simp

text \<open>From the loop on: at most \<open>2 * length ns + 4\<close> steps to the result.\<close>

lemma put_steps_write:
  assumes l: "put_loop env (st_coord s) (pr_chunk_id req) v (pr_data req) ns (st_nodes s) = (es, as, f, nodes1)"
  shows "put_steps (length ns + 1) svc env req (Put_write ns v [] [] [], s) = (put_majority v es as f, s\<lparr>st_nodes := nodes1\<rparr>)"
  using put_steps_loop [OF l, where svc = svc and es = "[]" and as = "[]" and f = "[]"]
    put_steps_add [of "length ns" 1 svc env req "(Put_write ns v [] [] [], s)"] by simp

lemma put_steps_majority:
  assumes "length as \<le> n"
  shows "put_steps (n + 2) svc env req (put_majority v es as f, s) =
    (if length as < length es div 2 + 1
     then (Put_done (Inr (Inl (if f = [] then ''storage majority unavailable'' else ''storage majority unavailable: '' @ f))),
           s\<lparr>st_nodes := fold (\<lambda>addr. delete_chunk_from_replica (env_db env) (env_up env) addr (pr_chunk_id req)) as (st_nodes s)\<rparr>)
     else case logged_write (env_outcome env) (env_clk env) PUT_CHUNK
             (encode_put_payload (pr_chunk_id req) (pr_size_bytes req) (pr_desired_rf req) v es) (st_coord s) of
        Inl x \<Rightarrow> (Put_done (Inl x), s)
      | Inr (False, _) \<Rightarrow> (Put_done (Inr (Inl ''metadata quorum unavailable after storage write'')),
           s\<lparr>st_nodes := fold (\<lambda>addr. delete_chunk_from_replica (env_db env) (env_up env) addr (pr_chunk_id req)) as (st_nodes s)\<rparr>)
      | Inr (True, coord1) \<Rightarrow> (Put_done (Inr (Inr (v, es))), s\<lparr>st_coord := coord1\<rparr>))"
proof (cases "length as < length es div 2 + 1")
  case True
  then show ?thesis
    using put_steps_reach [OF put_steps_undo, of as "n + 2" svc env req] assms by (simp add: put_majority_def del: put_steps.simps)
next
  case False
  obtain pc s1 where w: "put_log_write env req v es as s = (pc, s1)" by fastforce
  have u: "put_steps (n + 1) svc env req (Put_undo as err, s) = (Put_done (Inr (Inl err)),
      s\<lparr>st_nodes := fold (\<lambda>addr. delete_chunk_from_replica (env_db env) (env_up env) addr (pr_chunk_id req)) as (st_nodes s)\<rparr>)" for err
    using put_steps_reach [OF put_steps_undo, of as "n + 1" svc env req err s] assms by simp
  have "put_steps (n + 2) svc env req (Put_log v es as, s) = put_steps (n + 1) svc env req (put_log_write env req v es as s)"
    by simp
  then show ?thesis using False u
    by (auto simp: put_majority_def put_log_write_def simp del: put_steps.simps split: sum.split prod.split bool.split)
qed

lemma put_steps_run:
  "put_steps (2 * nat (pr_desired_rf req) + 7) svc env req (Put_check, s) =
     (let (r, s') = PutChunk svc env (pr_chunk_id req) (pr_size_bytes req) (pr_desired_rf req) (pr_data req) s in (Put_done r, s'))"
proof -
  let ?rf = "pr_desired_rf req"
  let ?ns = "put_nodes svc env ?rf (st_coord s)" and ?v = "next_version (st_coord s) (pr_chunk_id req)"
  obtain es as f nodes1 where l: "put_loop env (st_coord s) (pr_chunk_id req) ?v (pr_data req) ?ns (st_nodes s) = (es, as, f, nodes1)"
    by (metis prod.exhaust)
  have len: "length ?ns \<le> nat ?rf" "length as \<le> nat ?rf"
    using select_nodes_length put_loop_lengths [OF l] by (auto intro: order_trans)
  define k where "k = 2 * nat ?rf - length ?ns + 1"
  have three: "2 * nat ?rf + 5 = Suc ((length ?ns + 1) + (k + 2))" using len by (simp add: k_def)
  have "length as \<le> k" using len put_loop_lengths [OF l] unfolding k_def by linarith
  note tail = put_steps_majority [OF this, of svc env req ?v es f "s\<lparr>st_nodes := nodes1\<rparr>"]
  have from_version: "put_steps (2 * nat ?rf + 5) svc env req (Put_version ?ns, s) =
      put_steps (k + 2) svc env req (put_majority ?v es as f, s\<lparr>st_nodes := nodes1\<rparr>)"
    unfolding three put_steps.simps(2) put_step.simps(3) put_steps_add [of "length ?ns + 1" "k + 2"] put_steps_write [OF l] ..
  have two: "2 * nat ?rf + 7 = Suc (Suc (2 * nat ?rf + 5))" by simp
  have chk: "put_steps (2 * nat ?rf + 7) svc env req (Put_check, s) =
      (case put_state_check svc req (st_coord s) of
         Put_place \<Rightarrow> (case put_placement svc env req (st_coord s) of
             Put_version ns \<Rightarrow> put_steps (2 * nat ?rf + 5) svc env req (Put_version ns, s) | pc \<Rightarrow> (pc, s))
       | pc \<Rightarrow> (pc, s))"
    unfolding two put_steps.simps(2) put_step.simps(1)
    by (auto simp: put_state_check_def put_placement_def Let_def split: option.split)
  show ?thesis
    unfolding chk put_state_check_def put_placement_def Let_def PutChunk_def
    by (simp only: from_version tail l prod.case put_point.case if_split_eq1 split: if_split) (simp split: sum.split prod.split bool.split)
qed

text \<open>Whatever the state at each step, a step that has not returned brings the call closer to its return.\<close>

lemma put_step_fuel:
  assumes "\<not> put_returned pc"
  shows "put_fuel (nat (pr_desired_rf req)) (fst (put_step svc env req pc s)) < put_fuel (nat (pr_desired_rf req)) pc"
proof (cases "(svc, env, req, pc, s)" rule: put_step.cases)
  case (2 svc env req s)
  then show ?thesis
    using select_nodes_length [of "default_placement_config\<lparr>random_placement := (rs_mode svc = ''baseline'')\<rparr>" "env_shuffle env"
        "pr_desired_rf req" "get_alive_nodes (env_ord env) (st_coord s)" "[]"]
    by (auto simp: put_placement_def Let_def)
qed (use assms in \<open>auto simp: put_state_check_def put_majority_def put_log_write_def Let_def
       split: option.split prod.split sum.split bool.split\<close>)

section \<open>Interleaved handlers\<close>

record 'db put_system =
  ps_state :: "'db rpc_state"
  ps_calls :: "(put_req \<times> put_point) list"

datatype 'db rpc_event =
    Ev_put put_req
  | Ev_put_step nat "'db rpc_env"
  | Ev_delete string "'db rpc_env"
  | Ev_heartbeat heartbeat_req "'db rpc_env"

definition move_call :: "rpc_service \<Rightarrow> 'db rpc_env \<Rightarrow> nat \<Rightarrow> 'db put_system \<Rightarrow> 'db put_system" where
  "move_call svc env i sys =
     (if i < length (ps_calls sys)
      then let (req, pc) = ps_calls sys ! i; (pc1, s1) = put_step svc env req pc (ps_state sys)
           in \<lparr>ps_state = s1, ps_calls = (ps_calls sys)[i := (req, pc1)]\<rparr>
      else sys)"

text \<open>A handler left by an exception has not changed the tables.\<close>

fun rpc_event_step :: "rpc_service \<Rightarrow> 'db rpc_event \<Rightarrow> 'db put_system \<Rightarrow> 'db put_system" where
  "rpc_event_step svc (Ev_put req) sys = sys\<lparr>ps_calls := ps_calls sys @ [(req, Put_check)]\<rparr>"
| "rpc_event_step svc (Ev_put_step i env) sys = move_call svc env i sys"
| "rpc_event_step svc (Ev_delete cid env) sys =
     (case DeleteChunk svc env cid (st_coord (ps_state sys)) of
        Inl _ \<Rightarrow> sys
      | Inr (_, coord1) \<Rightarrow> sys\<lparr>ps_state := (ps_state sys)\<lparr>st_coord := coord1\<rparr>\<rparr>)"
| "rpc_event_step svc (Ev_heartbeat req env) sys =
     (case NodeHeartbeat svc env req (ps_state sys) of
        Inl _ \<Rightarrow> sys
      | Inr (_, s1) \<Rightarrow> sys\<lparr>ps_state := s1\<rparr>)"

definition rpc_run :: "rpc_service \<Rightarrow> 'db rpc_event list \<Rightarrow> 'db rpc_state \<Rightarrow> 'db put_system" where
  "rpc_run svc evs s = fold (rpc_event_step svc) evs \<lparr>ps_state = s, ps_calls = []\<rparr>"

fun moves_call :: "nat \<Rightarrow> 'db rpc_event \<Rightarrow> bool" where
  "moves_call i (Ev_put_step j env) \<longleftrightarrow> j = i"
| "moves_call i _ \<longleftrightarrow> False"

text \<open>One event and one call: the call stays in its place, and moves if the event is its step.\<close>

lemma event_step_call:
  assumes "i < length (ps_calls sys)" and "ps_calls sys ! i = (req, pc)"
  shows "i < length (ps_calls (rpc_event_step svc ev sys)) \<and>
    (\<exists>pc'. ps_calls (rpc_event_step svc ev sys) ! i = (req, pc') \<and>
       (if moves_call i ev \<and> \<not> put_returned pc then put_fuel (nat (pr_desired_rf req)) pc' < put_fuel (nat (pr_desired_rf req)) pc else pc' = pc))"
proof (cases ev)
  case (Ev_put_step j env)
  obtain pc1 s1 where p: "put_step svc env req pc (ps_state sys) = (pc1, s1)" by fastforce
  have stay: "pc1 = pc" if "put_returned pc" using that p by (cases pc) auto
  have "put_fuel (nat (pr_desired_rf req)) pc1 < put_fuel (nat (pr_desired_rf req)) pc" if "\<not> put_returned pc"
    using put_step_fuel [OF that, of req svc env "ps_state sys"] p by simp
  then show ?thesis using Ev_put_step assms p stay
    by (cases "j = i") (auto simp: move_call_def split: prod.split)
qed (use assms in \<open>auto simp: nth_append split: sum.split\<close>)

lemma moves_lower_fuel:
  assumes "i < length (ps_calls sys)" and "ps_calls sys ! i = (req, pc)"
  shows "\<exists>pc'. ps_calls (fold (rpc_event_step svc) evs sys) ! i = (req, pc') \<and>
    put_fuel (nat (pr_desired_rf req)) pc' + min (length (filter (moves_call i) evs)) (put_fuel (nat (pr_desired_rf req)) pc)
      \<le> put_fuel (nat (pr_desired_rf req)) pc"
  using assms
proof (induction evs arbitrary: sys pc)
  case (Cons ev evs)
  let ?f = "put_fuel (nat (pr_desired_rf req))"
  obtain pc1 where 1: "i < length (ps_calls (rpc_event_step svc ev sys))" "ps_calls (rpc_event_step svc ev sys) ! i = (req, pc1)"
      "if moves_call i ev \<and> \<not> put_returned pc then ?f pc1 < ?f pc else pc1 = pc"
    using event_step_call [OF Cons.prems] by blast
  obtain pc2 where 2: "ps_calls (fold (rpc_event_step svc) evs (rpc_event_step svc ev sys)) ! i = (req, pc2)"
      "?f pc2 + min (length (filter (moves_call i) evs)) (?f pc1) \<le> ?f pc1"
    using Cons.IH [OF 1(1,2)] by blast
  have "put_returned pc \<Longrightarrow> ?f pc = 0" by (cases pc) auto
  then show ?case using 1(3) 2 by (intro exI [of _ pc2]) (auto simp: min_def split: if_splits)
qed simp

section \<open>What an operator has to ensure\<close>

definition env_ok :: "'db rocksdb_ops \<Rightarrow> 'db rpc_env \<Rightarrow> bool" where
  "env_ok R env \<longleftrightarrow> env_db env = R \<and> visits_all (env_ord env) \<and> visits_all (env_shuffle env)"

definition name_fits :: "string \<Rightarrow> bool" where
  "name_fits nid \<longleftrightarrow> replica_ok nid \<and> CHR ''='' \<notin> set nid"

fun rpc_event_ok :: "'db rocksdb_ops \<Rightarrow> 'db rpc_event \<Rightarrow> bool" where
  "rpc_event_ok R (Ev_put req) = (id_ok (pr_chunk_id req) \<and> name_ok (pr_chunk_id req) \<and> int32 (pr_desired_rf req))"
| "rpc_event_ok R (Ev_put_step i env) = env_ok R env"
| "rpc_event_ok R (Ev_delete cid env) = True"
| "rpc_event_ok R (Ev_heartbeat req env) =
     (cmd_ok (Cmd_heartbeat (hb_node_id req) (hb_address req) (hb_load_fraction req) (hb_free_bytes req) (hb_total_bytes req) (hb_failure_rate_7d req)) \<and>
      name_fits (hb_node_id req) \<and> CHR '','' \<notin> set (hb_address req))"

text \<open>The state of the service: nodes with names that fit, sound stores, and versions up to \<open>k\<close>.\<close>

definition table_ok :: "coordinator \<Rightarrow> bool" where
  "table_ok c \<longleftrightarrow> coord_inv c \<and> (\<forall>nid n. um_find (node_table c) nid = Some n \<longrightarrow> node_ok n \<and> CHR ''='' \<notin> set (ne_node_id n))"

definition service_ok :: "'db rocksdb_ops \<Rightarrow> nat \<Rightarrow> 'db rpc_state \<Rightarrow> bool" where
  "service_ok R k s \<longleftrightarrow> table_ok (st_coord s) \<and> peers_wf R (st_nodes s) \<and> length (node_table (st_coord s)) \<le> k \<and>
     (\<forall>cid e. get_chunk (st_coord s) cid = Some e \<longrightarrow> unat (ce_version e) \<le> k)"

text \<open>Requests that touch a chunk, and those that put it.\<close>

fun deletes_chunk :: "string \<Rightarrow> 'db rpc_event \<Rightarrow> bool" where
  "deletes_chunk cid (Ev_delete c env) \<longleftrightarrow> c = cid"
| "deletes_chunk cid _ \<longleftrightarrow> False"

fun puts_chunk :: "string \<Rightarrow> 'db rpc_event \<Rightarrow> bool" where
  "puts_chunk cid (Ev_put req) \<longleftrightarrow> pr_chunk_id req = cid"
| "puts_chunk cid _ \<longleftrightarrow> False"

section \<open>Storage under other calls\<close>

context reliable_rocksdb
begin

text \<open>A write leaves every other chunk and version at every node alone, and a repeated write its data.\<close>

lemma write_remote_keeps_data:
  assumes has: "node_has R nodes a c w x" and name: "name_ok cid" "name_ok c" and same: "c = cid \<and> w = v \<Longrightarrow> x = data"
  shows "node_has R (snd (write_remote R up addr cid v data nodes)) a c w x"
proof (cases "a = addr")
  case False
  then show ?thesis using has write_remote_other [OF False, of R up cid v data nodes] by (simp add: node_has_def)
next
  case True
  obtain sn d where sn: "um_find nodes a = Some sn" "sn_store sn = Some d" "store_abs R d c w = Some x"
    using has by (auto simp: node_has_def)
  obtain ok d' where w: "store_write R cid v data (Some d) = (ok, Some d')"
    by (cases "db_put R d (make_key cid v) data") (auto simp: store_write_def)
  have ok: ok using w put_succeeds [of d "make_key cid v" data] by (auto simp: store_write_def split: prod.splits)
  have "store_abs R d' c w = Some x" using write_abs [OF w [unfolded ok [THEN eqTrueI]] name(1,2)] sn(3) same by auto
  then show ?thesis using has sn(1,2) w True by (auto simp: write_remote_def WriteChunk_def node_has_def)
qed

lemma write_to_replica_keeps:
  assumes "node_has R nodes a c w x" and "name_ok cid" "name_ok c" and "c = cid \<and> w = v \<Longrightarrow> x = data"
  shows "node_has R (snd (write_chunk_to_replica R up addr cid v data nodes)) a c w x"
  using write_remote_keeps_data [OF assms] assms(1) by (simp add: write_chunk_to_replica_eq)

lemma delete_from_replica_keeps:
  assumes has: "node_has R nodes a c w x" and name: "name_ok cid" "name_ok c" and other: "c \<noteq> cid" and wf: "peers_wf R nodes"
  shows "node_has R (delete_chunk_from_replica R up addr cid nodes) a c w x"
proof (cases "a = addr")
  case False
  then show ?thesis using has delete_other [OF False, of R up cid nodes] by (simp add: node_has_def)
next
  case True
  obtain sn d where sn: "um_find nodes a = Some sn" "sn_store sn = Some d" "store_abs R d c w = Some x"
    using has by (auto simp: node_has_def)
  obtain ok d' where rm: "store_remove R cid (Some d) = (ok, Some d')"
    by (cases "db_delete_range R d (make_key cid 0) (chunk_prefix cid @ ''~'')") (auto simp: store_remove_def)
  have "ok" using rm delete_succeeds [of d "make_key cid 0" "chunk_prefix cid @ ''~''"] by (auto simp: store_remove_def split: prod.splits)
  moreover have "store_wf R d" using wf sn unfolding peers_wf_def by blast
  ultimately have "store_abs R d' c w = Some x" using remove_abs [of cid d d'] rm name other sn(3) by auto
  then show ?thesis using has sn(1,2) rm True
    by (auto simp: delete_chunk_from_replica_def DeleteChunkData_def node_has_def)
qed

lemma delete_from_replica_wf:
  assumes "peers_wf R nodes" and "name_ok cid"
  shows "peers_wf R (delete_chunk_from_replica R up addr cid nodes)"
  using delete_reached [OF assms, of up addr] assms(1)
  by (cases "addr = [] \<or> \<not> up addr") (auto simp: delete_chunk_from_replica_def split: option.split)

end

section \<open>Calls in progress\<close>

definition selection_ok :: "put_req \<Rightarrow> string list \<Rightarrow> bool" where
  "selection_ok req ns \<longleftrightarrow> distinct ns \<and> length ns = nat (pr_desired_rf req) \<and> list_all name_fits ns"

definition request_ok :: "put_req \<Rightarrow> bool" where
  "request_ok req \<longleftrightarrow> id_ok (pr_chunk_id req) \<and> name_ok (pr_chunk_id req) \<and> int32 (pr_desired_rf req)"

fun call_wf :: "nat \<Rightarrow> put_req \<Rightarrow> put_point \<Rightarrow> bool" where
  "call_wf k req (Put_version ns) \<longleftrightarrow> selection_ok req ns"
| "call_wf k req (Put_write ns v es as f) \<longleftrightarrow> selection_ok req (map extract_node_id es @ ns) \<and> list_all replica_ok es \<and> unat v \<le> k \<and>
     length as \<le> length es"
| "call_wf k req (Put_log v es as) \<longleftrightarrow> selection_ok req (map extract_node_id es) \<and> list_all replica_ok es \<and> unat v \<le> k \<and>
     length es < 2 * length as \<and> length as \<le> length es"
| "call_wf k req _ \<longleftrightarrow> True"

text \<open>The replica entries whose nodes have taken the data.\<close>

definition put_holds :: "'db rocksdb_ops \<Rightarrow> 'db rpc_state \<Rightarrow> put_req \<Rightarrow> u64 \<Rightarrow> string list \<Rightarrow> string list \<Rightarrow> bool" where
  "put_holds R s req v es as \<longleftrightarrow> (\<exists>oks. subseq oks es \<and> as = map (\<lambda>r. resolve_address r []) oks \<and>
     (\<forall>r \<in> set oks. node_has R (st_nodes s) (resolve_address r []) (pr_chunk_id req) v (pr_data req)))"

text \<open>What holds of a call whose chunk no other handler touches; \<open>c\<close> are the tables before it.\<close>

fun call_good :: "'db rocksdb_ops \<Rightarrow> coordinator \<Rightarrow> 'db rpc_state \<Rightarrow> put_req \<Rightarrow> put_point \<Rightarrow> bool" where
  "call_good R c s req (Put_write ns v es as f) \<longleftrightarrow> get_chunk (st_coord s) (pr_chunk_id req) = get_chunk c (pr_chunk_id req) \<and>
     v = next_version c (pr_chunk_id req) \<and> put_holds R s req v es as"
| "call_good R c s req (Put_log v es as) \<longleftrightarrow> get_chunk (st_coord s) (pr_chunk_id req) = get_chunk c (pr_chunk_id req) \<and>
     v = next_version c (pr_chunk_id req) \<and> put_holds R s req v es as"
| "call_good R c s req (Put_done (Inr (Inr (v, es)))) \<longleftrightarrow> v = next_version c (pr_chunk_id req) \<and> selection_ok req (map extract_node_id es) \<and>
     get_chunk (st_coord s) (pr_chunk_id req) = Some \<lparr>ce_chunk_id = pr_chunk_id req, ce_version = v, ce_replica_set = es,
       ce_replication_factor = pr_desired_rf req, ce_config_state = STABLE, ce_old_replica_set = [], ce_size_bytes = pr_size_bytes req\<rparr> \<and>
     (\<exists>as. length es < 2 * length as \<and> put_holds R s req v es as)"
| "call_good R c s req (Put_done _) \<longleftrightarrow> True"
| "call_good R c s req (Put_undo _ _) \<longleftrightarrow> True"
| "call_good R c s req _ \<longleftrightarrow> get_chunk (st_coord s) (pr_chunk_id req) = get_chunk c (pr_chunk_id req)"

lemma next_version_cong: "get_chunk c cid = get_chunk d cid \<Longrightarrow> next_version c cid = next_version d cid"
  by (simp add: next_version_def get_chunk_def)

lemma call_good_mono:
  assumes good: "call_good R c s req pc" and chunk: "get_chunk (st_coord s') (pr_chunk_id req) = get_chunk (st_coord s) (pr_chunk_id req)"
    and data: "\<And>a v x. node_has R (st_nodes s) a (pr_chunk_id req) v x \<Longrightarrow> node_has R (st_nodes s') a (pr_chunk_id req) v x"
  shows "call_good R c s' req pc"
proof -
  have holds: "put_holds R s req v es as \<Longrightarrow> put_holds R s' req v es as" for v es as
    using data unfolding put_holds_def by metis
  show ?thesis using good chunk holds by (cases "(R, c, s, req, pc)" rule: call_good.cases) fastforce+
qed

text \<open>The target of a turn of the loop: an alive node with its address, or the bare name of a dead one.\<close>

lemma put_target:
  assumes tab: "table_ok c" and ord: "visits_all ord" and nid: "name_fits nid"
  defines "e \<equiv> encode_replica_target ord c nid"
  shows "extract_node_id e = nid" "replica_ok e"
    "rpc_replica_address ord c e \<noteq> [] \<Longrightarrow> rpc_replica_address ord c e = resolve_address e []"
proof -
  have inv: "coord_inv c" using tab by (simp add: table_ok_def)
  have eq: "CHR ''='' \<notin> set nid" "replica_ok nid" using nid by (auto simp: name_fits_def)
  have no: "find_char CHR ''='' nid = None" using eq(1) by (simp add: find_char_None)
  show "extract_node_id e = nid" "replica_ok e"
    "rpc_replica_address ord c e \<noteq> [] \<Longrightarrow> rpc_replica_address ord c e = resolve_address e []"
  proof (atomize (full), cases "List.find (\<lambda>n. ne_node_id n = nid) (get_alive_nodes ord c)")
    case None
    then have "e = nid" using no by (simp add: e_def encode_replica_target_def)
    then show "extract_node_id e = nid \<and> replica_ok e \<and>
      (rpc_replica_address ord c e \<noteq> [] \<longrightarrow> rpc_replica_address ord c e = resolve_address e [])"
      unfolding extract_node_id_def rpc_replica_address_def by (simp only: no None option.case eq) simp
  next
    case (Some n)
    then have n: "n \<in> set (get_alive_nodes ord c)" "ne_node_id n = nid" by (auto simp: find_Some_iff)
    then have ok: "node_ok n" using alive_nodes_iff [OF ord inv] tab by (auto simp: table_ok_def)
    note t = alive_target [OF ord inv n(1)]
    have "e = nid @ ''='' @ ne_address n" using t(1) n(2) eq(1) by (simp add: e_def)
    then show "extract_node_id e = nid \<and> replica_ok e \<and>
      (rpc_replica_address ord c e \<noteq> [] \<longrightarrow> rpc_replica_address ord c e = resolve_address e [])"
      using t(2,4) t(3) [of "[]"] n(2) eq ok by (simp add: node_ok_def replica_ok_def)
  qed
qed

lemma name_fits_alive:
  assumes "table_ok c" and "visits_all ord" and "n \<in> set (get_alive_nodes ord c)"
  shows "name_fits (ne_node_id n)"
  using assms alive_nodes_iff [of ord c n] by (auto simp: table_ok_def name_fits_def node_ok_def)

lemma put_placement_selects:
  assumes ok: "service_ok R k s" "k < 2 ^ 31" and env: "env_ok R env" and req: "request_ok req"
  shows "call_wf k' req (put_placement svc env req (st_coord s))"
proof -
  let ?alive = "get_alive_nodes (env_ord env) (st_coord s)" and ?rf = "pr_desired_rf req"
  let ?ns = "put_nodes svc env ?rf (st_coord s)"
  have tab: "table_ok (st_coord s)" "coord_inv (st_coord s)" using ok by (auto simp: service_ok_def table_ok_def)
  have al: "distinct (map ne_node_id ?alive)" "length ?alive < 2 ^ 31"
    using alive_nodes_distinct [of "env_ord env" "st_coord s"] alive_length [of "env_ord env" "st_coord s"] env ok tab
    by (auto simp: env_ok_def service_ok_def)
  have p: "distinct ?ns" "set ?ns \<subseteq> ne_node_id ` set ?alive" "length ?ns \<le> nat ?rf" if "0 \<le> ?rf"
    using select_nodes_props [OF _ al that, of "env_shuffle env" _ "[]"] env by (auto simp: env_ok_def)
  have neg: "?ns = []" if "\<not> 0 \<le> ?rf" using that by (simp add: select_nodes_def Let_def)
  have "selection_ok req ?ns" if ge: "\<not> cast_int (length ?ns) < ?rf"
  proof (cases "0 \<le> ?rf")
    case True
    have "nat ?rf < 2 ^ 31" using req True by (auto simp: request_ok_def int32_def nat_less_iff)
    then have "cast_int (length ?ns) = int (length ?ns)" using p(3) [OF True] by (intro cast_int_length) linarith
    moreover have "list_all name_fits ?ns" using p(2) [OF True] name_fits_alive [OF tab(1)] env by (auto simp: list_all_iff env_ok_def)
    ultimately show ?thesis using p [OF True] ge by (simp add: selection_ok_def)
  next
    case False
    then show ?thesis using neg by (simp add: selection_ok_def)
  qed
  then show ?thesis by (simp add: put_placement_def Let_def)
qed

text \<open>The command of a put that has its majority is well formed, so that committing it records it.\<close>

lemma put_log_write_cases:
  assumes req: "request_ok req" and wf: "call_wf k req (Put_log v es as)"
  shows "put_log_write env req v es as s = (Put_undo as ''metadata quorum unavailable after storage write'', s) \<or>
    put_log_write env req v es as s = (Put_done (Inr (Inr (v, es))),
      s\<lparr>st_coord := apply_put_chunk (pr_chunk_id req) (pr_size_bytes req) (pr_desired_rf req) es v (st_coord s)\<rparr>)"
proof -
  have "es \<noteq> []" using wf by auto
  then have "cmd_ok (Cmd_put (pr_chunk_id req) (pr_size_bytes req) (pr_desired_rf req) es v)"
    using req wf by (simp add: request_ok_def replicas_ok_def)
  from logged_write_cmd [OF this, of "env_outcome env" "env_clk env" "st_coord s"] show ?thesis
    by (auto simp: put_log_write_def split: option.split)
qed

lemma selection_ok_move: "selection_ok req (xs @ n # ns) \<Longrightarrow> name_fits n \<and> selection_ok req ((xs @ [n]) @ ns)"
  by (auto simp: selection_ok_def)

lemma version_bound: "unat v \<le> k \<Longrightarrow> k < 2 ^ 31 \<Longrightarrow> version_ok v"
  by (simp add: version_ok_def)

lemma next_version_bound:
  assumes "service_ok R k s" and "k < 2 ^ 31"
  shows "unat (next_version (st_coord s) cid) \<le> Suc k"
proof (cases "get_chunk (st_coord s) cid")
  case None
  then show ?thesis by (simp add: next_version_def get_chunk_def)
next
  case (Some e)
  then have "unat (ce_version e) \<le> k" using assms(1) by (simp add: service_ok_def)
  moreover from this have "ce_version e \<noteq> - 1" using assms(2) u64_max_unat by auto
  then have "unat (ce_version e + 1) = Suc (unat (ce_version e))" by (rule unat_u64_Suc)
  ultimately show ?thesis using Some by (simp add: next_version_def get_chunk_def)
qed

lemma service_ok_mono: "service_ok R k s \<Longrightarrow> service_ok R (Suc k) s"
  by (auto simp: service_ok_def le_Suc_eq)

lemma call_wf_mono: "call_wf k req pc \<Longrightarrow> call_wf (Suc k) req pc"
  by (cases pc) auto

context reliable_rocksdb
begin

lemma put_step_service:
  assumes ok: "service_ok R k s" "k < 2 ^ 31" and env: "env_ok R env" and req: "request_ok req" and wf: "call_wf k req pc"
    and run: "put_step svc env req pc s = (pc1, s1)"
  shows "service_ok R (Suc k) s1 \<and> call_wf (Suc k) req pc1"
proof -
  have up: "service_ok R (Suc k) s" "call_wf (Suc k) req pc" using ok(1) wf by (simp_all add: service_ok_mono call_wf_mono)
  have name: "name_ok (pr_chunk_id req)" and db: "env_db env = R" and ord: "visits_all (env_ord env)"
    using req env by (simp_all add: request_ok_def env_ok_def)
  have tab: "table_ok (st_coord s)" and peers: "peers_wf R (st_nodes s)" using ok(1) by (simp_all add: service_ok_def)
  show ?thesis
  proof (cases "(svc, env, req, pc, s)" rule: put_step.cases)
    case (3 _ _ _ nodes)
    then show ?thesis using run up wf next_version_bound [OF ok] by auto
  next
    case (4 _ _ _ n ns v es as f)
    then have sel: "selection_ok req (map extract_node_id es @ n # ns)" "list_all replica_ok es" "unat v \<le> k" "length as \<le> length es"
      using wf by simp_all
    let ?e = "encode_replica_target (env_ord env) (st_coord s) n"
    let ?a = "rpc_replica_address (env_ord env) (st_coord s) ?e"
    note t = put_target(1,2) [OF tab ord conjunct1 [OF selection_ok_move [OF sel(1)]]]
    obtain okw nodes1 where w: "write_chunk_to_replica R (env_up env) ?a (pr_chunk_id req) v (pr_data req) (st_nodes s) = (okw, nodes1)"
      by fastforce
    have "peers_wf R nodes1"
      using w peers write_remote_wf [OF _ peers name version_bound [OF sel(3) ok(2)], of "env_up env" ?a "pr_data req" okw nodes1]
      by (auto simp: write_chunk_to_replica_eq split: if_splits)
    moreover have "selection_ok req (map extract_node_id (es @ [?e]) @ ns)" using selection_ok_move [OF sel(1)] t(1) by simp
    ultimately show ?thesis using 4 run w db up t(2) sel by (auto simp: service_ok_def Let_def)
  next
    case (5 _ _ _ v es as f)
    then show ?thesis using run up wf by (auto simp: put_majority_def)
  next
    case (6 _ _ _ v es as)
    then have wf6: "call_wf k req (Put_log v es as)" using wf by simp
    have "table_ok (apply_put_chunk (pr_chunk_id req) (pr_size_bytes req) (pr_desired_rf req) es v (st_coord s))"
      using tab coord_inv_put by (auto simp: table_ok_def) (auto simp: apply_put_chunk_def)
    then show ?thesis using put_log_write_cases [OF req wf6, of env s] 6 run up wf6
      by (auto simp: service_ok_def apply_put_chunk_def [of _ _ _ _ _ "st_coord s"]) (auto simp: get_chunk_def split: if_splits)
  next
    case (7 _ _ _ a as err)
    then show ?thesis using run up db delete_from_replica_wf [OF peers name] by (auto simp: service_ok_def)
  next
    case (2 _ _ _ _)
    then show ?thesis using run up put_placement_selects [OF ok env req] by auto
  qed (use run up in \<open>auto simp: put_state_check_def split: option.splits\<close>)
qed

text \<open>The steps of a put do not touch other chunks.\<close>

lemma put_step_other:
  assumes peers: "peers_wf R (st_nodes s)" and env: "env_ok R env" and req: "request_ok req" and wf: "call_wf k req pc"
    and run: "put_step svc env req pc s = (pc1, s1)" and other: "cid \<noteq> pr_chunk_id req" and c: "name_ok cid"
  shows "get_chunk (st_coord s1) cid = get_chunk (st_coord s) cid"
    "node_has R (st_nodes s) a cid v x \<Longrightarrow> node_has R (st_nodes s1) a cid v x"
proof -
  have name: "name_ok (pr_chunk_id req)" and db: "env_db env = R" using req env by (simp_all add: request_ok_def env_ok_def)
  show "get_chunk (st_coord s1) cid = get_chunk (st_coord s) cid"
  proof (cases "(svc, env, req, pc, s)" rule: put_step.cases)
    case (6 _ _ _ v es as)
    then show ?thesis using put_log_write_cases [OF req, of k v es as env s] wf run other by auto
  qed (use run in \<open>auto simp: Let_def split: prod.splits\<close>)
  assume has: "node_has R (st_nodes s) a cid v x"
  show "node_has R (st_nodes s1) a cid v x"
  proof (cases "(svc, env, req, pc, s)" rule: put_step.cases)
    case (4 _ _ _ n ns w es as f)
    let ?a = "rpc_replica_address (env_ord env) (st_coord s) (encode_replica_target (env_ord env) (st_coord s) n)"
    have "st_nodes s1 = snd (write_chunk_to_replica R (env_up env) ?a (pr_chunk_id req) w (pr_data req) (st_nodes s))"
      using 4 run db by (auto simp: Let_def split: prod.splits)
    then show ?thesis using write_to_replica_keeps [OF has name c] other by simp
  next
    case (6 _ _ _ w es as)
    then show ?thesis using put_log_write_cases [OF req, of k w es as env s] wf run has by auto
  next
    case (7 _ _ _ b as err)
    then show ?thesis using run db delete_from_replica_keeps [OF has name c other peers] by auto
  qed (use run has in \<open>auto\<close>)
qed

text \<open>A put nobody interferes with: one turn of the loop over the nodes, then any step.\<close>

lemma put_write_good:
  assumes tab: "table_ok (st_coord s)" and env: "env_db env = R" "visits_all (env_ord env)" and name: "name_ok (pr_chunk_id req)"
    and n: "name_fits n" and good: "put_holds R s req v es as" and run: "put_step svc env req (Put_write (n # ns) v es as f) s = (pc1, s1)"
  shows "\<exists>es1 as1 f1. pc1 = Put_write ns v es1 as1 f1 \<and> st_coord s1 = st_coord s \<and> put_holds R s1 req v es1 as1"
proof -
  let ?e = "encode_replica_target (env_ord env) (st_coord s) n"
  let ?a = "rpc_replica_address (env_ord env) (st_coord s) ?e"
  note t = put_target(3) [OF tab env(2) n]
  obtain okw nodes1 where w: "write_chunk_to_replica R (env_up env) ?a (pr_chunk_id req) v (pr_data req) (st_nodes s) = (okw, nodes1)"
    by fastforce
  obtain oks where oks: "subseq oks es" "as = map (\<lambda>r. resolve_address r []) oks"
      "\<forall>r \<in> set oks. node_has R (st_nodes s) (resolve_address r []) (pr_chunk_id req) v (pr_data req)"
    using good by (auto simp: put_holds_def)
  have keep: "\<forall>r \<in> set oks. node_has R nodes1 (resolve_address r []) (pr_chunk_id req) v (pr_data req)"
    using oks(3) write_to_replica_keeps [OF _ name name, of "st_nodes s" _ v "pr_data req" v "pr_data req" "env_up env" ?a] w by auto
  have new: "?a = resolve_address ?e [] \<and> node_has R nodes1 (resolve_address ?e []) (pr_chunk_id req) v (pr_data req)" if okw
  proof -
    have wr: "?a \<noteq> []" "write_remote R (env_up env) ?a (pr_chunk_id req) v (pr_data req) (st_nodes s) = (True, nodes1)"
      using w that by (auto simp: write_chunk_to_replica_eq split: if_splits)
    show ?thesis using write_remote_has [OF wr(2) name] t [OF wr(1)] by simp
  qed
  have "put_holds R (s\<lparr>st_nodes := nodes1\<rparr>) req v (es @ [?e]) (if okw then as @ [?a] else as)"
  proof (cases okw)
    case True
    then show ?thesis using oks keep new unfolding put_holds_def
      by (intro exI [of _ "oks @ [?e]"]) (auto intro: list_emb_append_mono)
  next
    case False
    then show ?thesis using oks keep list_emb_append2 [of "(=)" oks es "[?e]"] unfolding put_holds_def
      by (intro exI [of _ oks]) (simp add: list_emb_prefix)
  qed
  then show ?thesis using run w env(1) by (auto simp: Let_def)
qed

lemma put_step_good:
  assumes ok: "service_ok R k s" and env: "env_ok R env" and req: "request_ok req" and wf: "call_wf k req pc"
    and good: "call_good R c s req pc" and run: "put_step svc env req pc s = (pc1, s1)"
  shows "call_good R c s1 req pc1"
proof -
  have name: "name_ok (pr_chunk_id req)" and db: "env_db env = R" and ord: "visits_all (env_ord env)"
    using req env by (simp_all add: request_ok_def env_ok_def)
  have tab: "table_ok (st_coord s)" using ok by (simp add: service_ok_def)
  show ?thesis
  proof (cases "(svc, env, req, pc, s)" rule: put_step.cases)
    case (4 _ _ _ n ns v es as f)
    have n: "name_fits n" using 4 wf selection_ok_move [of req _ n ns] by auto
    have "put_holds R s req v es as" "put_step svc env req (Put_write (n # ns) v es as f) s = (pc1, s1)" using 4 good run by auto
    from put_write_good [OF tab db ord name n this] show ?thesis using 4 good by auto
  next
    case (5 _ _ _ v es as f)
    then show ?thesis using run good by (auto simp: put_majority_def)
  next
    case (6 _ _ _ v es as)
    then have wf6: "call_wf k req (Put_log v es as)" using wf by simp
    have "put_holds R (s\<lparr>st_coord := c'\<rparr>) req v es as \<longleftrightarrow> put_holds R s req v es as" for c' by (simp add: put_holds_def)
    moreover have "put_log_write env req v es as s = (pc1, s1)" using 6 run by simp
    moreover have "get_chunk (st_coord s) (pr_chunk_id req) = get_chunk c (pr_chunk_id req)" "v = next_version c (pr_chunk_id req)"
        "put_holds R s req v es as" using 6 good by auto
    ultimately show ?thesis using put_log_write_cases [OF req wf6, of env s] wf6
      by (elim disjE) auto
  next
    case (3 _ _ _ nodes)
    then show ?thesis using run good next_version_cong [of "st_coord s" "pr_chunk_id req" c] by (auto simp: put_holds_def)
  qed (use run good in \<open>auto simp: put_state_check_def put_placement_def Let_def split: option.splits if_splits\<close>)
qed

end

section \<open>Invariants of a run\<close>

definition system_ok :: "'db rocksdb_ops \<Rightarrow> nat \<Rightarrow> 'db put_system \<Rightarrow> bool" where
  "system_ok R k sys \<longleftrightarrow> service_ok R k (ps_state sys) \<and> (\<forall>(req, pc) \<in> set (ps_calls sys). request_ok req \<and> call_wf k req pc)"

text \<open>At most one call puts the chunk, and it is undisturbed; without one the chunk is as it was.\<close>

definition undisturbed :: "'db rocksdb_ops \<Rightarrow> coordinator \<Rightarrow> string \<Rightarrow> 'db put_system \<Rightarrow> bool" where
  "undisturbed R c cid sys \<longleftrightarrow>
     (\<forall>i j. i < length (ps_calls sys) \<and> j < length (ps_calls sys) \<and> pr_chunk_id (fst (ps_calls sys ! i)) = cid \<and>
        pr_chunk_id (fst (ps_calls sys ! j)) = cid \<longrightarrow> i = j) \<and>
     (\<forall>(req, pc) \<in> set (ps_calls sys). pr_chunk_id req = cid \<longrightarrow> call_good R c (ps_state sys) req pc) \<and>
     ((\<forall>(req, pc) \<in> set (ps_calls sys). pr_chunk_id req \<noteq> cid) \<longrightarrow> get_chunk (st_coord (ps_state sys)) cid = get_chunk c cid)"

lemma length_um_assign_le: "length (um_assign k v m) \<le> Suc (length m)"
  by (induction k v m rule: um_assign.induct) auto

lemma service_ok_heartbeat:
  assumes ok: "service_ok R k s" and hb: "name_fits nid" "CHR ''|'' \<notin> set a" "CHR '','' \<notin> set a"
    and s1: "st_coord s1 = apply_heartbeat now nid a l fb tb fr (st_coord s)" "st_nodes s1 = st_nodes s"
  shows "service_ok R (Suc k) s1"
proof -
  have "table_ok (apply_heartbeat now nid a l fb tb fr (st_coord s))"
    using ok hb coord_inv_heartbeat [of "st_coord s" now nid a l fb tb fr]
    by (auto simp: service_ok_def table_ok_def apply_heartbeat_def node_ok_def name_fits_def split: if_splits)
  moreover have "length (node_table (apply_heartbeat now nid a l fb tb fr (st_coord s))) \<le> Suc k"
    using ok length_um_assign_le [of nid _ "node_table (st_coord s)"] by (fastforce simp: service_ok_def apply_heartbeat_def intro: le_trans)
  ultimately show ?thesis using ok s1 by (auto simp: service_ok_def le_Suc_eq)
qed

text \<open>The tables after the two short handlers.\<close>

lemma DeleteChunk_run:
  "DeleteChunk svc env cid coord = Inr (r, coord1) \<Longrightarrow> coord1 = coord \<or> coord1 = apply_delete_chunk cid coord"
  using logged_write_cmd [of "Cmd_delete cid" "env_outcome env" "env_clk env" coord]
  by (auto simp: DeleteChunk_def split: if_splits option.splits)

lemma NodeHeartbeat_run:
  assumes "NodeHeartbeat svc env req s = Inr (r, s1)" and "rpc_event_ok R (Ev_heartbeat req env)"
  shows "st_nodes s1 = st_nodes s \<and> (st_coord s1 = st_coord s \<or> (\<exists>now. st_coord s1 = apply_heartbeat now (hb_node_id req) (hb_address req)
      (fl32 (round6 (hb_load_fraction req))) (hb_free_bytes req) (hb_total_bytes req) (fl32 (round6 (hb_failure_rate_7d req))) (st_coord s)))"
proof -
  have ok: "cmd_ok (Cmd_heartbeat (hb_node_id req) (hb_address req) (hb_load_fraction req) (hb_free_bytes req) (hb_total_bytes req) (hb_failure_rate_7d req))"
    using assms(2) by (simp del: cmd_ok.simps)
  from logged_write_cmd [OF this, of "env_outcome env" "env_clk env" "st_coord s"] assms(1) show ?thesis
    by (auto simp: NodeHeartbeat_def Let_def split: if_splits option.splits)
qed

lemma service_ok_delete: "service_ok R k s \<Longrightarrow> service_ok R k (s\<lparr>st_coord := apply_delete_chunk cid (st_coord s)\<rparr>)"
  using coord_inv_delete [of "st_coord s" cid]
  by (auto simp: service_ok_def table_ok_def split: if_splits) (auto simp: apply_delete_chunk_def)

lemma move_call_cases:
  assumes "i < length (ps_calls sys)"
  obtains req pc pc1 s1 where "ps_calls sys ! i = (req, pc)" "(req, pc) \<in> set (ps_calls sys)"
    "put_step svc env req pc (ps_state sys) = (pc1, s1)" "move_call svc env i sys = \<lparr>ps_state = s1, ps_calls = (ps_calls sys)[i := (req, pc1)]\<rparr>"
proof -
  obtain req pc where c: "ps_calls sys ! i = (req, pc)" by fastforce
  obtain pc1 s1 where p: "put_step svc env req pc (ps_state sys) = (pc1, s1)" by fastforce
  show thesis using that [OF c _ p] assms c p nth_mem [OF assms] by (simp add: move_call_def)
qed

lemma undisturbed_mono:
  assumes "undisturbed R c cid sys" and "get_chunk (st_coord s1) cid = get_chunk (st_coord (ps_state sys)) cid"
    and "\<And>a v x. node_has R (st_nodes (ps_state sys)) a cid v x \<Longrightarrow> node_has R (st_nodes s1) a cid v x"
  shows "undisturbed R c cid (sys\<lparr>ps_state := s1\<rparr>)"
proof -
  have "call_good R c s1 req pc" if "(req, pc) \<in> set (ps_calls sys)" "pr_chunk_id req = cid" for req pc
    by (rule call_good_mono [of R c "ps_state sys" req pc s1]) (use assms that in \<open>auto simp: undisturbed_def\<close>)
  then show ?thesis using assms by (auto simp: undisturbed_def)
qed

lemma undisturbed_tables:
  assumes "undisturbed R c cid sys" and "get_chunk (st_coord s1) cid = get_chunk (st_coord (ps_state sys)) cid"
    and "st_nodes s1 = st_nodes (ps_state sys)"
  shows "undisturbed R c cid (sys\<lparr>ps_state := s1\<rparr>)"
  by (rule undisturbed_mono [OF assms(1,2)]) (simp add: assms(3))

context reliable_rocksdb
begin

lemma system_ok_step:
  assumes ok: "system_ok R k sys" "k < 2 ^ 31" and ev: "rpc_event_ok R ev"
  shows "system_ok R (Suc k) (rpc_event_step svc ev sys)"
proof -
  have up: "system_ok R (Suc k) sys" using ok(1) by (auto simp: system_ok_def service_ok_mono call_wf_mono)
  have sv: "service_ok R k (ps_state sys)" using ok(1) by (simp add: system_ok_def)
  show ?thesis
  proof (cases ev)
    case (Ev_put req)
    then show ?thesis using up ev by (auto simp: system_ok_def request_ok_def)
  next
    case (Ev_put_step i env)
    show ?thesis
    proof (cases "i < length (ps_calls sys)")
      case True
      obtain req pc pc1 s1 where m: "(req, pc) \<in> set (ps_calls sys)" "put_step svc env req pc (ps_state sys) = (pc1, s1)"
          "move_call svc env i sys = \<lparr>ps_state = s1, ps_calls = (ps_calls sys)[i := (req, pc1)]\<rparr>"
        using move_call_cases [OF True] by metis
      have rq: "request_ok req" "call_wf k req pc" "env_ok R env" using ok(1) m(1) ev Ev_put_step by (auto simp: system_ok_def)
      have "service_ok R (Suc k) s1 \<and> call_wf (Suc k) req pc1" by (rule put_step_service [OF sv ok(2) rq(3,1,2) m(2)])
      then show ?thesis using up rq(1) m(3) Ev_put_step set_update_subset_insert [of "ps_calls sys" i "(req, pc1)"]
        by (auto simp: system_ok_def)
    qed (use up Ev_put_step in \<open>simp add: move_call_def\<close>)
  next
    case (Ev_delete cid env)
    then show ?thesis using up DeleteChunk_run [of svc env cid "st_coord (ps_state sys)"] service_ok_delete [of R "Suc k" "ps_state sys" cid]
      by (auto simp: system_ok_def split: sum.split)
  next
    case (Ev_heartbeat req env)
    show ?thesis
    proof (cases "NodeHeartbeat svc env req (ps_state sys)")
      case (Inr rs)
      obtain r s1 where rs: "rs = (r, s1)" by fastforce
      have "name_fits (hb_node_id req)" "CHR ''|'' \<notin> set (hb_address req)" "CHR '','' \<notin> set (hb_address req)"
        using ev Ev_heartbeat by (auto simp: id_ok_def)
      then have "service_ok R (Suc k) s1"
        using NodeHeartbeat_run [of svc env req "ps_state sys" r s1 R] Inr rs ev Ev_heartbeat up service_ok_heartbeat [OF sv]
        by (fastforce simp: system_ok_def service_ok_def [of R "Suc k" s1] service_ok_def [of R "Suc k" "ps_state sys"] simp del: cmd_ok.simps)
      then show ?thesis using up Ev_heartbeat Inr rs by (simp add: system_ok_def)
    qed (use up Ev_heartbeat in simp)
  qed
qed

lemma undisturbed_move:
  assumes und: "undisturbed R c cid sys" and ok: "system_ok R k sys" and env: "env_ok R env" and name: "name_ok cid"
  shows "undisturbed R c cid (move_call svc env i sys)"
proof (cases "i < length (ps_calls sys)")
  case True
  obtain req pc pc1 s1 where m: "ps_calls sys ! i = (req, pc)" "(req, pc) \<in> set (ps_calls sys)" "put_step svc env req pc (ps_state sys) = (pc1, s1)"
      "move_call svc env i sys = \<lparr>ps_state = s1, ps_calls = (ps_calls sys)[i := (req, pc1)]\<rparr>"
    using move_call_cases [OF True] by metis
  have rq: "request_ok req" "call_wf k req pc" and sv: "service_ok R k (ps_state sys)" using ok m(2) by (auto simp: system_ok_def)
  have peers: "peers_wf R (st_nodes (ps_state sys))" using sv by (simp add: service_ok_def)
  let ?calls = "(ps_calls sys)[i := (req, pc1)]"
  have same: "fst (?calls ! j) = fst (ps_calls sys ! j)" if "j < length (ps_calls sys)" for j
    using m(1) that by (cases "j = i") auto
  have one: "j = l" if "j < length ?calls" "l < length ?calls" "pr_chunk_id (fst (?calls ! j)) = cid" "pr_chunk_id (fst (?calls ! l)) = cid" for j l
    using und that same by (auto simp: undisturbed_def)
  have good: "call_good R c s1 (fst (?calls ! j)) (snd (?calls ! j))" if j: "j < length ?calls" "pr_chunk_id (fst (?calls ! j)) = cid" for j
  proof (cases "j = i")
    case True
    have "call_good R c (ps_state sys) req pc" using und m(1,2) j same [of j] True by (auto simp: undisturbed_def)
    then show ?thesis using put_step_good [OF sv env rq _ m(3)] True j by simp
  next
    case False
    have "ps_calls sys ! j \<in> set (ps_calls sys)" using j(1) by simp
    then have old: "call_good R c (ps_state sys) (fst (ps_calls sys ! j)) (snd (ps_calls sys ! j))"
      using und j same [of j] by (auto simp: undisturbed_def split_beta)
    have ne: "cid \<noteq> pr_chunk_id req" using one [of j i] j True False m(1) by auto
    note o = put_step_other [OF peers env rq m(3) ne name]
    show ?thesis using call_good_mono [OF old, of s1] o j False by simp
  qed
  have "get_chunk (st_coord s1) cid = get_chunk c cid" if none: "\<forall>(req, pc) \<in> set ?calls. pr_chunk_id req \<noteq> cid"
  proof -
    have no: "pr_chunk_id (fst (ps_calls sys ! j)) \<noteq> cid" if "j < length (ps_calls sys)" for j
    proof -
      have "?calls ! j \<in> set ?calls" using that by (intro nth_mem) simp
      then have "pr_chunk_id (fst (?calls ! j)) \<noteq> cid" using bspec [OF none] by (auto simp only: split_beta)
      then show ?thesis using same [OF that] by simp
    qed
    then have "\<forall>(req, pc) \<in> set (ps_calls sys). pr_chunk_id req \<noteq> cid" by (auto simp: set_conv_nth split_beta) (metis fst_conv)
    moreover have "cid \<noteq> pr_chunk_id req" using no [OF True] m(1) by auto
    ultimately show ?thesis using und put_step_other(1) [OF peers env rq m(3) _ name] by (auto simp: undisturbed_def)
  qed
  then show ?thesis using one good unfolding m(4) undisturbed_def by (auto simp: set_conv_nth split_beta) (metis fst_conv snd_conv)
qed (use und in \<open>simp add: move_call_def\<close>)

end

lemma move_call_requests: "fst ` set (ps_calls (move_call svc env i sys)) \<subseteq> fst ` set (ps_calls sys)"
proof (cases "i < length (ps_calls sys)")
  case True
  obtain req pc where c: "ps_calls sys ! i = (req, pc)" by fastforce
  have "(req, pc) \<in> set (ps_calls sys)" using nth_mem [OF True] c by simp
  moreover have "set (ps_calls (move_call svc env i sys)) \<subseteq> insert (req, fst (put_step svc env req pc (ps_state sys))) (set (ps_calls sys))"
    using True c set_update_subset_insert by (fastforce simp: move_call_def split_beta)
  ultimately show ?thesis by force
qed (simp add: move_call_def)

lemma undisturbed_call:
  assumes und: "undisturbed R c cid sys" and new: "pr_chunk_id req = cid \<longrightarrow> (\<forall>(req, pc) \<in> set (ps_calls sys). pr_chunk_id req \<noteq> cid)"
  shows "undisturbed R c cid (sys\<lparr>ps_calls := ps_calls sys @ [(req, Put_check)]\<rparr>)"
proof -
  have old: "pr_chunk_id (fst (ps_calls sys ! i)) \<noteq> cid" if "pr_chunk_id req = cid" "i < length (ps_calls sys)" for i
    using new that nth_mem [OF that(2)] by (cases "ps_calls sys ! i") auto
  have "i = j" if "i < Suc (length (ps_calls sys))" "j < Suc (length (ps_calls sys))"
      "pr_chunk_id (fst ((ps_calls sys @ [(req, Put_check)]) ! i)) = cid" "pr_chunk_id (fst ((ps_calls sys @ [(req, Put_check)]) ! j)) = cid" for i j
    using und that old by (auto simp: undisturbed_def nth_append less_Suc_eq split: if_splits)
  moreover have "get_chunk (st_coord (ps_state sys)) cid = get_chunk c cid" if "pr_chunk_id req = cid"
    using new that und by (auto simp: undisturbed_def)
  ultimately show ?thesis using und by (auto simp: undisturbed_def)
qed

text \<open>No call puts the chunk.\<close>

definition no_put :: "string \<Rightarrow> 'db put_system \<Rightarrow> bool" where
  "no_put cid sys \<longleftrightarrow> (\<forall>(req, pc) \<in> set (ps_calls sys). pr_chunk_id req \<noteq> cid)"

lemma undisturbed_event:
  assumes db: "reliable_rocksdb R" and ok: "system_ok R k sys" and ev: "rpc_event_ok R ev" "\<not> deletes_chunk cid ev" and name: "name_ok cid"
    and un: "undisturbed R c cid sys" and once: "puts_chunk cid ev \<Longrightarrow> no_put cid sys"
  shows "undisturbed R c cid (rpc_event_step svc ev sys) \<and> (no_put cid sys \<longrightarrow> \<not> puts_chunk cid ev \<longrightarrow> no_put cid (rpc_event_step svc ev sys))"
proof (cases ev)
  case (Ev_put req)
  then show ?thesis using undisturbed_call [OF un, of req] once by (auto simp: no_put_def)
next
  case (Ev_put_step i env)
  have "env_ok R env" using ev(1) Ev_put_step by simp
  then have "undisturbed R c cid (move_call svc env i sys)" by (intro reliable_rocksdb.undisturbed_move [OF db un ok _ name])
  moreover have "\<forall>q \<in> fst ` set (ps_calls (move_call svc env i sys)). pr_chunk_id q \<noteq> cid" if "no_put cid sys"
    using that move_call_requests [of svc env i sys] unfolding no_put_def by fastforce
  ultimately show ?thesis using Ev_put_step by (auto simp: split_beta no_put_def)
next
  case (Ev_delete d env)
  then have "d \<noteq> cid" using ev(2) by simp
  then show ?thesis using un Ev_delete DeleteChunk_run [of svc env d "st_coord (ps_state sys)"]
    by (auto simp: no_put_def intro!: undisturbed_tables split: sum.split)
next
  case (Ev_heartbeat req env)
  show ?thesis
  proof (cases "NodeHeartbeat svc env req (ps_state sys)")
    case (Inr rs)
    obtain r s1 where rs: "rs = (r, s1)" by fastforce
    have "st_nodes s1 = st_nodes (ps_state sys)" "get_chunk (st_coord s1) cid = get_chunk (st_coord (ps_state sys)) cid"
      using NodeHeartbeat_run [of svc env req "ps_state sys" r s1 R] Inr rs ev(1) Ev_heartbeat by auto
    then show ?thesis using Ev_heartbeat Inr rs undisturbed_tables [OF un] by (simp add: no_put_def)
  qed (use un Ev_heartbeat in simp)
qed

section \<open>Two puts of one chunk\<close>

definition demo_req :: "string \<Rightarrow> put_req" where
  "demo_req data = \<lparr>pr_chunk_id = ''c'', pr_size_bytes = 1, pr_desired_rf = 1, pr_data = data\<rparr>"

text \<open>Both calls have written to the node; what is left is the log write of the first and of the second.\<close>

definition racing_puts :: "mem_db rpc_event list" where
  "racing_puts = [Ev_put (demo_req ''a''), Ev_put (demo_req ''b'')] @
     concat (replicate 5 [Ev_put_step 0 (demo_env True), Ev_put_step 1 (demo_env True)])"

lemma racing_puts_run:
  "rpc_run demo_service racing_puts (demo_state [] []) =
     \<lparr>ps_state = demo_state [] [(make_key ''c'' 1, ''b'')],
      ps_calls = [(demo_req ''a'', Put_log 1 [''n1=h:1''] [''h:1'']), (demo_req ''b'', Put_log 1 [''n1=h:1''] [''h:1''])]\<rparr>"
  by code_simp

abbreviation recorded_c :: chunk_entry where
  "recorded_c \<equiv> \<lparr>ce_chunk_id = ''c'', ce_version = 1, ce_replica_set = [''n1=h:1''], ce_replication_factor = 1,
     ce_config_state = STABLE, ce_old_replica_set = [], ce_size_bytes = 1\<rparr>"

text \<open>Both log writes succeed; or the first does and the second does not, so that its call removes the data.\<close>

lemma racing_puts_end:
  "fold (rpc_event_step demo_service) [Ev_put_step 0 (demo_env True), Ev_put_step 1 (demo_env True)]
     \<lparr>ps_state = demo_state [] [(make_key ''c'' 1, ''b'')],
      ps_calls = [(demo_req ''a'', Put_log 1 [''n1=h:1''] [''h:1'']), (demo_req ''b'', Put_log 1 [''n1=h:1''] [''h:1''])]\<rparr> =
     \<lparr>ps_state = demo_state [(''c'', recorded_c)] [(make_key ''c'' 1, ''b'')],
      ps_calls = [(demo_req ''a'', Put_done (Inr (Inr (1, [''n1=h:1''])))), (demo_req ''b'', Put_done (Inr (Inr (1, [''n1=h:1'']))))]\<rparr>"
  "fold (rpc_event_step demo_service) (Ev_put_step 0 (demo_env True) # replicate 3 (Ev_put_step 1 (demo_env False)))
     \<lparr>ps_state = demo_state [] [(make_key ''c'' 1, ''b'')],
      ps_calls = [(demo_req ''a'', Put_log 1 [''n1=h:1''] [''h:1'']), (demo_req ''b'', Put_log 1 [''n1=h:1''] [''h:1''])]\<rparr> =
     \<lparr>ps_state = demo_state [(''c'', recorded_c)] [],
      ps_calls = [(demo_req ''a'', Put_done (Inr (Inr (1, [''n1=h:1''])))),
        (demo_req ''b'', Put_done (Inr (Inl ''metadata quorum unavailable after storage write'')))]\<rparr>"
  by code_simp+

lemma rpc_run_append: "rpc_run svc (xs @ ys) s = fold (rpc_event_step svc) ys (rpc_run svc xs s)"
  by (simp add: rpc_run_def)

lemma demo_state_has:
  "node_has mem_rocksdb (st_nodes (demo_state chunks db)) a cid v x \<longleftrightarrow> a = ''h:1'' \<and> um_find db (make_key cid v) = Some x"
  by (auto simp: demo_state_def node_has_def store_abs_def mem_rocksdb_def)

lemma demo_service_ok: "service_ok mem_rocksdb 1 (demo_state [] [])"
  by (auto simp: service_ok_def table_ok_def demo_state_def demo_node_def coord_inv_def um_wf_def node_ok_def replica_ok_def
      peers_wf_def store_wf_def mem_rocksdb_def get_chunk_def split: if_splits)

lemma demo_events_ok:
  "env_ok mem_rocksdb (demo_env q)" "rpc_event_ok mem_rocksdb (Ev_put (demo_req x))" "list_all (rpc_event_ok mem_rocksdb) racing_puts"
  by (simp_all add: env_ok_def demo_env_def demo_req_def id_ok_def name_ok_def int32_def racing_puts_def numeral_eq_Suc)

section \<open>Properties\<close>


text \<open>
  No put waits for another: however the calls, deletions and heartbeats are interleaved, and
  whatever nodes and log answer, a call returns once it has been given as many steps as \<open>put_fuel\<close>
  says, which is \<open>2 * desired_rf + 7\<close> for a new one.
\<close>

theorem put_returns:
  assumes "i < length (ps_calls sys)" and "ps_calls sys ! i = (req, pc)"
    and "put_fuel (nat (pr_desired_rf req)) pc \<le> length (filter (moves_call i) evs)"
  shows "\<exists>r. ps_calls (fold (rpc_event_step svc) evs sys) ! i = (req, Put_done r)"
proof -
  obtain pc' where pc': "ps_calls (fold (rpc_event_step svc) evs sys) ! i = (req, pc')"
      "put_fuel (nat (pr_desired_rf req)) pc' + min (length (filter (moves_call i) evs)) (put_fuel (nat (pr_desired_rf req)) pc)
         \<le> put_fuel (nat (pr_desired_rf req)) pc"
    using moves_lower_fuel [OF assms(1,2)] by blast
  then have "put_fuel (nat (pr_desired_rf req)) pc' = 0" using assms(3) by simp
  then show ?thesis using pc'(1) by (cases pc') auto
qed

theorem put_returns_witness:
  "\<exists>r. ps_calls (fold (rpc_event_step demo_service) (replicate 9 (Ev_put_step 0 (demo_env True)) @ [Ev_delete ''c'' (demo_env True)])
     \<lparr>ps_state = demo_state [] [], ps_calls = [(demo_req ''a'', Put_check)]\<rparr>) ! 0 = (demo_req ''a'', Put_done r)"
  by (rule put_returns [where pc = Put_check]) (simp_all add: demo_req_def numeral_eq_Suc)


end
