(* ===== verification/Reconfig_Steps.thy ===== *)
theory Reconfig_Steps
  imports Put_Steps
begin

text \<open>
  Replica changes as the threads of the server run them. \<^verbatim>\<open>ReconfigDriver::reconfig\<close> takes no lock: it is
  called by the background thread and by the handlers of \<^verbatim>\<open>AddReplica\<close> and \<^verbatim>\<open>RemoveReplica\<close>, and puts,
  deletions, heartbeats and other changes go on between its two log writes. Here the driver is cut at its
  accesses to shared state, as \<open>Put_Steps\<close> cuts the put handler: a look at the tables, a call of a storage
  node and a log write each are one step. Left alone the steps are \<open>reconfig\<close>. In runs that interleave changes
  with everything else, puts and changes keep their promises as long as nobody else touches their chunk; a
  put and a change of one chunk do not.
\<close>

section \<open>The driver, step by step\<close>

record change_req =
  cq_chunk_id :: string
  cq_new_rf :: int
  cq_include :: string
  cq_exclude :: string

text \<open>
  Before the look at the chunk; before the selection, with \<^verbatim>\<open>old_set\<close> and \<^verbatim>\<open>current_version\<close>; before
  the first log write, with \<^verbatim>\<open>new_nodes\<close>; before the copy; in its loop, with \<^verbatim>\<open>src_ids\<close>,
  \<^verbatim>\<open>src_addr\<close>, \<^verbatim>\<open>alive\<close> and the destinations left, before the next fetch or, with the address and
  the bytes, before the write; before the verification; in its loop; before the second log write; returned.
\<close>

datatype change_point =
    Chg_check
  | Chg_target "string list" u64
  | Chg_start "string list" u64 "string list"
  | Chg_copy "string list" u64 "string list"
  | Chg_fetch "string list" string "node_entry list" u64 "string list" "string list"
  | Chg_write "string list" string "node_entry list" u64 string string "string list" "string list"
  | Chg_verify u64 "string list"
  | Chg_probe "node_entry list" u64 "string list" "string list"
  | Chg_commit "string list"
  | Chg_done "cxx_exc + bool"

definition change_check :: "change_req \<Rightarrow> coordinator \<Rightarrow> change_point" where
  "change_check req coord = (case get_chunk coord (cq_chunk_id req) of
     None \<Rightarrow> Chg_done (Inr False)
   | Some entry \<Rightarrow> if ce_config_state entry = TRANSITIONING then Chg_done (Inr False)
                   else Chg_target (ce_replica_set entry) (ce_version entry))"

definition change_target :: "'db rpc_env \<Rightarrow> placement_config \<Rightarrow> change_req \<Rightarrow> string list \<Rightarrow> u64 \<Rightarrow> coordinator \<Rightarrow> change_point" where
  "change_target env plc req old_set version coord =
     (let alive = get_alive_nodes (env_ord env) coord in
      case target_ids plc (env_shuffle env) alive old_set (cq_new_rf req) (cq_include req) (cq_exclude req) of
        None \<Rightarrow> Chg_done (Inr False)
      | Some ids \<Rightarrow> Chg_start old_set version (map (\<lambda>nid. encode_replica_entry nid alive) ids))"

text \<open>One destination of the copy, up to the bytes of the source.\<close>

definition change_fetch :: "'db rpc_env \<Rightarrow> change_req \<Rightarrow> string list \<Rightarrow> string \<Rightarrow> node_entry list \<Rightarrow> u64 \<Rightarrow> string \<Rightarrow> string list \<Rightarrow> string list \<Rightarrow>
     'db rpc_state \<Rightarrow> change_point \<times> 'db rpc_state" where
  "change_fetch env req src_ids src alive version dst dsts new_nodes s =
     (if extract_node_id dst \<in> set src_ids then (Chg_fetch src_ids src alive version dsts new_nodes, s)
      else if src = [] then (Chg_done (Inr False), s)
      else let dst_addr = resolve_address dst alive in
        if dst_addr = [] then (Chg_done (Inr False), s)
        else case fetch_assembled (env_db env) (env_up env) src (cq_chunk_id req) version (st_nodes s) of
               (None, nodes1) \<Rightarrow> (Chg_done (Inr False), s\<lparr>st_nodes := nodes1\<rparr>)
             | (Some data, nodes1) \<Rightarrow> (Chg_write src_ids src alive version dst_addr data dsts new_nodes, s\<lparr>st_nodes := nodes1\<rparr>))"

text \<open>One replica of the verification.\<close>

definition change_probe :: "'db rpc_env \<Rightarrow> change_req \<Rightarrow> node_entry list \<Rightarrow> u64 \<Rightarrow> string \<Rightarrow> string list \<Rightarrow> string list \<Rightarrow>
     'db rpc_state \<Rightarrow> change_point \<times> 'db rpc_state" where
  "change_probe env req alive version entry entries new_nodes s =
     (let addr = resolve_address entry alive in
      if addr = [] then (Chg_done (Inr False), s)
      else case um_find (st_nodes s) addr of
             None \<Rightarrow> (Chg_done (Inr False), s)
           | Some sn \<Rightarrow>
               if \<not> env_up env addr then (Chg_done (Inr False), s)
               else (case ReadChunk (env_db env) (cq_chunk_id req) version sn of
                       (Inl _, sn1) \<Rightarrow> (Chg_done (Inr False), s\<lparr>st_nodes := um_assign addr sn1 (st_nodes s)\<rparr>)
                     | (Inr (_, v), sn1) \<Rightarrow>
                         (if v < version then Chg_done (Inr False) else Chg_probe alive version entries new_nodes,
                          s\<lparr>st_nodes := um_assign addr sn1 (st_nodes s)\<rparr>)))"

text \<open>The two log writes; an exception leaves the driver.\<close>

definition change_log :: "'db rpc_env \<Rightarrow> wal_entry_type \<Rightarrow> string \<Rightarrow> change_point \<Rightarrow> 'db rpc_state \<Rightarrow> change_point \<times> 'db rpc_state" where
  "change_log env ty payload onward s = (case logged_write (env_outcome env) (env_clk env) ty payload (st_coord s) of
     Inl x \<Rightarrow> (Chg_done (Inl x), s)
   | Inr (ok, coord1) \<Rightarrow> (if ok then onward else Chg_done (Inr False), s\<lparr>st_coord := coord1\<rparr>))"

fun change_step :: "'db rpc_env \<Rightarrow> placement_config \<Rightarrow> change_req \<Rightarrow> change_point \<Rightarrow> 'db rpc_state \<Rightarrow> change_point \<times> 'db rpc_state" where
  "change_step env plc req Chg_check s = (change_check req (st_coord s), s)"
| "change_step env plc req (Chg_target old_set version) s = (change_target env plc req old_set version (st_coord s), s)"
| "change_step env plc req (Chg_start old_set version new_nodes) s =
     change_log env RECONFIGURE_START (encode_reconfig_start (cq_chunk_id req) old_set new_nodes) (Chg_copy old_set version new_nodes) s"
| "change_step env plc req (Chg_copy old_set version new_nodes) s =
     (if old_set = [] then Chg_verify version new_nodes
      else let alive = get_alive_nodes (env_ord env) (st_coord s)
           in Chg_fetch (map extract_node_id old_set) (first_address old_set alive) alive version new_nodes new_nodes, s)"
| "change_step env plc req (Chg_fetch src_ids src alive version [] new_nodes) s = (Chg_verify version new_nodes, s)"
| "change_step env plc req (Chg_fetch src_ids src alive version (dst # dsts) new_nodes) s =
     change_fetch env req src_ids src alive version dst dsts new_nodes s"
| "change_step env plc req (Chg_write src_ids src alive version dst_addr data dsts new_nodes) s =
     (let (ok, nodes1) = write_remote (env_db env) (env_up env) dst_addr (cq_chunk_id req) version data (st_nodes s)
      in (if ok then Chg_fetch src_ids src alive version dsts new_nodes else Chg_done (Inr False), s\<lparr>st_nodes := nodes1\<rparr>))"
| "change_step env plc req (Chg_verify version new_nodes) s =
     (Chg_probe (get_alive_nodes (env_ord env) (st_coord s)) version new_nodes new_nodes, s)"
| "change_step env plc req (Chg_probe alive version [] new_nodes) s = (Chg_commit new_nodes, s)"
| "change_step env plc req (Chg_probe alive version (entry # entries) new_nodes) s =
     change_probe env req alive version entry entries new_nodes s"
| "change_step env plc req (Chg_commit new_nodes) s =
     change_log env RECONFIGURE_COMMIT (encode_reconfig_commit (cq_chunk_id req) new_nodes) (Chg_done (Inr True)) s"
| "change_step env plc req (Chg_done r) s = (Chg_done r, s)"

section \<open>A change left alone\<close>

fun change_steps :: "nat \<Rightarrow> 'db rpc_env \<Rightarrow> placement_config \<Rightarrow> change_req \<Rightarrow> change_point \<times> 'db rpc_state \<Rightarrow> change_point \<times> 'db rpc_state" where
  "change_steps 0 env plc req ps = ps"
| "change_steps (Suc n) env plc req (pc, s) = change_steps n env plc req (change_step env plc req pc s)"

lemma change_steps_add: "change_steps (m + n) env plc req ps = change_steps n env plc req (change_steps m env plc req ps)"
proof (induction m arbitrary: ps)
  case (Suc m)
  then show ?case by (cases ps) simp
qed simp

lemma change_steps_done [simp]: "change_steps n env plc req (Chg_done r, s) = (Chg_done r, s)"
  by (induction n) auto

fun change_returned :: "change_point \<Rightarrow> bool" where
  "change_returned (Chg_done _) = True"
| "change_returned _ = False"

text \<open>How many steps a change has left at most; \<open>m\<close> bounds the size of the old set.\<close>

fun change_fuel :: "nat \<Rightarrow> change_req \<Rightarrow> change_point \<Rightarrow> nat" where
  "change_fuel m req Chg_check = 3 * (2 * m + 3 * nat (cq_new_rf req) + 2) + 8"
| "change_fuel m req (Chg_target old_set _) = 3 * (2 * length old_set + 3 * nat (cq_new_rf req) + 2) + 7"
| "change_fuel m req (Chg_start _ _ new_nodes) = 3 * length new_nodes + 6"
| "change_fuel m req (Chg_copy _ _ new_nodes) = 3 * length new_nodes + 5"
| "change_fuel m req (Chg_fetch _ _ _ _ dsts new_nodes) = 2 * length dsts + length new_nodes + 4"
| "change_fuel m req (Chg_write _ _ _ _ _ _ dsts new_nodes) = 2 * length dsts + length new_nodes + 5"
| "change_fuel m req (Chg_verify _ new_nodes) = length new_nodes + 3"
| "change_fuel m req (Chg_probe _ _ entries _) = length entries + 2"
| "change_fuel m req (Chg_commit _) = 1"
| "change_fuel m req (Chg_done _) = 0"

lemma insert_new_length: "length (insert_new x ids) \<le> Suc (length ids)"
  by (simp add: insert_new_def)

lemma fold_insert_new_length: "length (fold insert_new xs ids) \<le> length xs + length ids"
proof (induction xs arbitrary: ids)
  case (Cons x xs)
  show ?case using insert_new_length [of x ids] order_trans [OF Cons.IH [of "insert_new x ids"], of "length (x # xs) + length ids"] by simp
qed simp

lemma kept_ids_length: "length (kept_ids old exc) \<le> length old"
proof -
  define f where "f = (\<lambda>e ids. let nid = extract_node_id e in if exc \<noteq> [] \<and> nid = exc then ids else insert_new nid ids)"
  have f: "length (f e ids) \<le> Suc (length ids)" for e ids using insert_new_length by (simp add: f_def Let_def)
  have "length (fold f old ids) \<le> length old + length ids" for ids
  proof (induction old arbitrary: ids)
    case (Cons e old)
    then show ?case using f [of e ids] order_trans [OF Cons.IH [of "f e ids"], of "length (e # old) + length ids"] by simp
  qed simp
  from this [of "[]"] show ?thesis by (simp add: kept_ids_def f_def)
qed

text \<open>The count of the ids kept may have wrapped around, which only a list that long can make it do.\<close>

lemma cast_int_shortfall: "nat (n - cast_int (length xs)) \<le> nat n + length xs"
proof (cases "length xs < 2 ^ 31")
  case True
  then show ?thesis using cast_int_length [OF True] by simp
next
  case False
  have "- (2 ^ 31) \<le> cast_int (length xs)" using sint_greater_eq [of "word_of_nat (length xs) :: 32 word"] by (simp add: cast_int_def)
  moreover have "(2 :: int) ^ 31 \<le> int (length xs)" using False by simp
  ultimately show ?thesis by linarith
qed

lemma target_ids_length:
  assumes t: "target_ids cfg shuffle alive old n inc exc = Some ids"
  shows "length ids \<le> 2 * length old + 3 * nat n + 2"
proof -
  define ids2 where "ids2 = (if inc \<noteq> [] then insert_new inc (kept_ids old exc) else kept_ids old exc)"
  define ids3 where "ids3 = (if n < cast_int (length ids2) then trim_ids n inc ids2 else ids2)"
  define sel where "sel = select_nodes cfg shuffle (n - cast_int (length ids3)) alive ids3"
  have "length ids2 \<le> length old + 1" using kept_ids_length [of old exc] insert_new_length [of inc "kept_ids old exc"] by (auto simp: ids2_def)
  then have l3: "length ids3 \<le> length old + nat n + 1" by (auto simp: ids3_def trim_ids_def Let_def)
  have "length sel \<le> nat n + length ids3"
    using select_nodes_length [of cfg shuffle "n - cast_int (length ids3)" alive ids3] cast_int_shortfall [of n ids3] by (simp add: sel_def)
  then have "length (fold insert_new sel ids3) \<le> 2 * length ids3 + nat n" using fold_insert_new_length [of sel ids3] by simp
  moreover have "ids = ids3 \<or> ids = fold insert_new sel ids3"
    using t by (auto simp: target_ids_def Let_def ids2_def [symmetric] ids3_def [symmetric] sel_def [symmetric] split: if_splits)
  ultimately show ?thesis using l3 by auto
qed

text \<open>Whatever the state at each step, a step lowers the count, provided the old set it finds is not longer than \<open>m\<close>.\<close>

definition old_bounded :: "nat \<Rightarrow> change_req \<Rightarrow> change_point \<Rightarrow> coordinator \<Rightarrow> bool" where
  "old_bounded m req pc coord \<longleftrightarrow> (pc = Chg_check \<longrightarrow> (\<forall>e. get_chunk coord (cq_chunk_id req) = Some e \<longrightarrow> length (ce_replica_set e) \<le> m))"

lemma change_step_fuel:
  assumes "\<not> change_returned pc" and "old_bounded m req pc (st_coord s)"
  shows "change_fuel m req (fst (change_step env plc req pc s)) < change_fuel m req pc"
proof (cases "(env, plc, req, pc, s)" rule: change_step.cases)
  case (1 _ _ _ _)
  then show ?thesis using assms by (auto simp: change_check_def old_bounded_def split: option.split)
next
  case (2 _ _ _ old v _)
  then show ?thesis
    using target_ids_length [of plc "env_shuffle env" "get_alive_nodes (env_ord env) (st_coord s)" old "cq_new_rf req" "cq_include req" "cq_exclude req"]
    by (fastforce simp: change_target_def Let_def split: option.split)
next
  case (7 _ _ _ src_ids src alive v dst_addr data dsts new _)
  then show ?thesis by (simp add: split_beta)
qed (use assms in \<open>auto simp: change_fetch_def change_probe_def change_log_def Let_def
       split: option.split prod.split sum.split\<close>)

lemma change_step_bounded: "pc \<noteq> Chg_check \<Longrightarrow> fst (change_step env plc req pc s) \<noteq> Chg_check"
  by (cases "(env, plc, req, pc, s)" rule: change_step.cases)
    (auto simp: change_target_def change_fetch_def change_probe_def change_log_def Let_def split: option.split prod.split sum.split)

lemma change_check_moves: "change_check req coord \<noteq> Chg_check"
  by (simp add: change_check_def split: option.split)

lemma change_steps_return:
  "old_bounded m req pc (st_coord s) \<Longrightarrow> \<exists>r s'. change_steps (change_fuel m req pc) env plc req (pc, s) = (Chg_done r, s')"
proof (induction "change_fuel m req pc" arbitrary: pc s rule: less_induct)
  case less
  show ?case
  proof (cases "change_returned pc")
    case True
    then show ?thesis by (cases pc) auto
  next
    case False
    obtain pc1 s1 where st: "change_step env plc req pc s = (pc1, s1)" by fastforce
    have lt: "change_fuel m req pc1 < change_fuel m req pc" using change_step_fuel [OF False less.prems, of env plc] st by simp
    have "pc1 \<noteq> Chg_check"
      using change_step_bounded [of pc env plc req s] change_check_moves [of req "st_coord s"] st by (cases "pc = Chg_check") auto
    then have "old_bounded m req pc1 (st_coord s1)" by (simp add: old_bounded_def)
    from less.hyps [OF lt this] obtain r s' where r: "change_steps (change_fuel m req pc1) env plc req (pc1, s1) = (Chg_done r, s')" by blast
    obtain d where d: "change_fuel m req pc = Suc (change_fuel m req pc1 + d)" using lt less_iff_Suc_add by auto
    show ?thesis using st r unfolding d by (simp add: change_steps_add)
  qed
qed

text \<open>Reaching a point, in some number of steps.\<close>

definition change_reaches :: "'db rpc_env \<Rightarrow> placement_config \<Rightarrow> change_req \<Rightarrow> change_point \<times> 'db rpc_state \<Rightarrow> change_point \<times> 'db rpc_state \<Rightarrow> bool" where
  "change_reaches env plc req ps qs \<longleftrightarrow> (\<exists>n. change_steps n env plc req ps = qs)"

lemma change_reaches_refl [simp]: "change_reaches env plc req ps ps"
  unfolding change_reaches_def by (rule exI [of _ 0]) simp

lemma change_reaches_step:
  "change_reaches env plc req (change_step env plc req pc s) qs \<Longrightarrow> change_reaches env plc req (pc, s) qs"
  unfolding change_reaches_def by (metis change_steps.simps(2))

lemma change_reaches_trans:
  "change_reaches env plc req ps qs \<Longrightarrow> change_reaches env plc req qs rs \<Longrightarrow> change_reaches env plc req ps rs"
  unfolding change_reaches_def by (metis change_steps_add)

lemma change_reaches_copy:
  "copy_loop (env_db env) (env_up env) alive src_ids src (cq_chunk_id req) v dsts (st_nodes s) = (ok, nodes') \<Longrightarrow>
   change_reaches env plc req (Chg_fetch src_ids src alive v dsts new, s)
     (if ok then Chg_verify v new else Chg_done (Inr False), s\<lparr>st_nodes := nodes'\<rparr>)"
proof (induction dsts arbitrary: s)
  case Nil
  then show ?case by (intro change_reaches_step) (cases s, simp)
next
  case (Cons dst dsts)
  let ?f = "fetch_assembled (env_db env) (env_up env) src (cq_chunk_id req) v (st_nodes s)"
  consider (skip) "extract_node_id dst \<in> set src_ids" | (stop) "extract_node_id dst \<notin> set src_ids" "src = [] \<or> resolve_address dst alive = []"
    | (nofetch) n1 where "extract_node_id dst \<notin> set src_ids" "src \<noteq> []" "resolve_address dst alive \<noteq> []" "?f = (None, n1)"
    | (fetch) data n1 k n2 where "extract_node_id dst \<notin> set src_ids" "src \<noteq> []" "resolve_address dst alive \<noteq> []" "?f = (Some data, n1)"
        "write_remote (env_db env) (env_up env) (resolve_address dst alive) (cq_chunk_id req) v data n1 = (k, n2)"
    by (metis prod.exhaust option.exhaust)
  then show ?case
  proof cases
    case skip
    then show ?thesis using Cons by (intro change_reaches_step) (simp add: change_fetch_def)
  next
    case stop
    then show ?thesis using Cons.prems by (intro change_reaches_step) (cases s; auto simp: change_fetch_def Let_def split: if_splits)
  next
    case (nofetch n1)
    then show ?thesis using Cons.prems by (intro change_reaches_step) (simp add: change_fetch_def Let_def)
  next
    case (fetch data n1 k n2)
    have "change_reaches env plc req (Chg_fetch src_ids src alive v dsts new, s\<lparr>st_nodes := n2\<rparr>)
        (if ok then Chg_verify v new else Chg_done (Inr False), s\<lparr>st_nodes := nodes'\<rparr>)" if k
      using Cons.IH [of "s\<lparr>st_nodes := n2\<rparr>"] Cons.prems fetch that by (simp add: Let_def)
    moreover have "\<not> k \<Longrightarrow> \<not> ok \<and> nodes' = n2" using Cons.prems fetch by (simp add: Let_def)
    ultimately have "change_reaches env plc req (change_step env plc req (Chg_write src_ids src alive v (resolve_address dst alive) data dsts new) (s\<lparr>st_nodes := n1\<rparr>))
        (if ok then Chg_verify v new else Chg_done (Inr False), s\<lparr>st_nodes := nodes'\<rparr>)"
      using fetch(5) by (cases k) simp_all
    from change_reaches_step [OF this] show ?thesis
      using fetch by (intro change_reaches_step) (simp add: change_fetch_def Let_def)
  qed
qed

lemma change_reaches_verify:
  "verify_replicas (env_db env) (env_up env) alive (cq_chunk_id req) v es (st_nodes s) = (ok, nodes') \<Longrightarrow>
   change_reaches env plc req (Chg_probe alive v es new, s) (if ok then Chg_commit new else Chg_done (Inr False), s\<lparr>st_nodes := nodes'\<rparr>)"
proof (induction es arbitrary: s)
  case Nil
  then show ?case by (intro change_reaches_step) (cases s, simp)
next
  case (Cons e es)
  have IH: "change_reaches env plc req (Chg_probe alive v es new, s\<lparr>st_nodes := n1\<rparr>)
      (if ok then Chg_commit new else Chg_done (Inr False), s\<lparr>st_nodes := nodes'\<rparr>)"
    if "verify_replicas (env_db env) (env_up env) alive (cq_chunk_id req) v es n1 = (ok, nodes')" for n1
    using Cons.IH [of "s\<lparr>st_nodes := n1\<rparr>"] that by simp
  have same: "s\<lparr>st_nodes := st_nodes s\<rparr> = s" by (cases s) simp
  show ?case
    using Cons.prems by (intro change_reaches_step)
      (auto simp: change_probe_def Let_def same dest!: IH split: option.splits if_splits sum.splits prod.splits)
qed

text \<open>From the first log write on.\<close>

definition change_result :: "'db rpc_env \<Rightarrow> change_req \<Rightarrow> string list \<Rightarrow> u64 \<Rightarrow> string list \<Rightarrow> 'db rpc_state \<Rightarrow>
     cxx_exc + bool \<times> coordinator \<times> (string, 'db storage_node) umap" where
  "change_result env req old_set version new_nodes s =
     (let alive1 = get_alive_nodes (env_ord env) (st_coord s);
          (copied, nodes1) = copy_to_new_replicas (env_db env) (env_up env) alive1 (cq_chunk_id req) version old_set new_nodes (st_nodes s)
      in if \<not> copied then Inr (False, st_coord s, nodes1)
         else let (verified, nodes2) = verify_replicas (env_db env) (env_up env) alive1 (cq_chunk_id req) version new_nodes nodes1
              in if \<not> verified then Inr (False, st_coord s, nodes2)
                 else ebind (logged_write (env_outcome env) (env_clk env) RECONFIGURE_COMMIT
                               (encode_reconfig_commit (cq_chunk_id req) new_nodes) (st_coord s))
                        (\<lambda>(ok, coord2). Inr (ok, coord2, nodes2)))"

lemma change_reaches_copied:
  assumes c: "copy_to_new_replicas (env_db env) (env_up env) (get_alive_nodes (env_ord env) (st_coord s)) (cq_chunk_id req) v old new (st_nodes s) = (k, n1)"
  shows "change_reaches env plc req (Chg_copy old v new, s) (if k then Chg_verify v new else Chg_done (Inr False), s\<lparr>st_nodes := n1\<rparr>)"
proof (rule change_reaches_step, cases "old = []")
  case True
  then show "change_reaches env plc req (change_step env plc req (Chg_copy old v new) s)
      (if k then Chg_verify v new else Chg_done (Inr False), s\<lparr>st_nodes := n1\<rparr>)"
    using c by (cases s) (simp add: copy_to_new_replicas_def)
next
  case False
  then show "change_reaches env plc req (change_step env plc req (Chg_copy old v new) s)
      (if k then Chg_verify v new else Chg_done (Inr False), s\<lparr>st_nodes := n1\<rparr>)"
    using c change_reaches_copy [of env "get_alive_nodes (env_ord env) (st_coord s)"] by (simp add: copy_to_new_replicas_def Let_def)
qed

definition change_outcome :: "cxx_exc + bool \<times> coordinator \<times> (string, 'db storage_node) umap \<Rightarrow> 'db rpc_state \<Rightarrow>
     change_point \<times> 'db rpc_state \<Rightarrow> bool" where
  "change_outcome res s = (\<lambda>(pc, s'). case res of
     Inl x \<Rightarrow> pc = Chg_done (Inl x)
   | Inr (ok, coord', nodes') \<Rightarrow> pc = Chg_done (Inr ok) \<and> s' = s\<lparr>st_coord := coord', st_nodes := nodes'\<rparr>)"

lemma change_reaches_result:
  "\<exists>qs. change_reaches env plc req (Chg_copy old v new, s) qs \<and> change_outcome (change_result env req old v new s) s qs"
proof -
  let ?alive = "get_alive_nodes (env_ord env) (st_coord s)"
  obtain k n1 where c: "copy_to_new_replicas (env_db env) (env_up env) ?alive (cq_chunk_id req) v old new (st_nodes s) = (k, n1)" by fastforce
  note r1 = change_reaches_copied [OF c, of plc]
  show ?thesis
  proof (cases k)
    case False
    then show ?thesis using r1 c by (intro exI [of _ "(Chg_done (Inr False), s\<lparr>st_nodes := n1\<rparr>)"]) (simp add: change_outcome_def change_result_def)
  next
    case True
    obtain l n2 where vf: "verify_replicas (env_db env) (env_up env) ?alive (cq_chunk_id req) v new n1 = (l, n2)" by fastforce
    have "change_reaches env plc req (Chg_verify v new, s\<lparr>st_nodes := n1\<rparr>) (if l then Chg_commit new else Chg_done (Inr False), s\<lparr>st_nodes := n2\<rparr>)"
      using change_reaches_verify [of env ?alive req v new "s\<lparr>st_nodes := n1\<rparr>"] vf by (intro change_reaches_step) simp
    then have r2: "change_reaches env plc req (Chg_copy old v new, s) (if l then Chg_commit new else Chg_done (Inr False), s\<lparr>st_nodes := n2\<rparr>)"
      using change_reaches_trans r1 True by fastforce
    show ?thesis
    proof (cases l)
      case False
      then show ?thesis using r2 c vf True
        by (intro exI [of _ "(Chg_done (Inr False), s\<lparr>st_nodes := n2\<rparr>)"]) (simp add: change_outcome_def change_result_def)
    next
      case l: True
      let ?qs = "change_step env plc req (Chg_commit new) (s\<lparr>st_nodes := n2\<rparr>)"
      have "change_reaches env plc req (Chg_copy old v new, s) ?qs"
        using change_reaches_trans [OF r2, of ?qs] l by (simp add: change_reaches_step)
      then show ?thesis using c vf True l
        by (intro exI [of _ ?qs]) (auto simp: change_outcome_def change_result_def change_log_def split: sum.split)
    qed
  qed
qed

lemma change_reaches_once: "change_reaches env plc req (pc, s) (change_step env plc req pc s)"
  by (rule change_reaches_step) simp

lemma change_reaches_start:
  "\<exists>qs. change_reaches env plc req (Chg_start old v new, s) qs \<and>
     change_outcome (ebind (logged_write (env_outcome env) (env_clk env) RECONFIGURE_START (encode_reconfig_start (cq_chunk_id req) old new) (st_coord s))
       (\<lambda>(ok, c1). if \<not> ok then Inr (False, c1, st_nodes s) else change_result env req old v new (s\<lparr>st_coord := c1\<rparr>))) s qs"
proof (cases "logged_write (env_outcome env) (env_clk env) RECONFIGURE_START (encode_reconfig_start (cq_chunk_id req) old new) (st_coord s)")
  case (Inl x)
  then show ?thesis using change_reaches_once [of env plc req "Chg_start old v new" s]
    by (intro exI [of _ "(Chg_done (Inl x), s)"]) (simp add: change_log_def change_outcome_def)
next
  case (Inr kc)
  obtain k c1 where kc: "kc = (k, c1)" by fastforce
  have upd: "s\<lparr>st_coord := c1, st_nodes := st_nodes s\<rparr> = s\<lparr>st_coord := c1\<rparr>" by (cases s) simp
  obtain qs where q: "change_reaches env plc req (Chg_copy old v new, s\<lparr>st_coord := c1\<rparr>) qs"
      "change_outcome (change_result env req old v new (s\<lparr>st_coord := c1\<rparr>)) (s\<lparr>st_coord := c1\<rparr>) qs"
    using change_reaches_result by blast
  have "change_outcome (change_result env req old v new (s\<lparr>st_coord := c1\<rparr>)) s qs"
    using q(2) by (auto simp: change_outcome_def split: sum.splits)
  then show ?thesis using Inr kc q(1) change_reaches_trans [OF change_reaches_once [of env plc req "Chg_start old v new" s]]
      change_reaches_once [of env plc req "Chg_start old v new" s]
    by (cases k) (auto simp: change_log_def change_outcome_def upd)
qed

lemma change_reaches_reconfig:
  "\<exists>qs. change_reaches env plc req (Chg_check, s) qs \<and>
     change_outcome (reconfig (env_db env) (env_ord env) plc (env_shuffle env) (env_up env) (env_outcome env) (env_clk env)
       (cq_chunk_id req) (cq_new_rf req) (cq_include req) (cq_exclude req) (st_coord s, st_nodes s)) s qs"
proof -
  let ?alive = "get_alive_nodes (env_ord env) (st_coord s)"
  note once = change_reaches_once [of env plc req _ s]
  have same: "s\<lparr>st_coord := st_coord s, st_nodes := st_nodes s\<rparr> = s" by (cases s) simp
  consider (refused) "change_check req (st_coord s) = Chg_done (Inr False)"
    | (entry) e where "get_chunk (st_coord s) (cq_chunk_id req) = Some e" "ce_config_state e \<noteq> TRANSITIONING"
    by (cases "get_chunk (st_coord s) (cq_chunk_id req)"; cases "ce_config_state (the (get_chunk (st_coord s) (cq_chunk_id req))) = TRANSITIONING")
      (auto simp: change_check_def)
  then show ?thesis
  proof cases
    case refused
    then show ?thesis using once [of Chg_check]
      by (intro exI [of _ "(Chg_done (Inr False), s)"]) (auto simp: change_check_def change_outcome_def reconfig_def same split: option.splits if_splits)
  next
    case (entry e)
    let ?t = "Chg_target (ce_replica_set e) (ce_version e)"
    have "change_reaches env plc req (Chg_check, s) (?t, s)" using once [of Chg_check] entry by (simp add: change_check_def)
    note r1 = change_reaches_trans [OF this once [of ?t]]
    show ?thesis
    proof (cases "target_ids plc (env_shuffle env) ?alive (ce_replica_set e) (cq_new_rf req) (cq_include req) (cq_exclude req)")
      case None
      then show ?thesis using entry r1
        by (intro exI [of _ "(Chg_done (Inr False), s)"]) (simp add: change_target_def change_outcome_def reconfig_def same)
    next
      case (Some ids)
      define new where "new = map (\<lambda>nid. encode_replica_entry nid ?alive) ids"
      let ?st = "Chg_start (ce_replica_set e) (ce_version e) new"
      let ?w = "logged_write (env_outcome env) (env_clk env) RECONFIGURE_START (encode_reconfig_start (cq_chunk_id req) (ce_replica_set e) new) (st_coord s)"
      have r2: "change_reaches env plc req (Chg_check, s) (?st, s)" using r1 Some by (simp add: change_target_def new_def)
      have rc: "reconfig (env_db env) (env_ord env) plc (env_shuffle env) (env_up env) (env_outcome env) (env_clk env)
          (cq_chunk_id req) (cq_new_rf req) (cq_include req) (cq_exclude req) (st_coord s, st_nodes s) =
          ebind ?w (\<lambda>(ok, c1). if \<not> ok then Inr (False, c1, st_nodes s)
            else change_result env req (ce_replica_set e) (ce_version e) new (s\<lparr>st_coord := c1\<rparr>))"
        using entry Some by (cases ?w) (auto simp: reconfig_def change_result_def new_def [symmetric] Let_def split: prod.split)
      from change_reaches_start [of env plc req "ce_replica_set e" "ce_version e" new s] change_reaches_trans [OF r2] show ?thesis
        unfolding rc by blast
    qed
  qed
qed

lemma change_steps_result:
  assumes "old_bounded m req Chg_check (st_coord s)"
  shows "change_outcome (reconfig (env_db env) (env_ord env) plc (env_shuffle env) (env_up env) (env_outcome env) (env_clk env)
      (cq_chunk_id req) (cq_new_rf req) (cq_include req) (cq_exclude req) (st_coord s, st_nodes s)) s
    (change_steps (change_fuel m req Chg_check) env plc req (Chg_check, s))"
proof -
  obtain r s' where n: "change_steps (change_fuel m req Chg_check) env plc req (Chg_check, s) = (Chg_done r, s')"
    using change_steps_return [OF assms] by blast
  obtain qs where q0: "change_reaches env plc req (Chg_check, s) qs" and out: "change_outcome (reconfig (env_db env) (env_ord env) plc (env_shuffle env)
      (env_up env) (env_outcome env) (env_clk env) (cq_chunk_id req) (cq_new_rf req) (cq_include req) (cq_exclude req) (st_coord s, st_nodes s)) s qs"
    using change_reaches_reconfig [of env plc req s] by blast
  obtain n' where q: "change_steps n' env plc req (Chg_check, s) = qs" using q0 by (auto simp: change_reaches_def)
  obtain r' s'' where "qs = (Chg_done r', s'')" using out by (cases qs) (auto simp: change_outcome_def split: sum.splits prod.splits)
  then have "qs = (Chg_done r, s')"
    using n q change_steps_add [of "change_fuel m req Chg_check" n' env plc req "(Chg_check, s)"]
      change_steps_add [of n' "change_fuel m req Chg_check" env plc req "(Chg_check, s)"] by (simp add: add.commute)
  then show ?thesis using out n by simp
qed

section \<open>Interleaved changes\<close>

record 'db driver_system =
  ds_rpc :: "'db put_system"
  ds_changes :: "(change_req \<times> change_point) list"

datatype 'db driver_event =
    Dv_rpc "'db rpc_event"
  | Dv_change change_req
  | Dv_change_step nat placement_config "'db rpc_env"

definition move_change :: "'db rpc_env \<Rightarrow> placement_config \<Rightarrow> nat \<Rightarrow> 'db driver_system \<Rightarrow> 'db driver_system" where
  "move_change env plc i sys =
     (if i < length (ds_changes sys)
      then let (req, pc) = ds_changes sys ! i; (pc1, s1) = change_step env plc req pc (ps_state (ds_rpc sys))
           in \<lparr>ds_rpc = (ds_rpc sys)\<lparr>ps_state := s1\<rparr>, ds_changes = (ds_changes sys)[i := (req, pc1)]\<rparr>
      else sys)"

fun driver_event_step :: "rpc_service \<Rightarrow> 'db driver_event \<Rightarrow> 'db driver_system \<Rightarrow> 'db driver_system" where
  "driver_event_step svc (Dv_rpc ev) sys = sys\<lparr>ds_rpc := rpc_event_step svc ev (ds_rpc sys)\<rparr>"
| "driver_event_step svc (Dv_change req) sys = sys\<lparr>ds_changes := ds_changes sys @ [(req, Chg_check)]\<rparr>"
| "driver_event_step svc (Dv_change_step i plc env) sys = move_change env plc i sys"

definition driver_run :: "rpc_service \<Rightarrow> 'db driver_event list \<Rightarrow> 'db rpc_state \<Rightarrow> 'db driver_system" where
  "driver_run svc evs s = fold (driver_event_step svc) evs \<lparr>ds_rpc = \<lparr>ps_state = s, ps_calls = []\<rparr>, ds_changes = []\<rparr>"

lemma move_change_cases:
  assumes "i < length (ds_changes sys)"
  obtains req pc pc1 s1 where "ds_changes sys ! i = (req, pc)" "(req, pc) \<in> set (ds_changes sys)"
    "change_step env plc req pc (ps_state (ds_rpc sys)) = (pc1, s1)"
    "move_change env plc i sys = \<lparr>ds_rpc = (ds_rpc sys)\<lparr>ps_state := s1\<rparr>, ds_changes = (ds_changes sys)[i := (req, pc1)]\<rparr>"
proof -
  obtain req pc where c: "ds_changes sys ! i = (req, pc)" by fastforce
  obtain pc1 s1 where p: "change_step env plc req pc (ps_state (ds_rpc sys)) = (pc1, s1)" by fastforce
  show thesis using that [OF c _ p] assms c p nth_mem [OF assms] by (simp add: move_change_def)
qed

section \<open>What a step of a change leaves alone\<close>

definition change_req_ok :: "change_req \<Rightarrow> bool" where
  "change_req_ok req \<longleftrightarrow> id_ok (cq_chunk_id req) \<and> name_ok (cq_chunk_id req)"

fun change_wf :: "nat \<Rightarrow> change_point \<Rightarrow> bool" where
  "change_wf k (Chg_target _ v) \<longleftrightarrow> unat v \<le> k"
| "change_wf k (Chg_start _ v _) \<longleftrightarrow> unat v \<le> k"
| "change_wf k (Chg_copy _ v _) \<longleftrightarrow> unat v \<le> k"
| "change_wf k (Chg_fetch _ _ _ v _ _) \<longleftrightarrow> unat v \<le> k"
| "change_wf k (Chg_write _ _ _ v _ _ _ _) \<longleftrightarrow> unat v \<le> k"
| "change_wf k _ \<longleftrightarrow> True"

text \<open>An entry of a change affects no other chunk, whatever its replica lists look like.\<close>

lemma logged_change:
  assumes ty: "ty = RECONFIGURE_START \<or> ty = RECONFIGURE_COMMIT" and id: "id_ok cid"
    and run: "logged_write outcome clk ty (cid @ ''|'' @ rest) c = Inr (ok, c')"
  shows "node_table c' = node_table c \<and> (coord_inv c \<longrightarrow> coord_inv c') \<and> (\<forall>k. k \<noteq> cid \<longrightarrow> get_chunk c' k = get_chunk c k) \<and>
    (\<forall>k. map_option ce_version (get_chunk c' k) = map_option ce_version (get_chunk c k))"
proof -
  have "split_nonempty (cid @ CHR ''|'' # rest) CHR ''|'' = cid # split_nonempty rest CHR ''|''"
    using id by (simp add: id_ok_def split_nonempty_field)
  then have "c' = c \<or> (\<exists>os ns. c' = apply_reconfig_start cid os ns c) \<or> (\<exists>ns. c' = apply_reconfig_commit cid ns c)"
    using ty run by (auto simp: logged_write_def apply_wal_entry_def Let_def split: option.splits if_splits) blast+
  then show ?thesis
    by (auto simp: coord_inv_start coord_inv_commit option.map_comp comp_def)
qed

lemmas encode_change = encode_reconfig_start_def encode_reconfig_commit_def

lemma change_log_other:
  assumes "ty = RECONFIGURE_START \<or> ty = RECONFIGURE_COMMIT" and "id_ok cid" and "change_log env ty (cid @ ''|'' @ rest) onward s = (pc1, s1)"
  shows "st_nodes s1 = st_nodes s \<and> node_table (st_coord s1) = node_table (st_coord s) \<and> (coord_inv (st_coord s) \<longrightarrow> coord_inv (st_coord s1)) \<and>
    (\<forall>k. k \<noteq> cid \<longrightarrow> get_chunk (st_coord s1) k = get_chunk (st_coord s) k) \<and>
    (\<forall>k. map_option ce_version (get_chunk (st_coord s1) k) = map_option ce_version (get_chunk (st_coord s) k)) \<and>
    (pc1 = onward \<or> change_returned pc1)"
  using assms(3) logged_change [OF assms(1,2), of "env_outcome env" "env_clk env" rest "st_coord s"]
  by (auto simp: change_log_def split: sum.splits if_splits)

lemma change_probe_stores:
  "change_probe env req alive v e es new s = (pc1, s1) \<Longrightarrow> st_coord s1 = st_coord s \<and> same_stores (st_nodes s) (st_nodes s1) \<and>
     (pc1 = Chg_probe alive v es new \<or> pc1 = Chg_done (Inr False))"
  by (auto simp: change_probe_def ReadChunk_def same_stores_def Let_def split: option.splits if_splits sum.splits prod.splits)

lemma change_fetch_stores:
  assumes "change_fetch env req src_ids src alive v dst dsts new s = (pc1, s1)"
  shows "st_coord s1 = st_coord s \<and> same_stores (st_nodes s) (st_nodes s1) \<and>
     (pc1 = Chg_fetch src_ids src alive v dsts new \<or> pc1 = Chg_done (Inr False) \<or>
      (\<exists>data. pc1 = Chg_write src_ids src alive v (resolve_address dst alive) data dsts new))"
  using assms fetch_assembled_stores [of "st_nodes s" "env_db env" "env_up env" src "cq_chunk_id req" v]
  by (auto simp: change_fetch_def Let_def split: if_splits option.splits prod.splits)

lemma service_ok_tables:
  assumes "service_ok R k s" and "node_table (st_coord s1) = node_table (st_coord s)" and "coord_inv (st_coord s1)" and "peers_wf R (st_nodes s1)"
    and vs: "\<forall>cid. map_option ce_version (get_chunk (st_coord s1) cid) = map_option ce_version (get_chunk (st_coord s) cid)"
  shows "service_ok R k s1"
proof -
  have "unat (ce_version e) \<le> k" if e: "get_chunk (st_coord s1) cid = Some e" for cid e
  proof -
    obtain e0 where "get_chunk (st_coord s) cid = Some e0" "ce_version e0 = ce_version e" using spec [OF vs, of cid] e by (cases "get_chunk (st_coord s) cid") auto
    then show ?thesis using assms(1) by (metis service_ok_def)
  qed
  then show ?thesis using assms(1-4) by (simp add: service_ok_def table_ok_def)
qed

text \<open>A step either writes to the log, or to one storage node, or only reads.\<close>

lemma change_step_effect:
  assumes "change_step env plc req pc s = (pc1, s1)" and "id_ok (cq_chunk_id req)"
  shows "(st_nodes s1 = st_nodes s \<and> node_table (st_coord s1) = node_table (st_coord s) \<and> (coord_inv (st_coord s) \<longrightarrow> coord_inv (st_coord s1)) \<and>
      (\<forall>k. k \<noteq> cq_chunk_id req \<longrightarrow> get_chunk (st_coord s1) k = get_chunk (st_coord s) k) \<and>
      (\<forall>k. map_option ce_version (get_chunk (st_coord s1) k) = map_option ce_version (get_chunk (st_coord s) k))) \<or>
    (st_coord s1 = st_coord s \<and> same_stores (st_nodes s) (st_nodes s1)) \<or>
    (\<exists>src_ids src alive v a data dsts new ok. pc = Chg_write src_ids src alive v a data dsts new \<and> st_coord s1 = st_coord s \<and>
      write_remote (env_db env) (env_up env) a (cq_chunk_id req) v data (st_nodes s) = (ok, st_nodes s1))"
proof (cases "(env, plc, req, pc, s)" rule: change_step.cases)
  case (3 _ _ _ old v new _)
  then show ?thesis using assms change_log_other [OF _ assms(2), of RECONFIGURE_START env] by (simp add: encode_change)
next
  case (11 _ _ _ new _)
  then show ?thesis using assms change_log_other [OF _ assms(2), of RECONFIGURE_COMMIT env] by (simp add: encode_change)
next
  case (6 _ _ _ src_ids src alive v dst dsts new _)
  then show ?thesis using assms change_fetch_stores [of env req src_ids src alive v dst dsts new s] by simp
next
  case (10 _ _ _ alive v e es new _)
  then show ?thesis using assms change_probe_stores [of env req alive v e es new s] by simp
next
  case (7 _ _ _ src_ids src alive v a data dsts new _)
  obtain ok n1 where "write_remote (env_db env) (env_up env) a (cq_chunk_id req) v data (st_nodes s) = (ok, n1)" by fastforce
  then show ?thesis using assms 7 by auto
qed (use assms in auto)

lemma change_step_wf:
  assumes ok: "service_ok R k s" and wf: "change_wf k pc" and id: "id_ok (cq_chunk_id req)" and run: "change_step env plc req pc s = (pc1, s1)"
  shows "change_wf k pc1"
proof (cases "(env, plc, req, pc, s)" rule: change_step.cases)
  case (1 _ _ _ _)
  then show ?thesis using run ok by (auto simp: change_check_def service_ok_def split: option.splits)
next
  case (2 _ _ _ old v _)
  then show ?thesis using run wf by (auto simp: change_target_def Let_def split: option.splits)
next
  case (3 _ _ _ old v new _)
  then show ?thesis using run wf change_log_other [OF _ id, of RECONFIGURE_START env _ "Chg_copy old v new" s pc1 s1]
    by (cases pc1) (auto simp: encode_change)
next
  case (6 _ _ _ src_ids src alive v dst dsts new _)
  then show ?thesis using run wf change_fetch_stores [of env req src_ids src alive v dst dsts new s] by auto
next
  case (10 _ _ _ alive v e es new _)
  then show ?thesis using run change_probe_stores [of env req alive v e es new s] by auto
next
  case (11 _ _ _ new _)
  then show ?thesis using run change_log_other [OF _ id, of RECONFIGURE_COMMIT env _ "Chg_done (Inr True)" s pc1 s1]
    by (cases pc1) (auto simp: encode_change)
qed (use run wf in \<open>auto simp: Let_def split: prod.splits if_splits\<close>)

context reliable_rocksdb
begin

lemma change_step_service:
  assumes ok: "service_ok R k s" "k < 2 ^ 31" and env: "env_ok R env" and req: "change_req_ok req" and wf: "change_wf k pc"
    and run: "change_step env plc req pc s = (pc1, s1)"
  shows "service_ok R k s1"
proof -
  have id: "id_ok (cq_chunk_id req)" "name_ok (cq_chunk_id req)" "env_db env = R" using req env by (simp_all add: change_req_ok_def env_ok_def)
  have inv: "coord_inv (st_coord s)" "peers_wf R (st_nodes s)" using ok(1) by (simp_all add: service_ok_def table_ok_def)
  from change_step_effect [OF run id(1)] show ?thesis
  proof (elim disjE exE conjE)
    fix src_ids src alive v a data dsts new k1
    assume w: "pc = Chg_write src_ids src alive v a data dsts new" "write_remote (env_db env) (env_up env) a (cq_chunk_id req) v data (st_nodes s) = (k1, st_nodes s1)"
      and c: "st_coord s1 = st_coord s"
    have "version_ok v" using wf w(1) version_bound [OF _ ok(2)] by simp
    then have "peers_wf R (st_nodes s1)" using write_remote_wf [OF w(2) [unfolded id(3)] inv(2) id(2)] by simp
    then show ?thesis using service_ok_tables [OF ok(1), of s1] c inv(1) by simp
  qed (use service_ok_tables [OF ok(1), of s1] inv same_stores_wf in auto)
qed

text \<open>Other chunks, in the tables and on the nodes, are as they were.\<close>

lemma change_step_other:
  assumes env: "env_ok R env" and req: "change_req_ok req" and run: "change_step env plc req pc s = (pc1, s1)"
    and other: "cid \<noteq> cq_chunk_id req" and c: "name_ok cid"
  shows "get_chunk (st_coord s1) cid = get_chunk (st_coord s) cid"
    "node_has R (st_nodes s) a cid v x \<Longrightarrow> node_has R (st_nodes s1) a cid v x"
proof -
  have id: "id_ok (cq_chunk_id req)" "name_ok (cq_chunk_id req)" "env_db env = R" using req env by (simp_all add: change_req_ok_def env_ok_def)
  note eff = change_step_effect [OF run id(1)]
  show "get_chunk (st_coord s1) cid = get_chunk (st_coord s) cid" using eff other by auto
  assume has: "node_has R (st_nodes s) a cid v x"
  from eff consider (log) "st_nodes s1 = st_nodes s" | (read) "same_stores (st_nodes s) (st_nodes s1)"
    | (store) b w data k1 where "write_remote (env_db env) (env_up env) b (cq_chunk_id req) w data (st_nodes s) = (k1, st_nodes s1)" by blast
  then show "node_has R (st_nodes s1) a cid v x"
  proof cases
    case read
    then show ?thesis using has same_stores_node(1) by blast
  next
    case (store b w data k1)
    then show ?thesis using write_remote_keeps_data [OF has id(2) c, of w data "env_up env" b] other id(3) by simp
  qed (use has in simp)
qed

end

section \<open>Invariants of a run\<close>

fun driver_event_ok :: "'db rocksdb_ops \<Rightarrow> 'db driver_event \<Rightarrow> bool" where
  "driver_event_ok R (Dv_rpc ev) \<longleftrightarrow> rpc_event_ok R ev"
| "driver_event_ok R (Dv_change req) \<longleftrightarrow> change_req_ok req"
| "driver_event_ok R (Dv_change_step i plc env) \<longleftrightarrow> env_ok R env"

definition driver_ok :: "'db rocksdb_ops \<Rightarrow> nat \<Rightarrow> 'db driver_system \<Rightarrow> bool" where
  "driver_ok R k sys \<longleftrightarrow> system_ok R k (ds_rpc sys) \<and> (\<forall>(req, pc) \<in> set (ds_changes sys). change_req_ok req \<and> change_wf k pc)"

fun on_rpc :: "('db rpc_event \<Rightarrow> bool) \<Rightarrow> 'db driver_event \<Rightarrow> bool" where
  "on_rpc P (Dv_rpc ev) \<longleftrightarrow> P ev"
| "on_rpc P _ \<longleftrightarrow> False"

fun changes_chunk :: "string \<Rightarrow> 'db driver_event \<Rightarrow> bool" where
  "changes_chunk cid (Dv_change req) \<longleftrightarrow> cq_chunk_id req = cid"
| "changes_chunk cid _ \<longleftrightarrow> False"

definition no_change :: "string \<Rightarrow> 'db driver_system \<Rightarrow> bool" where
  "no_change cid sys \<longleftrightarrow> (\<forall>(req, pc) \<in> set (ds_changes sys). cq_chunk_id req \<noteq> cid)"

lemma change_wf_mono: "change_wf k pc \<Longrightarrow> change_wf (Suc k) pc"
  by (cases pc) auto

lemma system_ok_mono: "system_ok R k sys \<Longrightarrow> system_ok R (Suc k) sys"
  by (auto simp: system_ok_def service_ok_mono call_wf_mono)

lemma no_change_step: "no_change cid sys \<Longrightarrow> \<not> changes_chunk cid ev \<Longrightarrow> no_change cid (driver_event_step svc ev sys)"
proof (cases ev)
  case (Dv_change_step i plc env)
  assume no: "no_change cid sys"
  show ?thesis
  proof (cases "i < length (ds_changes sys)")
    case True
    obtain req pc pc1 s1 where m: "(req, pc) \<in> set (ds_changes sys)"
        "move_change env plc i sys = \<lparr>ds_rpc = (ds_rpc sys)\<lparr>ps_state := s1\<rparr>, ds_changes = (ds_changes sys)[i := (req, pc1)]\<rparr>"
      using move_change_cases [OF True, of env plc] by metis
    then show ?thesis using no Dv_change_step set_update_subset_insert [of "ds_changes sys" i "(req, pc1)"] by (auto simp: no_change_def)
  qed (use no Dv_change_step in \<open>simp add: move_change_def\<close>)
qed (auto simp: no_change_def)

context reliable_rocksdb
begin

lemma driver_ok_step:
  assumes ok: "driver_ok R k sys" "k < 2 ^ 31" and ev: "driver_event_ok R ev"
  shows "driver_ok R (Suc k) (driver_event_step svc ev sys)"
proof -
  have rpc: "system_ok R k (ds_rpc sys)" and chg: "\<forall>(req, pc) \<in> set (ds_changes sys). change_req_ok req \<and> change_wf (Suc k) pc"
    using ok(1) change_wf_mono by (auto simp: driver_ok_def)
  show ?thesis
  proof (cases ev)
    case (Dv_rpc e)
    then show ?thesis using chg ev system_ok_step [OF rpc ok(2), of e svc] by (simp add: driver_ok_def)
  next
    case (Dv_change req)
    then show ?thesis using chg ev system_ok_mono [OF rpc] by (simp add: driver_ok_def)
  next
    case (Dv_change_step i plc env)
    show ?thesis
    proof (cases "i < length (ds_changes sys)")
      case True
      obtain req pc pc1 s1 where m: "(req, pc) \<in> set (ds_changes sys)" "change_step env plc req pc (ps_state (ds_rpc sys)) = (pc1, s1)"
          "move_change env plc i sys = \<lparr>ds_rpc = (ds_rpc sys)\<lparr>ps_state := s1\<rparr>, ds_changes = (ds_changes sys)[i := (req, pc1)]\<rparr>"
        using move_change_cases [OF True, of env plc] by metis
      have r: "change_req_ok req" "change_wf k pc" "env_ok R env" "service_ok R k (ps_state (ds_rpc sys))"
        using ok(1) m(1) ev Dv_change_step rpc by (auto simp: driver_ok_def system_ok_def)
      have "service_ok R k s1" by (rule change_step_service [OF r(4) ok(2) r(3,1,2) m(2)])
      then have "system_ok R (Suc k) ((ds_rpc sys)\<lparr>ps_state := s1\<rparr>)"
        using system_ok_mono [OF rpc] service_ok_mono by (auto simp: system_ok_def)
      moreover have "change_wf (Suc k) pc1"
        using change_step_wf [OF r(4,2) _ m(2)] r(1) change_wf_mono by (simp add: change_req_ok_def)
      ultimately show ?thesis using chg r(1) m(3) Dv_change_step set_update_subset_insert [of "ds_changes sys" i "(req, pc1)"]
        by (auto simp: driver_ok_def)
    qed (use chg Dv_change_step system_ok_mono [OF rpc] in \<open>simp add: move_change_def driver_ok_def\<close>)
  qed
qed

lemma undisturbed_change:
  assumes un: "undisturbed R c cid (ds_rpc sys)" and ok: "driver_ok R k sys" and no: "no_change cid sys" and env: "env_ok R env" and name: "name_ok cid"
  shows "undisturbed R c cid (ds_rpc (move_change env plc i sys))"
proof (cases "i < length (ds_changes sys)")
  case True
  obtain req pc pc1 s1 where m: "(req, pc) \<in> set (ds_changes sys)" "change_step env plc req pc (ps_state (ds_rpc sys)) = (pc1, s1)"
      "move_change env plc i sys = \<lparr>ds_rpc = (ds_rpc sys)\<lparr>ps_state := s1\<rparr>, ds_changes = (ds_changes sys)[i := (req, pc1)]\<rparr>"
    using move_change_cases [OF True, of env plc] by metis
  have r: "change_req_ok req" "cid \<noteq> cq_chunk_id req" using ok no m(1) by (auto simp: driver_ok_def no_change_def)
  note o = change_step_other [OF env r(1) m(2) r(2) name]
  show ?thesis using undisturbed_mono [OF un o] m(3) by simp
qed (use un in \<open>simp add: move_change_def\<close>)

end

lemma driver_run_snoc [simp]: "driver_run svc (evs @ [ev]) s = driver_event_step svc ev (driver_run svc evs s)"
  by (simp add: driver_run_def)

lemma driver_run_Nil [simp]: "driver_run svc [] s = \<lparr>ds_rpc = \<lparr>ps_state = s, ps_calls = []\<rparr>, ds_changes = []\<rparr>"
  by (simp add: driver_run_def)

lemma driver_run_ok:
  assumes db: "reliable_rocksdb R" and ok: "service_ok R k s" and "k + length evs < 2 ^ 31" "list_all (driver_event_ok R) evs"
  shows "driver_ok R (k + length evs) (driver_run svc evs s)"
  using assms(3,4)
proof (induction evs rule: rev_induct)
  case (snoc ev evs)
  then show ?case using reliable_rocksdb.driver_ok_step [OF db, of "k + length evs" _ ev svc] by simp
qed (use ok in \<open>simp add: driver_ok_def system_ok_def\<close>)

lemma driver_run_undisturbed:
  assumes db: "reliable_rocksdb R" and ok: "service_ok R k s" and name: "name_ok cid"
    and "k + length evs < 2 ^ 31" "list_all (driver_event_ok R) evs"
    and "length (filter (on_rpc (puts_chunk cid)) evs) \<le> 1" "\<not> list_ex (on_rpc (deletes_chunk cid)) evs" "\<not> list_ex (changes_chunk cid) evs"
  shows "undisturbed R (st_coord s) cid (ds_rpc (driver_run svc evs s)) \<and> no_change cid (driver_run svc evs s) \<and>
    (filter (on_rpc (puts_chunk cid)) evs = [] \<longrightarrow> no_put cid (ds_rpc (driver_run svc evs s)))"
  using assms(4-)
proof (induction evs rule: rev_induct)
  case (snoc ev evs)
  let ?sys = "driver_run svc evs s"
  have sys: "driver_ok R (k + length evs) ?sys" by (rule driver_run_ok [OF db ok]) (use snoc.prems in simp_all)
  have IH: "undisturbed R (st_coord s) cid (ds_rpc ?sys)" "no_change cid ?sys"
      "filter (on_rpc (puts_chunk cid)) evs = [] \<longrightarrow> no_put cid (ds_rpc ?sys)"
    using snoc by (auto split: if_splits)
  have no: "no_change cid (driver_event_step svc ev ?sys)" using no_change_step [OF IH(2)] snoc.prems(5) by simp
  show ?case
  proof (cases ev)
    case (Dv_rpc e)
    have "puts_chunk cid e \<Longrightarrow> no_put cid (ds_rpc ?sys)" using IH(3) snoc.prems(3) Dv_rpc by simp
    moreover have "system_ok R (k + length evs) (ds_rpc ?sys)" using sys by (simp add: driver_ok_def)
    ultimately show ?thesis using undisturbed_event [OF db _ _ _ name IH(1), of "k + length evs" e svc] snoc.prems IH(3) no Dv_rpc by auto
  next
    case (Dv_change_step i plc env)
    have "env_ok R env" using snoc.prems(2) Dv_change_step by simp
    note u = reliable_rocksdb.undisturbed_change [OF db IH(1) sys IH(2) this name, of plc i]
    have "ps_calls (ds_rpc (move_change env plc i ?sys)) = ps_calls (ds_rpc ?sys)" by (simp add: move_change_def split: prod.split)
    then show ?thesis using u no IH(3) Dv_change_step by (simp add: no_put_def)
  qed (use IH no in \<open>simp add: no_put_def\<close>)
qed (simp add: undisturbed_def no_put_def no_change_def)

section \<open>A change nobody interferes with\<close>

text \<open>A replica a change has verified: its node has the recorded version or a newer one.\<close>

definition replica_holds :: "'db rocksdb_ops \<Rightarrow> 'db rpc_state \<Rightarrow> string \<Rightarrow> u64 \<Rightarrow> string \<Rightarrow> bool" where
  "replica_holds R s cid v r \<longleftrightarrow> (\<exists>a w x. a \<noteq> [] \<and> v \<le> w \<and> node_has R (st_nodes s) a cid w x \<and>
     (CHR ''='' \<in> set r \<longrightarrow> a = resolve_address r []))"

definition new_set_ok :: "change_req \<Rightarrow> string list \<Rightarrow> bool" where
  "new_set_ok req new \<longleftrightarrow> replicas_ok new \<and> length new = nat (cq_new_rf req) \<and> distinct (map extract_node_id new)"

definition entry_started :: "change_req \<Rightarrow> string list \<Rightarrow> chunk_entry \<Rightarrow> chunk_entry" where
  "entry_started req new e = e\<lparr>ce_config_state := TRANSITIONING, ce_replication_factor := cq_new_rf req,
     ce_old_replica_set := ce_replica_set e, ce_replica_set := new\<rparr>"

definition entry_changed :: "change_req \<Rightarrow> string list \<Rightarrow> chunk_entry \<Rightarrow> chunk_entry" where
  "entry_changed req new e = e\<lparr>ce_config_state := STABLE, ce_replication_factor := cq_new_rf req,
     ce_replica_set := new, ce_old_replica_set := []\<rparr>"

definition change_started :: "chunk_entry \<Rightarrow> 'db rpc_state \<Rightarrow> change_req \<Rightarrow> string list \<Rightarrow> bool" where
  "change_started e s req new \<longleftrightarrow> new_set_ok req new \<and> get_chunk (st_coord s) (cq_chunk_id req) = Some (entry_started req new e)"

text \<open>What holds of a change of a chunk whose entry was \<open>e\<close>.\<close>

fun change_good :: "'db rocksdb_ops \<Rightarrow> chunk_entry \<Rightarrow> 'db rpc_state \<Rightarrow> change_req \<Rightarrow> change_point \<Rightarrow> bool" where
  "change_good R e s req Chg_check \<longleftrightarrow> get_chunk (st_coord s) (cq_chunk_id req) = Some e"
| "change_good R e s req (Chg_target old v) \<longleftrightarrow> get_chunk (st_coord s) (cq_chunk_id req) = Some e \<and> old = ce_replica_set e \<and> v = ce_version e"
| "change_good R e s req (Chg_start old v new) \<longleftrightarrow> get_chunk (st_coord s) (cq_chunk_id req) = Some e \<and> old = ce_replica_set e \<and> v = ce_version e \<and>
     new_set_ok req new"
| "change_good R e s req (Chg_copy old v new) \<longleftrightarrow> change_started e s req new \<and> v = ce_version e"
| "change_good R e s req (Chg_fetch _ _ _ v _ new) \<longleftrightarrow> change_started e s req new \<and> v = ce_version e"
| "change_good R e s req (Chg_write _ _ _ v _ _ _ new) \<longleftrightarrow> change_started e s req new \<and> v = ce_version e"
| "change_good R e s req (Chg_verify v new) \<longleftrightarrow> change_started e s req new \<and> v = ce_version e"
| "change_good R e s req (Chg_probe alive v es new) \<longleftrightarrow> change_started e s req new \<and> v = ce_version e \<and>
     (\<exists>rs. new = rs @ es \<and> list_all (replica_holds R s (cq_chunk_id req) v) rs)"
| "change_good R e s req (Chg_commit new) \<longleftrightarrow> change_started e s req new \<and> list_all (replica_holds R s (cq_chunk_id req) (ce_version e)) new"
| "change_good R e s req (Chg_done (Inl x)) \<longleftrightarrow> False"
| "change_good R e s req (Chg_done (Inr True)) \<longleftrightarrow> (\<exists>new. new_set_ok req new \<and> get_chunk (st_coord s) (cq_chunk_id req) = Some (entry_changed req new e) \<and>
     list_all (replica_holds R s (cq_chunk_id req) (ce_version e)) new)"
| "change_good R e s req (Chg_done (Inr False)) \<longleftrightarrow> get_chunk (st_coord s) (cq_chunk_id req) = Some e \<or> (\<exists>new. change_started e s req new)"

lemma change_good_mono:
  assumes good: "change_good R e s req pc" and chunk: "get_chunk (st_coord s') (cq_chunk_id req) = get_chunk (st_coord s) (cq_chunk_id req)"
    and data: "\<And>a v x. node_has R (st_nodes s) a (cq_chunk_id req) v x \<Longrightarrow> node_has R (st_nodes s') a (cq_chunk_id req) v x"
  shows "change_good R e s' req pc"
proof -
  have holds: "list_all (replica_holds R s (cq_chunk_id req) v) rs \<Longrightarrow> list_all (replica_holds R s' (cq_chunk_id req) v) rs" for v rs
    using data unfolding list_all_iff replica_holds_def by meson
  have st: "change_started e s' req new = change_started e s req new" for new by (simp add: change_started_def chunk)
  show ?thesis using good holds by (cases "(R, e, s, req, pc)" rule: change_good.cases) (auto simp: chunk st)
qed

text \<open>What the change asks of the entry it starts from and of the request.\<close>

definition change_able :: "change_req \<Rightarrow> chunk_entry \<Rightarrow> bool" where
  "change_able req e \<longleftrightarrow> change_req_ok req \<and> 0 < cq_new_rf req \<and> cq_new_rf req < 2 ^ 31 \<and>
     (\<forall>r \<in> set (ce_replica_set e). entry_ok r) \<and> ce_replica_set e \<noteq> [] \<and> length (ce_replica_set e) < 2 ^ 31 - 1"

lemma change_target_ok:
  assumes ok: "service_ok R k s" "k < 2 ^ 31" and env: "env_ok R env" and able: "change_able req e"
    and t: "change_target env plc req (ce_replica_set e) v (st_coord s) = Chg_start old v' new"
  shows "new_set_ok req new"
proof -
  let ?alive = "get_alive_nodes (env_ord env) (st_coord s)"
  have vis: "visits_all (env_ord env)" "visits_all (env_shuffle env)" using env by (simp_all add: env_ok_def)
  have tab: "table_ok (st_coord s)" "coord_inv (st_coord s)" "length (node_table (st_coord s)) \<le> k"
    using ok(1) by (simp_all add: service_ok_def table_ok_def)
  have nodes: "node_ok n \<and> CHR ''='' \<notin> set (ne_node_id n)" if "n \<in> set ?alive" for n
    using that tab(1) alive_nodes_iff [OF vis(1) tab(2), of n] by (auto simp: table_ok_def)
  have al: "distinct (map ne_node_id ?alive)" "length ?alive < 2 ^ 31"
    using alive_nodes_distinct [OF vis(1) tab(2)] alive_length [OF vis(1), of "st_coord s"] tab(3) ok(2) by simp_all
  obtain ids where ids: "target_ids plc (env_shuffle env) ?alive (ce_replica_set e) (cq_new_rf req) (cq_include req) (cq_exclude req) = Some ids"
      "new = map (\<lambda>nid. encode_replica_entry nid ?alive) ids"
    using t by (auto simp: change_target_def Let_def split: option.splits)
  have e: "\<forall>r \<in> set (ce_replica_set e). entry_ok r" "length (ce_replica_set e) < 2 ^ 31 - 1" "0 < cq_new_rf req" "cq_new_rf req < 2 ^ 31"
    using able by (simp_all add: change_able_def)
  have p: "distinct ids" "length ids = nat (cq_new_rf req)" "set ids \<subseteq> extract_node_id ` set (ce_replica_set e) \<union> ne_node_id ` set ?alive"
    using target_ids_props [OF vis(2) al e(2,4) ids(1)] by simp_all
  have "ids \<noteq> []" using p(2) e(3) by auto
  then have "replicas_ok new" using new_nodes_ok [OF _ e(1) p(3)] nodes ids(2) by simp
  moreover have "extract_node_id (encode_replica_entry nid ?alive) = nid" if "nid \<in> set ids" for nid
    using that p(3) nodes extract_no_eq by (intro extract_encode) blast
  then have "map extract_node_id new = ids" by (simp add: ids(2) map_idI)
  ultimately show ?thesis using p(1,2) ids(2) by (simp add: new_set_ok_def)
qed

text \<open>Names with an address stand for it, whatever the tables say.\<close>

lemma resolve_address_inline: "CHR ''='' \<in> set r \<Longrightarrow> resolve_address r alive = resolve_address r []"
  using find_char_None [of "CHR ''=''" r] by (auto simp: resolve_address_def split: option.split)

lemma new_set_length: "change_able req e \<Longrightarrow> new_set_ok req new \<Longrightarrow> cast_int (length new) = cq_new_rf req"
  using cast_int_id [of "nat (cq_new_rf req)"] unfolding change_able_def new_set_ok_def by (simp add: nat_less_iff)

lemma change_log_start:
  assumes able: "change_able req e" and new: "new_set_ok req new" and chunk: "get_chunk (st_coord s) (cq_chunk_id req) = Some e"
    and run: "change_log env RECONFIGURE_START (encode_reconfig_start (cq_chunk_id req) (ce_replica_set e) new) onward s = (pc1, s1)"
  shows "(pc1 = Chg_done (Inr False) \<and> s1 = s) \<or> (pc1 = onward \<and> change_started e s1 req new)"
proof -
  have "cmd_ok (Cmd_reconfig_start (cq_chunk_id req) (ce_replica_set e) new)"
    using able new entry_ok_replicas by (simp add: change_able_def change_req_ok_def new_set_ok_def)
  note w = logged_write_cmd [OF this, of "env_outcome env" "env_clk env" "st_coord s"]
  note new_set_length [OF able new]
  moreover have "s\<lparr>st_coord := st_coord s\<rparr> = s" by (cases s) simp
  ultimately show ?thesis using run w chunk new
    by (auto simp: change_log_def change_started_def entry_started_def split: option.splits)
qed

lemma change_log_commit:
  assumes able: "change_able req e" and started: "change_started e s req new"
    and run: "change_log env RECONFIGURE_COMMIT (encode_reconfig_commit (cq_chunk_id req) new) onward s = (pc1, s1)"
  shows "(pc1 = Chg_done (Inr False) \<and> s1 = s) \<or>
    (pc1 = onward \<and> st_nodes s1 = st_nodes s \<and> get_chunk (st_coord s1) (cq_chunk_id req) = Some (entry_changed req new e))"
proof -
  have "cmd_ok (Cmd_reconfig_commit (cq_chunk_id req) new)"
    using able started by (simp add: change_able_def change_req_ok_def change_started_def new_set_ok_def)
  note w = logged_write_cmd [OF this, of "env_outcome env" "env_clk env" "st_coord s"]
  have "cast_int (length new) = cq_new_rf req" using new_set_length [OF able] started by (simp add: change_started_def)
  moreover have "s\<lparr>st_coord := st_coord s\<rparr> = s" by (cases s) simp
  ultimately show ?thesis using run w started
    by (auto simp: change_log_def change_started_def entry_started_def entry_changed_def split: option.splits)
qed

lemma change_started_tables: "st_coord s1 = st_coord s \<Longrightarrow> change_started e s1 req new = change_started e s req new"
  by (simp add: change_started_def)

context reliable_rocksdb
begin

text \<open>A replica that passes its probe holds the version.\<close>

lemma change_probe_holds:
  assumes peers: "peers_wf R (st_nodes s)" and env: "env_db env = R" and name: "name_ok (cq_chunk_id req)"
    and run: "change_probe env req alive v r rs new s = (Chg_probe alive' v' rs' new', s1)"
  shows "replica_holds R s1 (cq_chunk_id req) v r"
proof -
  let ?a = "resolve_address r alive"
  obtain sn data w sn1 where p: "?a \<noteq> []" "um_find (st_nodes s) ?a = Some sn" "ReadChunk R (cq_chunk_id req) v sn = (Inr (data, w), sn1)"
      "s1 = s\<lparr>st_nodes := um_assign ?a sn1 (st_nodes s)\<rparr>" "v \<le> w"
    using run env by (auto simp: change_probe_def Let_def split: if_splits option.splits sum.splits prod.splits)
  have rd: "store_read R (cq_chunk_id req) v (sn_store sn) = Some (data, w)" "sn_store sn1 = sn_store sn"
    using p(3) by (auto simp: ReadChunk_def split: option.splits if_splits)
  then obtain d where d: "sn_store sn = Some d" by (cases "sn_store sn") (auto simp: store_read_def)
  have "store_wf R d" using peers p(2) d unfolding peers_wf_def by blast
  then have "store_abs R d (cq_chunk_id req) w = Some data" using store_read_Some [of d "cq_chunk_id req" v data w] name rd(1) d by simp
  then have "node_has R (st_nodes s1) ?a (cq_chunk_id req) w data" using p(4) d rd(2) by (simp add: node_has_def)
  then show ?thesis using p(1,5) resolve_address_inline [of r alive] unfolding replica_holds_def by metis
qed

lemma change_step_good:
  assumes ok: "service_ok R k s" "k < 2 ^ 31" and env: "env_ok R env" and able: "change_able req e"
    and good: "change_good R e s req pc" and run: "change_step env plc req pc s = (pc1, s1)"
  shows "change_good R e s1 req pc1"
proof -
  have e: "env_db env = R" "name_ok (cq_chunk_id req)" "peers_wf R (st_nodes s)"
    using env able ok(1) by (simp_all add: env_ok_def change_able_def change_req_ok_def service_ok_def)
  show ?thesis
  proof (cases "(env, plc, req, pc, s)" rule: change_step.cases)
    case (1 _ _ _ _)
    then show ?thesis using run good by (auto simp: change_check_def split: option.splits)
  next
    case (2 _ _ _ old v _)
    then show ?thesis using run good change_target_ok [OF ok env able, of plc v]
      by (auto simp: change_target_def Let_def split: option.splits)
  next
    case (3 _ _ _ old v new _)
    then have c: "new_set_ok req new" "get_chunk (st_coord s) (cq_chunk_id req) = Some e" "v = ce_version e"
      "change_log env RECONFIGURE_START (encode_reconfig_start (cq_chunk_id req) (ce_replica_set e) new) (Chg_copy old v new) s = (pc1, s1)"
      using run good by auto
    from change_log_start [OF able c(1,2,4)] show ?thesis using c(2,3) by auto
  next
    case (6 _ _ _ src_ids src alive v dst dsts new _)
    then show ?thesis using run good change_fetch_stores [of env req src_ids src alive v dst dsts new s pc1 s1] change_started_tables [of s1 s e req new]
      by auto
  next
    case (7 _ _ _ src_ids src alive v a data dsts new _)
    then have "change_started e s1 req new" using run good change_started_tables [of s1 s e req new] by (auto simp: Let_def split: prod.splits)
    moreover have "pc1 = Chg_fetch src_ids src alive v dsts new \<or> pc1 = Chg_done (Inr False)"
      using 7 run by (auto simp: Let_def split: prod.splits if_splits)
    ultimately show ?thesis using 7 good by auto
  next
    case (10 _ _ _ alive v r rs new _)
    then have p: "change_probe env req alive v r rs new s = (pc1, s1)" using run by simp
    note st = change_probe_stores [OF p]
    obtain ps where ps: "new = ps @ r # rs" "list_all (replica_holds R s (cq_chunk_id req) v) ps" "change_started e s req new" "v = ce_version e"
      using good 10 by auto
    have "list_all (replica_holds R s1 (cq_chunk_id req) v) ps"
      using ps(2) same_stores_node(1) [of "st_nodes s" "st_nodes s1"] st unfolding list_all_iff replica_holds_def by metis
    moreover have "replica_holds R s1 (cq_chunk_id req) v r" if "pc1 = Chg_probe alive v rs new"
      using change_probe_holds [OF e(3,1,2)] p that by blast
    moreover have "change_started e s1 req new" using ps(3) st change_started_tables by blast
    moreover have "new = (ps @ [r]) @ rs" using ps(1) by simp
    ultimately show ?thesis using st ps(4) unfolding change_good.simps by (elim conjE disjE) fastforce+
  next
    case (11 _ _ _ new _)
    then have c: "change_log env RECONFIGURE_COMMIT (encode_reconfig_commit (cq_chunk_id req) new) (Chg_done (Inr True)) s = (pc1, s1)"
      "change_started e s req new" "list_all (replica_holds R s (cq_chunk_id req) (ce_version e)) new" using run good by auto
    from change_log_commit [OF able c(2,1)] show ?thesis
    proof (elim disjE conjE)
      assume p: "pc1 = Chg_done (Inr True)" "st_nodes s1 = st_nodes s" "get_chunk (st_coord s1) (cq_chunk_id req) = Some (entry_changed req new e)"
      have "replica_holds R s1 = replica_holds R s" using p(2) by (intro ext) (simp add: replica_holds_def)
      then show ?thesis using p c(2,3) by (auto simp: change_started_def)
    qed (use c(2) in auto)
  qed (use run good in \<open>auto simp: Let_def change_started_def split: prod.splits if_splits\<close>)
qed

end

text \<open>Everybody else leaves the chunk alone: requests of the service, and the steps of other changes.\<close>

lemma no_put_event:
  assumes "no_put cid sys" and "\<not> puts_chunk cid ev"
  shows "no_put cid (rpc_event_step svc ev sys)"
proof (cases ev)
  case (Ev_put_step i env)
  have "\<forall>q \<in> fst ` set (ps_calls (move_call svc env i sys)). pr_chunk_id q \<noteq> cid"
    using assms(1) move_call_requests [of svc env i sys] unfolding no_put_def by fastforce
  then show ?thesis using Ev_put_step by (auto simp: no_put_def)
qed (use assms in \<open>auto simp: no_put_def split: sum.split prod.split\<close>)

lemma rpc_event_other:
  assumes db: "reliable_rocksdb R" and ok: "system_ok R k sys" and ev: "rpc_event_ok R ev" "\<not> deletes_chunk cid ev" and name: "name_ok cid"
    and no: "no_put cid sys"
  shows "get_chunk (st_coord (ps_state (rpc_event_step svc ev sys))) cid = get_chunk (st_coord (ps_state sys)) cid"
    "node_has R (st_nodes (ps_state sys)) a cid v x \<Longrightarrow> node_has R (st_nodes (ps_state (rpc_event_step svc ev sys))) a cid v x"
proof -
  let ?s = "ps_state sys" and ?s1 = "ps_state (rpc_event_step svc ev sys)"
  have "get_chunk (st_coord ?s1) cid = get_chunk (st_coord ?s) cid \<and> (node_has R (st_nodes ?s) a cid v x \<longrightarrow> node_has R (st_nodes ?s1) a cid v x)"
  proof (cases ev)
    case (Ev_put_step i env)
    show ?thesis
    proof (cases "i < length (ps_calls sys)")
      case True
      obtain req pc pc1 s1 where m: "(req, pc) \<in> set (ps_calls sys)" "put_step svc env req pc ?s = (pc1, s1)"
          "move_call svc env i sys = \<lparr>ps_state = s1, ps_calls = (ps_calls sys)[i := (req, pc1)]\<rparr>"
        using move_call_cases [OF True] by metis
      have rq: "request_ok req" "call_wf k req pc" "env_ok R env" "peers_wf R (st_nodes ?s)" "cid \<noteq> pr_chunk_id req"
        using ok m(1) ev(1) no Ev_put_step by (auto simp: system_ok_def service_ok_def no_put_def)
      then show ?thesis using reliable_rocksdb.put_step_other [OF db rq(4,3,1,2) m(2) rq(5) name] m(3) Ev_put_step by simp
    qed (use Ev_put_step in \<open>simp add: move_call_def\<close>)
  next
    case (Ev_delete d env)
    then show ?thesis using ev(2) DeleteChunk_run [of svc env d "st_coord ?s"] by (auto split: sum.split)
  next
    case (Ev_heartbeat req env)
    then show ?thesis using NodeHeartbeat_run [of svc env req ?s _ _ R] ev(1) by (fastforce split: sum.split)
  qed simp
  then show "get_chunk (st_coord ?s1) cid = get_chunk (st_coord ?s) cid"
    "node_has R (st_nodes ?s) a cid v x \<Longrightarrow> node_has R (st_nodes ?s1) a cid v x" by simp_all
qed

text \<open>The calls of a list that concern a chunk, when one of them moves.\<close>

lemma filter_update_other:
  assumes "i < length xs" and "\<not> P (xs ! i)" and "\<not> P y"
  shows "filter P (xs[i := y]) = filter P xs"
proof -
  have "filter P xs = filter P (take i xs @ xs ! i # drop (Suc i) xs)" using id_take_nth_drop [OF assms(1)] by simp
  then show ?thesis using assms by (simp add: upd_conv_take_nth_drop)
qed

lemma filter_update_only:
  assumes "i < length xs" and "P (xs ! i)" and "P y" and "length (filter P xs) \<le> 1"
  shows "filter P xs = [xs ! i]" "filter P (xs[i := y]) = [y]"
proof -
  have eq: "filter P xs = filter P (take i xs) @ xs ! i # filter P (drop (Suc i) xs)"
    using arg_cong [OF id_take_nth_drop [OF assms(1)], of "filter P"] assms(2) by simp
  then have "filter P (take i xs) = []" "filter P (drop (Suc i) xs) = []" using assms(4) by simp_all
  then show "filter P xs = [xs ! i]" "filter P (xs[i := y]) = [y]" using eq assms(1,3) by (simp_all add: upd_conv_take_nth_drop)
qed

definition changes_of :: "string \<Rightarrow> 'db driver_system \<Rightarrow> (change_req \<times> change_point) list" where
  "changes_of cid sys = filter (\<lambda>c. cq_chunk_id (fst c) = cid) (ds_changes sys)"

text \<open>No put of the chunk, and at most one change of it, which is as it should be.\<close>

definition change_undisturbed :: "'db rocksdb_ops \<Rightarrow> chunk_entry \<Rightarrow> string \<Rightarrow> 'db driver_system \<Rightarrow> bool" where
  "change_undisturbed R e cid sys \<longleftrightarrow> no_put cid (ds_rpc sys) \<and>
     ((changes_of cid sys = [] \<and> get_chunk (st_coord (ps_state (ds_rpc sys))) cid = Some e) \<or>
      (\<exists>req pc. changes_of cid sys = [(req, pc)] \<and> (change_able req e \<longrightarrow> change_good R e (ps_state (ds_rpc sys)) req pc)))"

lemma changes_of_member: "changes_of cid sys = [(req, pc)] \<Longrightarrow> cq_chunk_id req = cid \<and> (req, pc) \<in> set (ds_changes sys)"
  using filter_set [of "\<lambda>c. cq_chunk_id (fst c) = cid" "ds_changes sys"] by (auto simp: changes_of_def dest: filter_eq_ConsD)

lemma change_undisturbed_mono:
  assumes un: "change_undisturbed R e cid sys" and no: "no_put cid (ds_rpc sys1)" and same: "changes_of cid sys1 = changes_of cid sys"
    and chunk: "get_chunk (st_coord (ps_state (ds_rpc sys1))) cid = get_chunk (st_coord (ps_state (ds_rpc sys))) cid"
    and data: "\<And>a v x. node_has R (st_nodes (ps_state (ds_rpc sys))) a cid v x \<Longrightarrow> node_has R (st_nodes (ps_state (ds_rpc sys1))) a cid v x"
  shows "change_undisturbed R e cid sys1"
proof -
  have "change_good R e (ps_state (ds_rpc sys1)) req pc"
    if "changes_of cid sys = [(req, pc)]" "change_good R e (ps_state (ds_rpc sys)) req pc" for req pc
    by (rule change_good_mono [OF that(2)]) (use changes_of_member [OF that(1)] chunk data in auto)
  then show ?thesis using un no chunk unfolding change_undisturbed_def same by auto
qed

lemma change_undisturbed_step:
  assumes db: "reliable_rocksdb R" and ok: "driver_ok R k sys" "k < 2 ^ 31" and env: "env_ok R env" and name: "name_ok cid"
    and un: "change_undisturbed R e cid sys"
  shows "change_undisturbed R e cid (move_change env plc i sys)"
proof (cases "i < length (ds_changes sys)")
  case True
  obtain req pc pc1 s1 where m: "ds_changes sys ! i = (req, pc)" "(req, pc) \<in> set (ds_changes sys)"
      "change_step env plc req pc (ps_state (ds_rpc sys)) = (pc1, s1)"
      "move_change env plc i sys = \<lparr>ds_rpc = (ds_rpc sys)\<lparr>ps_state := s1\<rparr>, ds_changes = (ds_changes sys)[i := (req, pc1)]\<rparr>"
    using move_change_cases [OF True, of env plc] by metis
  have r: "change_req_ok req" "service_ok R k (ps_state (ds_rpc sys))" using ok(1) m(2) by (auto simp: driver_ok_def system_ok_def)
  have no: "no_put cid (ds_rpc (move_change env plc i sys))" using un m(4) by (simp add: change_undisturbed_def no_put_def)
  show ?thesis
  proof (cases "cq_chunk_id req = cid")
    case False
    note o = reliable_rocksdb.change_step_other [OF db env r(1) m(3) _ name]
    have "changes_of cid (move_change env plc i sys) = changes_of cid sys"
      using filter_update_other [OF True, of "\<lambda>c. cq_chunk_id (fst c) = cid" "(req, pc1)"] m(1,4) False by (simp add: changes_of_def)
    then show ?thesis by (rule change_undisturbed_mono [OF un no]) (use o False m(4) in auto)
  next
    case own: True
    have "length (changes_of cid sys) \<le> 1" using un by (auto simp: change_undisturbed_def)
    have f: "changes_of cid sys = [(req, pc)]" "changes_of cid (move_change env plc i sys) = [(req, pc1)]"
      using filter_update_only [OF True, of "\<lambda>c. cq_chunk_id (fst c) = cid" "(req, pc1)"] \<open>length (changes_of cid sys) \<le> 1\<close> m(1,4) own
      by (simp_all add: changes_of_def)
    have "change_good R e s1 req pc1" if able: "change_able req e"
      using reliable_rocksdb.change_step_good [OF db r(2) ok(2) env able _ m(3)] un f(1) able by (auto simp: change_undisturbed_def)
    then show ?thesis using no f(2) m(4) by (simp add: change_undisturbed_def)
  qed
qed (use un in \<open>simp add: move_change_def\<close>)

lemma change_undisturbed_event:
  assumes db: "reliable_rocksdb R" and ok: "driver_ok R k sys" "k < 2 ^ 31" and ev: "driver_event_ok R ev" and name: "name_ok cid"
    and others: "\<not> on_rpc (puts_chunk cid) ev" "\<not> on_rpc (deletes_chunk cid) ev" "changes_chunk cid ev \<longrightarrow> changes_of cid sys = []"
    and un: "change_undisturbed R e cid sys"
  shows "change_undisturbed R e cid (driver_event_step svc ev sys)"
proof (cases ev)
  case (Dv_rpc rv)
  have sys: "system_ok R k (ds_rpc sys)" "no_put cid (ds_rpc sys)" using ok(1) un by (simp_all add: driver_ok_def change_undisturbed_def)
  have e: "rpc_event_ok R rv" "\<not> deletes_chunk cid rv" "\<not> puts_chunk cid rv" using ev others Dv_rpc by simp_all
  note o = rpc_event_other [OF db sys(1) e(1,2) name sys(2)]
  show ?thesis by (rule change_undisturbed_mono [OF un]) (use Dv_rpc no_put_event [OF sys(2) e(3)] o in \<open>auto simp: changes_of_def\<close>)
next
  case (Dv_change req)
  show ?thesis
  proof (cases "cq_chunk_id req = cid")
    case True
    then show ?thesis using un others(3) Dv_change by (auto simp: change_undisturbed_def changes_of_def no_put_def)
  next
    case False
    show ?thesis by (rule change_undisturbed_mono [OF un]) (use un Dv_change False in \<open>auto simp: change_undisturbed_def changes_of_def no_put_def\<close>)
  qed
next
  case (Dv_change_step i plc env)
  then show ?thesis using change_undisturbed_step [OF db ok _ name un] ev by simp
qed

lemma changes_of_event:
  assumes "\<not> changes_chunk cid ev"
  shows "changes_of cid sys = [] \<Longrightarrow> changes_of cid (driver_event_step svc ev sys) = []"
  using assms no_change_step [of cid sys ev svc] by (auto simp: changes_of_def no_change_def filter_empty_conv split_beta)

lemma driver_run_changes:
  assumes db: "reliable_rocksdb R" and ok: "service_ok R k s" and name: "name_ok cid" and chunk: "get_chunk (st_coord s) cid = Some e"
    and "k + length evs < 2 ^ 31" "list_all (driver_event_ok R) evs"
    and "length (filter (changes_chunk cid) evs) \<le> 1" "\<not> list_ex (on_rpc (puts_chunk cid)) evs" "\<not> list_ex (on_rpc (deletes_chunk cid)) evs"
  shows "change_undisturbed R e cid (driver_run svc evs s) \<and> (filter (changes_chunk cid) evs = [] \<longrightarrow> changes_of cid (driver_run svc evs s) = [])"
  using assms(5-)
proof (induction evs rule: rev_induct)
  case (snoc ev evs)
  let ?sys = "driver_run svc evs s"
  have sys: "driver_ok R (k + length evs) ?sys" by (rule driver_run_ok [OF db ok]) (use snoc.prems in simp_all)
  have IH: "change_undisturbed R e cid ?sys" "filter (changes_chunk cid) evs = [] \<longrightarrow> changes_of cid ?sys = []"
    using snoc by (auto split: if_splits)
  have "changes_chunk cid ev \<longrightarrow> changes_of cid ?sys = []" using IH(2) snoc.prems(3) by (cases "changes_chunk cid ev") simp_all
  then have "change_undisturbed R e cid (driver_event_step svc ev ?sys)"
    using change_undisturbed_event [OF db sys _ _ name _ _ _ IH(1), of ev svc] snoc.prems by simp
  then show ?case using IH(2) changes_of_event [of cid ev ?sys svc] by simp
qed (use chunk in \<open>simp add: change_undisturbed_def changes_of_def no_put_def\<close>)

section \<open>A cluster of two nodes\<close>

text \<open>Chunk \<open>c\<close> is on both nodes; the change takes it off the first, and a put selects the first.\<close>

definition shared_chunk :: chunk_entry where
  "shared_chunk = \<lparr>ce_chunk_id = ''c'', ce_version = 1, ce_replica_set = [''n1=h:1'', ''n2=h:2''], ce_replication_factor = 2,
     ce_config_state = STABLE, ce_old_replica_set = [], ce_size_bytes = 3\<rparr>"

abbreviation old_data :: mem_db where
  "old_data \<equiv> [(make_key ''c'' 1, ''old'')]"

definition cluster_of_two :: "(string, chunk_entry) umap \<Rightarrow> mem_db \<Rightarrow> reporter \<Rightarrow> mem_db rpc_state" where
  "cluster_of_two chunks db rep = \<lparr>st_coord = \<lparr>chunk_table = chunks,
       node_table = [(''n1'', demo_node ''n1'' ''h:1'' True), (''n2'', demo_node ''n2'' ''h:2'' True)]\<rparr>, st_policy = [],
     st_nodes = [(''h:1'', \<lparr>sn_store = Some db, sn_reporter = new_reporter\<rparr>), (''h:2'', \<lparr>sn_store = Some old_data, sn_reporter = rep\<rparr>)]\<rparr>"

definition two_nodes :: "mem_db rpc_state" where
  "two_nodes = cluster_of_two [(''c'', shared_chunk)] old_data new_reporter"

definition leave_n1 :: change_req where
  "leave_n1 = \<lparr>cq_chunk_id = ''c'', cq_new_rf = 1, cq_include = [], cq_exclude = ''n1''\<rparr>"

abbreviation put_turn :: "mem_db driver_event" where
  "put_turn \<equiv> Dv_rpc (Ev_put_step 0 (demo_env True))"

abbreviation change_turn :: "mem_db driver_event" where
  "change_turn \<equiv> Dv_change_step 0 default_placement_config (demo_env True)"

text \<open>A put of another chunk and the change, step by step in turn.\<close>

abbreviation req_d :: put_req where
  "req_d \<equiv> \<lparr>pr_chunk_id = ''d'', pr_size_bytes = 1, pr_desired_rf = 1, pr_data = ''b''\<rparr>"

definition put_and_change :: "mem_db driver_event list" where
  "put_and_change = ([Dv_rpc (Ev_put req_d), Dv_change leave_n1] @ concat (replicate 4 [put_turn, change_turn])) @
     concat (replicate 2 [put_turn, change_turn]) @ replicate 4 change_turn"

text \<open>A put of the same chunk, which passes its check before the change starts and is recorded before the change commits.\<close>

definition put_within_change :: "mem_db driver_event list" where
  "put_within_change = ([Dv_rpc (Ev_put (demo_req ''b'')), put_turn, Dv_change leave_n1] @ replicate 3 change_turn @ replicate 5 put_turn) @
     replicate 7 change_turn"

lemma driver_run_append: "driver_run svc (xs @ ys) s = fold (driver_event_step svc) ys (driver_run svc xs s)"
  by (simp add: driver_run_def)

abbreviation put_and_change_half :: "mem_db driver_system" where
  "put_and_change_half \<equiv> \<lparr>ds_rpc = \<lparr>
       ps_state = cluster_of_two [(''c'', entry_started leave_n1 [''n2=h:2''] shared_chunk)] [(make_key ''c'' 1, ''old''), (make_key ''d'' 1, ''b'')] new_reporter,
       ps_calls = [(req_d, Put_write [] 1 [''n1=h:1''] [''h:1''] [])]\<rparr>,
     ds_changes = [(leave_n1, Chg_fetch [''n1'', ''n2''] ''h:1'' [demo_node ''n1'' ''h:1'' True, demo_node ''n2'' ''h:2'' True] 1
       [''n2=h:2''] [''n2=h:2''])]\<rparr>"

lemma put_and_change_start:
  "driver_run demo_service ([Dv_rpc (Ev_put req_d), Dv_change leave_n1] @ concat (replicate 4 [put_turn, change_turn])) two_nodes = put_and_change_half"
  by code_simp

lemma put_and_change_end:
  "let sys = fold (driver_event_step demo_service) (concat (replicate 2 [put_turn, change_turn]) @ replicate 4 change_turn) put_and_change_half
   in (ps_calls (ds_rpc sys), ds_changes sys) = ([(req_d, Put_done (Inr (Inr (1, [''n1=h:1'']))))], [(leave_n1, Chg_done (Inr True))])"
  by code_simp

lemma put_and_change_run:
  "(req_d, Put_done (Inr (Inr (1, [''n1=h:1''])))) \<in> set (ps_calls (ds_rpc (driver_run demo_service put_and_change two_nodes)))"
  "(leave_n1, Chg_done (Inr True)) \<in> set (ds_changes (driver_run demo_service put_and_change two_nodes))"
  using put_and_change_end unfolding put_and_change_def driver_run_append [of demo_service "_ @ _"] put_and_change_start by (simp_all add: Let_def)

abbreviation reput_chunk :: "string list \<Rightarrow> chunk_entry" where
  "reput_chunk rs \<equiv> \<lparr>ce_chunk_id = ''c'', ce_version = 2, ce_replica_set = rs, ce_replication_factor = 1,
     ce_config_state = STABLE, ce_old_replica_set = [], ce_size_bytes = 1\<rparr>"

abbreviation put_within_half :: "mem_db driver_system" where
  "put_within_half \<equiv> \<lparr>ds_rpc = \<lparr>
       ps_state = cluster_of_two [(''c'', reput_chunk [''n1=h:1''])] [(make_key ''c'' 1, ''old''), (make_key ''c'' 2, ''b'')] new_reporter,
       ps_calls = [(demo_req ''b'', Put_done (Inr (Inr (2, [''n1=h:1'']))))]\<rparr>,
     ds_changes = [(leave_n1, Chg_copy [''n1=h:1'', ''n2=h:2''] 1 [''n2=h:2''])]\<rparr>"

lemma put_within_start:
  "driver_run demo_service ([Dv_rpc (Ev_put (demo_req ''b'')), put_turn, Dv_change leave_n1] @ replicate 3 change_turn @ replicate 5 put_turn) two_nodes =
     put_within_half"
  by code_simp

abbreviation put_within_whole :: "mem_db driver_system" where
  "put_within_whole \<equiv> \<lparr>ds_rpc = \<lparr>
       ps_state = cluster_of_two [(''c'', reput_chunk [''n2=h:2''])] [(make_key ''c'' 1, ''old''), (make_key ''c'' 2, ''b'')]
         (record_access ''c'' new_reporter),
       ps_calls = [(demo_req ''b'', Put_done (Inr (Inr (2, [''n1=h:1'']))))]\<rparr>,
     ds_changes = [(leave_n1, Chg_done (Inr True))]\<rparr>"

lemma put_within_end: "fold (driver_event_step demo_service) (replicate 7 change_turn) put_within_half = put_within_whole"
  by code_simp

lemma put_within_run: "driver_run demo_service put_within_change two_nodes = put_within_whole"
  unfolding put_within_change_def driver_run_append [of demo_service "_ @ _"] put_within_start put_within_end ..

lemma two_nodes_ok: "service_ok mem_rocksdb 2 two_nodes"
proof -
  have "name_ok ''c''" "version_ok (1 :: u64)" by (simp_all add: name_ok_def version_ok_def)
  then have "store_wf mem_rocksdb old_data" by (auto simp: store_wf_def mem_rocksdb_def split: if_splits)
  then show ?thesis
    by (auto simp: service_ok_def table_ok_def two_nodes_def cluster_of_two_def shared_chunk_def demo_node_def coord_inv_def um_wf_def node_ok_def replica_ok_def
        chunk_ok_def peers_wf_def get_chunk_def split: if_splits)
qed

lemma two_nodes_events:
  "list_all (driver_event_ok mem_rocksdb) put_and_change" "list_all (driver_event_ok mem_rocksdb) put_within_change"
  using demo_events_ok(1) [of True]
  by (simp_all add: put_and_change_def put_within_change_def leave_n1_def demo_req_def change_req_ok_def id_ok_def name_ok_def int32_def numeral_eq_Suc)

section \<open>Properties\<close>


text \<open>
  C3. Handlers and replica changes of different chunks do not disturb each other. In any interleaving of
  any number of puts, deletions, heartbeats and replica changes, in which nodes and log may answer or
  fail at every step, a put that has reported success keeps its promise as long as no other put,
  deletion or change concerns its chunk: the chunk is recorded as stable with the reported version,
  one more than before, and the reported entries, which name as many different nodes as asked for, and
  more than half of them hold the bytes. The clean-up of failing puts, the copies of changes of other
  chunks and the heartbeats that move nodes change none of it.
\<close>

theorem concurrent_handlers_durable:
  assumes db: "reliable_rocksdb R" and ok: "service_ok R k s" and budget: "k + length evs < 2 ^ 31" and evs: "list_all (driver_event_ok R) evs"
    and alone: "length (filter (on_rpc (puts_chunk (pr_chunk_id req))) evs) \<le> 1" "\<not> list_ex (on_rpc (deletes_chunk (pr_chunk_id req))) evs"
      "\<not> list_ex (changes_chunk (pr_chunk_id req)) evs"
    and run: "(req, Put_done (Inr (Inr (v, entries)))) \<in> set (ps_calls (ds_rpc (driver_run svc evs s)))"
  shows "v = next_version (st_coord s) (pr_chunk_id req) \<and> length entries = nat (pr_desired_rf req) \<and> distinct (map extract_node_id entries) \<and>
    get_chunk (st_coord (ps_state (ds_rpc (driver_run svc evs s)))) (pr_chunk_id req) = Some \<lparr>ce_chunk_id = pr_chunk_id req, ce_version = v,
      ce_replica_set = entries, ce_replication_factor = pr_desired_rf req, ce_config_state = STABLE, ce_old_replica_set = [],
      ce_size_bytes = pr_size_bytes req\<rparr> \<and>
    (\<exists>oks. subseq oks entries \<and> length entries < 2 * length oks \<and>
       (\<forall>r \<in> set oks. node_has R (st_nodes (ps_state (ds_rpc (driver_run svc evs s)))) (resolve_address r []) (pr_chunk_id req) v (pr_data req)))"
proof -
  let ?sys = "ds_rpc (driver_run svc evs s)"
  have "request_ok req" using driver_run_ok [OF db ok budget evs, of svc] run by (auto simp: driver_ok_def system_ok_def)
  then have "name_ok (pr_chunk_id req)" by (simp add: request_ok_def)
  then have "undisturbed R (st_coord s) (pr_chunk_id req) ?sys" using driver_run_undisturbed [OF db ok _ budget evs alone] by blast
  then have "call_good R (st_coord s) (ps_state ?sys) req (Put_done (Inr (Inr (v, entries))))" using run by (auto simp: undisturbed_def)
  then show ?thesis by (auto simp: put_holds_def selection_ok_def dest: arg_cong [of _ _ length])
qed

theorem concurrent_handlers_durable_witness:
  "node_has mem_rocksdb (st_nodes (ps_state (ds_rpc (driver_run demo_service put_and_change two_nodes)))) ''h:1'' ''d'' 1 ''b''"
proof -
  have "length put_and_change = 18" by (simp add: put_and_change_def numeral_eq_Suc)
  then have 1: "2 + length put_and_change < 2 ^ 31" by simp
  have 2: "length (filter (on_rpc (puts_chunk (pr_chunk_id req_d))) put_and_change) \<le> 1" "\<not> list_ex (on_rpc (deletes_chunk (pr_chunk_id req_d))) put_and_change"
    "\<not> list_ex (changes_chunk (pr_chunk_id req_d)) put_and_change"
    by (simp_all add: put_and_change_def leave_n1_def demo_req_def numeral_eq_Suc)
  have "resolve_address ''n1=h:1'' [] = ''h:1''" by code_simp
  moreover obtain oks where "subseq oks [''n1=h:1'']" "length [''n1=h:1''] < 2 * length oks"
      "\<forall>r \<in> set oks. node_has mem_rocksdb (st_nodes (ps_state (ds_rpc (driver_run demo_service put_and_change two_nodes)))) (resolve_address r [])
         (pr_chunk_id req_d) 1 (pr_data req_d)"
    using concurrent_handlers_durable [OF mem.reliable_rocksdb_axioms two_nodes_ok 1 two_nodes_events(1) 2 put_and_change_run(1)] by blast
  ultimately show ?thesis by (cases oks) (auto simp: demo_req_def split: if_splits)
qed




end
