(* ===== verification/Repl_Progress.thy ===== *)
theory Repl_Progress
  imports Meta_Replication
begin

text \<open>
  Progress of replication. The threads of \<^verbatim>\<open>MetaReplication::replicate_to_follower\<close> are detached
  and their catch-up loop runs over indices, sending each entry anew; here it is shown that they
  end, whatever the network does and however they are interleaved (a measure that every action of
  a thread lowers), and that a thread whose calls are answered brings its follower up to the entry
  it was started for.
\<close>

section \<open>Actions left\<close>

text \<open>
  An upper bound on the actions a thread has left: three for each index the catch-up loop may still
  visit, one for the first attempt.
\<close>

fun pc_fuel :: "nat \<Rightarrow> repl_pc \<Rightarrow> nat" where
  "pc_fuel n Send = 3 * n + 4"
| "pc_fuel n Record = 2"
| "pc_fuel n Commit = 1"
| "pc_fuel n (Catch_up i) = 3 * (n - unat i) + 3"
| "pc_fuel n (Catch_record ce) = 3 * (n - unat (we_index ce)) + 2"
| "pc_fuel n (Catch_commit ce) = 3 * (n - unat (we_index ce)) + 1"

definition thread_fuel :: "repl_thread \<Rightarrow> nat" where
  "thread_fuel th = pc_fuel (unat (we_index (rt_entry th))) (rt_pc th)"

definition threads_fuel :: "'db cluster \<Rightarrow> nat" where
  "threads_fuel cl = sum_list (map thread_fuel (cl_threads cl))"

lemma thread_fuel_pos: "0 < thread_fuel th"
  by (cases "rt_pc th") (simp_all add: thread_fuel_def)

lemma read_back_index: "wal_read_entry R i w = Inr (Some e) \<Longrightarrow> we_index e = i"
  by (auto simp: wal_read_entry_def decode_entry_def split: option.splits if_splits)

lemma replicate_step_fuel:
  assumes ok: "log_ok L" and th: "thread_ok L len th" and run: "replicate_step R clk now net th cl = (Some th', cl')"
  shows "thread_fuel th' < thread_fuel th"
proof (cases "rt_pc th")
  case (Catch_commit ce)
  have ce: "in_log L ce" using th Catch_commit by simp
  obtain j where "unat (we_index ce) = Suc j" "j < length L" using in_log_index [OF ok ce] by metis
  then have "Suc (unat (we_index ce)) < 2 ^ 64" using ok by (simp add: log_ok_def)
  then have nx: "unat (we_index ce + 1) = Suc (unat (we_index ce))" by (intro unat_u64_Suc) (simp add: u64_not_max)
  have r: "th' = th\<lparr>rt_pc := Catch_up (we_index ce + 1)\<rparr>" "we_index ce + 1 \<le> we_index (rt_entry th)"
    using run Catch_commit by (auto simp: replicate_step_def Let_def split: if_splits)
  then show ?thesis using Catch_commit nx by (simp add: thread_fuel_def word_le_nat_alt)
next
  case (Catch_up i)
  then show ?thesis using run
    by (auto simp: replicate_step_def Let_def thread_fuel_def dest: read_back_index split: sum.splits option.splits prod.splits if_splits)
qed (use run in \<open>auto simp: replicate_step_def Let_def thread_fuel_def split: prod.splits if_splits option.splits\<close>)

lemma sum_list_update_less:
  "i < length xs \<Longrightarrow> y < xs ! i \<Longrightarrow> sum_list (xs[i := y]) < (sum_list xs :: nat)"
  by (induction xs arbitrary: i) (auto split: nat.split)

lemma sum_list_remove_less:
  "i < length xs \<Longrightarrow> 0 < f (xs ! i) \<Longrightarrow> sum_list (map f (remove_nth i xs)) < (sum_list (map f xs) :: nat)"
proof -
  assume i: "i < length xs" "0 < f (xs ! i)"
  have "sum_list (map f xs) = sum_list (map f (take i xs)) + f (xs ! i) + sum_list (map f (drop (Suc i) xs))"
    using arg_cong [OF id_take_nth_drop [OF i(1)], of "\<lambda>l. sum_list (map f l)"] by simp
  then show ?thesis using i(2) by (simp add: remove_nth_def)
qed

lemma thread_event_fuel:
  assumes inv: "cluster_inv R nf cl s" and i: "i < length (cl_threads cl)"
  shows "threads_fuel (cluster_step R clk (Ev_thread i now net) cl) < threads_fuel cl"
proof -
  obtain r cl1 where r: "replicate_step R clk now net (cl_threads cl ! i) cl = (r, cl1)" by fastforce
  have th: "thread_ok (spec_entries s) (node_len (cl_nodes cl)) (cl_threads cl ! i)"
    using cluster_invD(6) [OF inv] i by (auto simp: threads_ok_def)
  show ?thesis
  proof (cases r)
    case None
    then show ?thesis using r i thread_fuel_pos by (simp add: cluster_step_def threads_fuel_def sum_list_remove_less)
  next
    case (Some th')
    have "thread_fuel th' < map thread_fuel (cl_threads cl) ! i"
      using replicate_step_fuel [OF cluster_invD(3) [OF inv] th] r Some i by simp
    then show ?thesis using r i Some sum_list_update_less [of i "map thread_fuel (cl_threads cl)"]
      by (simp add: cluster_step_def threads_fuel_def map_update)
  qed
qed

section \<open>A thread whose calls are answered\<close>

fun run_thread :: "nat \<Rightarrow> 'db rocksdb_ops \<Rightarrow> (u64 \<Rightarrow> u64) \<Rightarrow> u64 \<Rightarrow> repl_thread \<Rightarrow> 'db cluster \<Rightarrow> 'db cluster option" where
  "run_thread 0 R clk now th cl = None"
| "run_thread (Suc n) R clk now th cl = (case replicate_step R clk now Delivered th cl of
     (None, cl1) \<Rightarrow> Some cl1
   | (Some th1, cl1) \<Rightarrow> run_thread n R clk now th1 cl1)"

lemma run_thread_more: "run_thread n R clk now th cl = Some cl' \<Longrightarrow> n \<le> m \<Longrightarrow> run_thread m R clk now th cl = Some cl'"
proof (induction n arbitrary: m th cl)
  case (Suc n)
  then obtain k where "m = Suc k" "n \<le> k" by (cases m) auto
  then show ?case using Suc by (auto split: prod.splits option.splits)
qed simp

text \<open>The follower is there, and the leader knows it and how far it has come.\<close>

definition follower_at :: "'db cluster \<Rightarrow> string \<Rightarrow> u64 \<Rightarrow> bool" where
  "follower_at cl a i \<longleftrightarrow> um_find (cl_nodes cl) a \<noteq> None \<and>
     (\<exists>f. um_find (le_followers (cl_leader cl)) a = Some f \<and> i \<le> fs_match_index f)"

lemma follower_at_ack: "follower_at cl a j \<Longrightarrow> follower_at (cl\<lparr>cl_leader := record_ack now a i (cl_leader cl)\<rparr>) a i"
  using record_ack_match [of now a i "cl_leader cl" a]
  by (cases "um_find (le_followers (record_ack now a i (cl_leader cl))) a") (auto simp: follower_at_def)

context reliable_rocksdb
begin

lemma append_entry_accepts:
  assumes nd: "node_rel R nd s" and pre: "prefix (spec_entries s) L" and ok: "log_ok L" and e: "in_log L e"
    and nxt: "unat (we_index e) \<le> Suc (length (spec_entries s))"
    and ae: "AppendEntry R 1 (we_index e - 1) 1 e lc nd = (r, nd')"
  shows "\<exists>t. r = Inr (True, t)"
proof -
  obtain i where i: "i < length L" "e = L ! i" "unat (we_index e) = Suc i" "we_term e = 1"
    "type_ok (we_type e)" "payload_ok (we_payload e)" using in_log_index [OF ok e] .
  have rel: "wal_rel R (fo_wal (mn_follower nd)) s" "fo_term (mn_follower nd) \<le> 1"
      "db_get R (wal_db (fo_wal (mn_follower nd))) (wal_key 0) = None"
    using nd by (auto simp: node_rel_def)
  have len: "length L < 2 ^ 64 - 1" using ok by (simp add: log_ok_def)
  have same: "spec_entries s ! i = e" if "i < length (spec_entries s)" using pre that i(2) by (auto simp: prefix_def nth_append)
  show ?thesis
  proof (cases "Suc i \<le> length (spec_entries s)")
    case True
    have "we_index e \<le> last_index (fo_wal (mn_follower nd))" using True i(3) wal_rel_last [OF rel(1)] by (simp add: word_le_nat_alt)
    moreover have "wal_read_entry R (we_index e) (fo_wal (mn_follower nd)) = Inr (Some e)"
      using wal_rel_read [OF rel(1), of "we_index e"] True i(3) same by (simp add: word_le_nat_alt)
    ultimately show ?thesis using ae rel(2) by (auto simp: AppendEntry_def handle_append_def Let_def not_less [symmetric])
  next
    case False
    then have n: "length (spec_entries s) = i" using nxt i(3) by simp
    then have room: "length (spec_entries s) < 2 ^ 64 - 2" using i(1) len by simp
    obtain r0 f' where ha: "handle_append R 1 (we_index e - 1) 1 (we_index e) (we_term e) (we_type e)
        (we_payload e) lc (mn_follower nd) = (r0, f')" by (cases "handle_append R 1 (we_index e - 1) 1 (we_index e) (we_term e) (we_type e)
        (we_payload e) lc (mn_follower nd)")
    have prev: "unat (we_index e - 1) = i" using i(3) by (simp add: unat_sub_if_size)
    have "we_index e \<noteq> 0" using i(3) by auto
    then have "r0 = Inr True"
      using handle_append_rel [OF rel(1,3) i(6,5) room rel(2) ha] n prev i(3) by (auto simp: spec_handle_append_def)
    then show ?thesis using ae ha by (auto simp: AppendEntry_def)
  qed
qed

lemma rpc_append_accepts:
  assumes inv: "cluster_inv R nf cl s" and e: "in_log (spec_entries s) e" and node: "um_find (cl_nodes cl) a \<noteq> None"
    and nxt: "unat (we_index e) \<le> Suc (node_len (cl_nodes cl) a)"
  shows "\<exists>nodes. rpc_append R Delivered a (we_term e) e lc (cl_nodes cl) = (True, nodes) \<and> um_find nodes a \<noteq> None"
proof -
  obtain nd where nd: "um_find (cl_nodes cl) a = Some nd" using node by blast
  obtain t where t: "node_rel R nd t" "prefix (spec_entries t) (spec_entries s)"
    using cluster_invD(4) [OF inv] nd by (auto simp: nodes_ok_def)
  have tm: "we_term e = 1" using in_log_index [OF cluster_invD(3) [OF inv] e] by metis
  obtain r nd' where ae: "AppendEntry R 1 (we_index e - 1) 1 e lc nd = (r, nd')" by fastforce
  have "unat (we_index e) \<le> Suc (length (spec_entries t))" using nxt node_len_rel [OF t(1)] nd by (simp add: node_len_def)
  then obtain x where "r = Inr (True, x)" using append_entry_accepts [OF t cluster_invD(3) [OF inv] e _ ae] by blast
  then show ?thesis using nd ae tm by (simp add: rpc_append_def)
qed

text \<open>One round of the catch-up loop.\<close>

lemma catch_up_round:
  assumes inv: "cluster_inv R nf cl s" and e: "in_log (spec_entries s) (rt_entry th)" and i: "1 \<le> i" "i \<le> we_index (rt_entry th)"
    and pc: "rt_pc th = Catch_up i" and at: "follower_at cl (rt_addr th) j" and nxt: "unat i \<le> Suc (node_len (cl_nodes cl) (rt_addr th))"
  obtains cl' where "cluster_inv R nf cl' s" "follower_at cl' (rt_addr th) i" "unat i \<le> node_len (cl_nodes cl') (rt_addr th)"
    "\<And>n. run_thread (n + 3) R clk now th cl = (if i + 1 \<le> we_index (rt_entry th)
       then run_thread n R clk now (th\<lparr>rt_pc := Catch_up (i + 1)\<rparr>) cl' else Some cl')"
proof -
  let ?a = "rt_addr th"
  obtain ce where ce: "wal_read_entry R i (le_wal (cl_leader cl)) = Inr (Some ce)" "in_log (spec_entries s) ce"
    using leader_read_in_log [OF inv e i] by blast
  have idx: "we_index ce = i" by (rule read_back_index [OF ce(1)])
  obtain nodes where rpc: "rpc_append R Delivered ?a (we_term ce) ce (committed (le_wal (cl_leader cl))) (cl_nodes cl) = (True, nodes)"
      "um_find nodes ?a \<noteq> None"
    using rpc_append_accepts [OF inv ce(2), of ?a] at nxt idx by (auto simp: follower_at_def)
  define cl1 where "cl1 = cl\<lparr>cl_nodes := nodes\<rparr>"
  define cl2 where "cl2 = cl1\<lparr>cl_leader := record_ack now ?a i (cl_leader cl1)\<rparr>"
  define cl3 where "cl3 = cl2\<lparr>cl_nodes := rpc_commit R clk Delivered ?a i (we_term ce) (cl_nodes cl2)\<rparr>"
  note st = rpc_append_step [OF inv ce(2) rpc(1)]
  have inv1: "cluster_inv R nf cl1 s" and len1: "unat i \<le> node_len (cl_nodes cl1) ?a" using st idx by (simp_all add: cl1_def)
  have "follower_at cl1 ?a j" using at rpc(2) by (simp add: follower_at_def cl1_def)
  then have at2: "follower_at cl2 ?a i" unfolding cl2_def by (rule follower_at_ack)
  have inv2: "cluster_inv R nf cl2 s" unfolding cl2_def by (rule cluster_inv_ack [OF inv1 len1])
  have inv3: "cluster_inv R nf cl3 s" unfolding cl3_def by (rule step_commit [OF inv2])
  have len3: "node_len (cl_nodes cl3) = node_len (cl_nodes cl1)"
    using rpc_commit_ok(2) [OF cluster_invD(4) [OF inv2]] by (simp add: cl3_def cl2_def)
  have at3: "follower_at cl3 ?a i" using at2 by (auto simp: follower_at_def cl3_def rpc_commit_def split: option.split)
  have run: "run_thread (n + 3) R clk now th cl = (if i + 1 \<le> we_index (rt_entry th)
       then run_thread n R clk now (th\<lparr>rt_pc := Catch_up (i + 1)\<rparr>) cl3 else Some cl3)" for n
    using pc ce(1) rpc(1) idx
    by (simp add: numeral_3_eq_3 replicate_step_def Let_def cl1_def cl2_def cl3_def)
  show thesis by (rule that [OF inv3 at3 _ run]) (use len1 len3 in simp)
qed

lemma catch_up_completes:
  assumes "cluster_inv R nf cl s" and "in_log (spec_entries s) (rt_entry th)" and "1 \<le> i" and "i \<le> we_index (rt_entry th)"
    and "rt_pc th = Catch_up i" and "follower_at cl (rt_addr th) j" and "unat i \<le> Suc (node_len (cl_nodes cl) (rt_addr th))"
  shows "\<exists>cl'. run_thread (3 * (unat (we_index (rt_entry th)) - unat i) + 3) R clk now th cl = Some cl' \<and> cluster_inv R nf cl' s \<and>
    follower_at cl' (rt_addr th) (we_index (rt_entry th)) \<and> unat (we_index (rt_entry th)) \<le> node_len (cl_nodes cl') (rt_addr th)"
  using assms
proof (induction "unat (we_index (rt_entry th)) - unat i" arbitrary: cl th i j rule: less_induct)
  case less
  let ?n = "we_index (rt_entry th)"
  obtain cl' where r: "cluster_inv R nf cl' s" "follower_at cl' (rt_addr th) i" "unat i \<le> node_len (cl_nodes cl') (rt_addr th)"
    "\<And>n. run_thread (n + 3) R clk now th cl = (if i + 1 \<le> ?n
       then run_thread n R clk now (th\<lparr>rt_pc := Catch_up (i + 1)\<rparr>) cl' else Some cl')"
    using catch_up_round [OF less.prems] by blast
  obtain j' where "unat ?n = Suc j'" "j' < length (spec_entries s)"
    using in_log_index [OF cluster_invD(3) [OF less.prems(1)] less.prems(2)] by metis
  moreover have "length (spec_entries s) < 2 ^ 64 - 1" using cluster_invD(3) [OF less.prems(1)] by (simp add: log_ok_def)
  ultimately have "Suc (unat i) < 2 ^ 64" using less.prems(4) by (simp add: word_le_nat_alt)
  then have nx: "unat (i + 1) = Suc (unat i)" by (intro unat_u64_Suc) (simp add: u64_not_max)
  show ?case
  proof (cases "i + 1 \<le> ?n")
    case True
    then have lt: "unat ?n - unat (i + 1) < unat ?n - unat i" "3 * (unat ?n - unat i) + 3 = (3 * (unat ?n - unat (i + 1)) + 3) + 3"
      using nx by (simp_all add: word_le_nat_alt)
    let ?th = "th\<lparr>rt_pc := Catch_up (i + 1)\<rparr>"
    have one: "1 \<le> i + 1" using nx by (simp add: word_le_nat_alt)
    from less.hyps [of ?th "i + 1" cl' i] lt(1) r(1-3) less.prems(2) one True nx
    show ?thesis unfolding lt(2) r(4) by simp
  next
    case False
    then have "unat ?n = unat i" using nx less.prems(4) by (simp add: word_le_nat_alt)
    then have "?n = i" by (simp add: word_unat_eq_iff)
    then show ?thesis using r(1-3) r(4) [of 0] False by simp
  qed
qed

lemma send_completes:
  assumes inv: "cluster_inv R nf cl s" and e: "in_log (spec_entries s) (rt_entry th)" and pc: "rt_pc th = Send" and at: "follower_at cl (rt_addr th) 0"
  shows "\<exists>cl'. run_thread (thread_fuel th) R clk now th cl = Some cl' \<and> cluster_inv R nf cl' s \<and>
    follower_at cl' (rt_addr th) (we_index (rt_entry th)) \<and> unat (we_index (rt_entry th)) \<le> node_len (cl_nodes cl') (rt_addr th)"
proof -
  let ?a = "rt_addr th" and ?e = "rt_entry th"
  obtain ok nodes where rpc: "rpc_append R Delivered ?a (we_term ?e) ?e (committed (le_wal (cl_leader cl))) (cl_nodes cl) = (ok, nodes)" by fastforce
  note st = rpc_append_step [OF inv e rpc]
  have node: "um_find nodes ?a \<noteq> None" using rpc at by (auto simp: rpc_append_def follower_at_def split: prod.splits)
  have fuel: "thread_fuel th = Suc (3 * unat (we_index ?e) + 3)" using pc by (simp add: thread_fuel_def)
  define cl1 where "cl1 = cl\<lparr>cl_nodes := nodes\<rparr>"
  have at1: "follower_at cl1 ?a 0" using at node by (simp add: follower_at_def cl1_def)
  show ?thesis
  proof (cases ok)
    case True
    have len1: "unat (we_index ?e) \<le> node_len (cl_nodes cl1) ?a" using st(3) True by (simp add: cl1_def)
    define cl2 where "cl2 = cl1\<lparr>cl_leader := record_ack now ?a (we_index ?e) (cl_leader cl1)\<rparr>"
    define cl3 where "cl3 = cl2\<lparr>cl_nodes := rpc_commit R clk Delivered ?a (we_index ?e) (we_term ?e) (cl_nodes cl2)\<rparr>"
    have inv1: "cluster_inv R nf cl1 s" using st(1) by (simp add: cl1_def)
    have inv2: "cluster_inv R nf cl2 s" unfolding cl2_def by (rule cluster_inv_ack [OF inv1 len1])
    have at2: "follower_at cl2 ?a (we_index ?e)" unfolding cl2_def by (rule follower_at_ack [OF at1])
    have "follower_at cl3 ?a (we_index ?e)" using at2 by (auto simp: follower_at_def cl3_def rpc_commit_def split: option.split)
    moreover have "node_len (cl_nodes cl3) = node_len (cl_nodes cl1)"
      using rpc_commit_ok(2) [OF cluster_invD(4) [OF inv2]] by (simp add: cl3_def cl2_def)
    moreover have "cluster_inv R nf cl3 s" unfolding cl3_def by (rule step_commit [OF inv2])
    moreover have "run_thread (Suc (n + 3)) R clk now th cl = Some cl3" for n
      using pc rpc True by (simp add: numeral_3_eq_3 replicate_step_def Let_def cl1_def cl2_def cl3_def)
    ultimately show ?thesis unfolding fuel using len1 by simp
  next
    case False
    have far: "\<not> unat (we_index ?e) \<le> Suc (node_len (cl_nodes cl) ?a)"
      using rpc_append_accepts [OF inv e, of ?a "committed (le_wal (cl_leader cl))"] rpc False at by (auto simp: follower_at_def)
    obtain f where f: "um_find (le_followers (cl_leader cl)) ?a = Some f" using at by (auto simp: follower_at_def)
    have m: "unat (fs_match_index f) \<le> node_len (cl_nodes cl) ?a" using cluster_invD(7) [OF inv] f by (auto simp: acks_ok_def)
    let ?i = "fs_match_index f + 1"
    have "Suc (unat (fs_match_index f)) < 2 ^ 64" using m far unat_u64_bound [of "we_index ?e"] by linarith
    then have nx: "unat ?i = Suc (unat (fs_match_index f))" by (intro unat_u64_Suc) (simp add: u64_not_max)
    have i: "1 \<le> ?i" "?i \<le> we_index ?e" using nx m far by (simp_all add: word_le_nat_alt)
    let ?th = "th\<lparr>rt_pc := Catch_up ?i\<rparr>"
    have "unat ?i \<le> Suc (node_len (cl_nodes cl1) ?a)" using nx m st(2) [of ?a] by (simp add: cl1_def)
    then obtain cl' where c: "run_thread (3 * (unat (we_index ?e) - unat ?i) + 3) R clk now ?th cl1 = Some cl'" "cluster_inv R nf cl' s"
        "follower_at cl' ?a (we_index ?e)" "unat (we_index ?e) \<le> node_len (cl_nodes cl') ?a"
      using catch_up_completes [of nf cl1 s ?th ?i 0 clk now] st(1) e i at1 by (auto simp: cl1_def)
    have fst_step: "run_thread (Suc n) R clk now th cl = run_thread n R clk now ?th cl1" for n
      using pc rpc False f i by (simp add: replicate_step_def Let_def cl1_def)
    have "run_thread (3 * unat (we_index ?e) + 3) R clk now ?th cl1 = Some cl'" by (rule run_thread_more [OF c(1)]) simp
    then show ?thesis unfolding fuel fst_step using c(2-4) by blast
  qed
qed

end

section \<open>The followers of a cluster\<close>

definition members :: "string list \<Rightarrow> 'db cluster \<Rightarrow> bool" where
  "members addrs cl \<longleftrightarrow> (\<forall>a. um_find (le_followers (cl_leader cl)) a \<noteq> None \<longleftrightarrow> a \<in> set addrs) \<and>
     (\<forall>a. um_find (cl_nodes cl) a \<noteq> None \<longleftrightarrow> a \<in> set addrs) \<and> (\<forall>th \<in> set (cl_threads cl). rt_addr th \<in> set addrs)"

lemma write_poll_followers [simp]: "le_followers (snd (write_poll R clk i m le)) = le_followers le"
  by (simp add: write_poll_def Let_def split: option.split sum.split)

lemma write_append_followers [simp]: "le_followers (snd (write_append R ty pl le)) = le_followers le"
  by (simp add: write_append_def Let_def split: prod.split sum.split)

lemma members_leader:
  "members addrs cl \<Longrightarrow> (\<And>a. um_find (le_followers le) a \<noteq> None \<longleftrightarrow> um_find (le_followers (cl_leader cl)) a \<noteq> None) \<Longrightarrow>
     members addrs (cl\<lparr>cl_leader := le\<rparr>)"
  by (simp add: members_def)

lemma members_threads: "members addrs cl \<Longrightarrow> \<forall>th \<in> set ths. rt_addr th \<in> set addrs \<Longrightarrow> members addrs (cl\<lparr>cl_threads := ths\<rparr>)"
  by (simp add: members_def)

lemma ack_known: "um_find (le_followers (record_ack now a i le)) b \<noteq> None \<longleftrightarrow> um_find (le_followers le) b \<noteq> None"
  using arg_cong [OF record_ack_match [of now a i le b], of "\<lambda>x. x = None"] by simp

lemma replicate_step_members:
  assumes "members addrs cl" and "replicate_step R clk now net th cl = (r, cl1)" and "rt_addr th \<in> set addrs"
  shows "members addrs cl1 \<and> cl_threads cl1 = cl_threads cl \<and> (\<forall>th'. r = Some th' \<longrightarrow> rt_addr th' = rt_addr th)"
proof -
  have app: "rpc_append R net (rt_addr th) t e c (cl_nodes cl) = (ok, nodes) \<Longrightarrow> members addrs (cl\<lparr>cl_nodes := nodes\<rparr>)" for t e c ok nodes
    using assms(1,3) by (auto simp: rpc_append_def members_def split: option.splits if_splits prod.splits)
  have com: "members addrs (cl\<lparr>cl_nodes := rpc_commit R clk net (rt_addr th) i t (cl_nodes cl)\<rparr>)" for i t
    using assms(1,3) by (auto simp: rpc_commit_def members_def split: option.splits if_splits)
  have ack: "members addrs (cl\<lparr>cl_leader := record_ack now (rt_addr th) i (cl_leader cl)\<rparr>)" for i
    by (rule members_leader [OF assms(1)]) (rule ack_known)
  show ?thesis using assms(1,2) com ack
    by (cases "rt_pc th") (auto simp: replicate_step_def Let_def dest: app split: prod.splits if_splits sum.splits option.splits)
qed

lemma cluster_step_members:
  assumes m: "members addrs cl"
  shows "members addrs (cluster_step R clk ev cl)"
proof (cases ev)
  case (Ev_append ty pl)
  have "members addrs (cl\<lparr>cl_leader := snd (write_append R ty pl (cl_leader cl))\<rparr>)" by (rule members_leader [OF m]) simp
  then show ?thesis using Ev_append by (cases "write_append R ty pl (cl_leader cl)") (auto simp: cluster_step_def members_def split: sum.split)
next
  case (Ev_register i)
  have "a \<in> set addrs" if "(a, f) \<in> set (le_followers (cl_leader cl))" for a f
    using m image_eqI [OF _ that, of a fst] um_find_None_iff [of "le_followers (cl_leader cl)" a] by (auto simp: members_def)
  then show ?thesis using m Ev_register by (auto simp: cluster_step_def members_def write_register_def Let_def)
next
  case (Ev_thread i now net)
  show ?thesis
  proof (cases "i < length (cl_threads cl)")
    case True
    obtain r cl1 where r: "replicate_step R clk now net (cl_threads cl ! i) cl = (r, cl1)" by fastforce
    have a: "rt_addr (cl_threads cl ! i) \<in> set addrs" using m True by (simp add: members_def)
    note s = replicate_step_members [OF m r a]
    have "\<forall>th' \<in> set (remove_nth i (cl_threads cl)). rt_addr th' \<in> set addrs" using m set_remove_nth [of i "cl_threads cl"] by (auto simp: members_def)
    moreover have "\<forall>th' \<in> set ((cl_threads cl)[i := th]). rt_addr th' \<in> set addrs" if some: "r = Some th" for th
    proof
      fix th' assume "th' \<in> set ((cl_threads cl)[i := th])"
      then have "th' = th \<or> th' \<in> set (cl_threads cl)" using set_update_subset_insert by fastforce
      moreover have "rt_addr th = rt_addr (cl_threads cl ! i)" using s some by simp
      ultimately show "rt_addr th' \<in> set addrs" using m a by (auto simp: members_def)
    qed
    ultimately show ?thesis using conjunct1 [OF s] Ev_thread True r members_threads
      by (cases r) (simp_all add: cluster_step_def)
  qed (use m Ev_thread in \<open>simp add: cluster_step_def\<close>)
next
  case (Ev_poll i)
  have "members addrs (cl\<lparr>cl_leader := snd (write_poll R clk j n (cl_leader cl))\<rparr>)" for j n by (rule members_leader [OF m]) simp
  then have p: "members addrs (cl\<lparr>cl_leader := le\<rparr>)" if "write_poll R clk j n (cl_leader cl) = (r, le)" for j n r le
    using that by (metis snd_conv)
  show ?thesis using Ev_poll m
    by (auto simp: cluster_step_def dest!: p split: prod.split sum.split option.split) (auto simp: members_def)
next
  case (Ev_heartbeats hb t)
  have "um_find (le_followers (send_heartbeats hb t (cl_leader cl))) a \<noteq> None \<longleftrightarrow> um_find (le_followers (cl_leader cl)) a \<noteq> None" for a
    using arg_cong [OF send_heartbeats_match [of hb t "cl_leader cl" a], of "\<lambda>x. x = None"] by simp
  then show ?thesis using Ev_heartbeats members_leader [OF m] by (simp add: cluster_step_def)
qed (use m in \<open>simp add: cluster_step_def members_def\<close>)

lemma fresh_members: "members addrs (fresh_cluster d now addrs)"
proof -
  have f: "um_find (le_followers (fold (add_follower now) as le)) a \<noteq> None \<longleftrightarrow> a \<in> set as \<or> um_find (le_followers le) a \<noteq> None" for as a and le :: "'a leader"
    by (induction as arbitrary: le) (auto simp: add_follower_def)
  have n: "um_find (map (\<lambda>a. (a, fresh_node d)) as) a \<noteq> None \<longleftrightarrow> a \<in> set as" for as a by (induction as) auto
  show ?thesis unfolding members_def fresh_cluster_def
    by (simp only: cluster.simps f n) (simp add: new_leader_def)
qed

lemma reachable_members: "reachable R clk (fresh_cluster d now addrs) cl \<Longrightarrow> members addrs cl"
  by (induction rule: reachable.induct) (auto intro: fresh_members cluster_step_members)

section \<open>Properties\<close>

text \<open>
  C17. Replication threads end. In every reachable state each action of a thread, whether its remote
  call arrives, is lost or loses its answer, and whatever the other threads have done, strictly
  lowers the total of the actions left; the leader's appends, polls, deadlines and heartbeats do
  not change it, and a write of index \<open>i\<close> adds \<open>3 * i + 4\<close> for each follower. So the threads
  cannot run for ever between two writes.
\<close>

theorem replication_terminates:
  assumes db: "reliable_rocksdb R" and empty: "\<forall>k. db_get R d k = None"
    and addrs: "distinct addrs" "length addrs < 2 ^ 31 - 1"
    and reach: "reachable R clk (fresh_cluster d now addrs) cl"
  shows "(\<forall>i t net. i < length (cl_threads cl) \<longrightarrow> threads_fuel (cluster_step R clk (Ev_thread i t net) cl) < threads_fuel cl) \<and>
    (\<forall>ty pl i hb t. threads_fuel (cluster_step R clk (Ev_append ty pl) cl) = threads_fuel cl \<and>
       threads_fuel (cluster_step R clk (Ev_poll i) cl) = threads_fuel cl \<and>
       threads_fuel (cluster_step R clk (Ev_timeout i) cl) = threads_fuel cl \<and>
       threads_fuel (cluster_step R clk (Ev_heartbeats hb t) cl) = threads_fuel cl) \<and>
    (\<forall>i < length (cl_starting cl). threads_fuel (cluster_step R clk (Ev_register i) cl) =
       threads_fuel cl + length addrs * (3 * unat (we_index (cl_starting cl ! i)) + 4))"
proof -
  obtain s where inv: "cluster_inv R (length addrs) cl s"
    using reliable_rocksdb.reachable_inv [OF db reach _ addrs] empty by blast
  have th: "cl_threads (cluster_step R clk (Ev_append ty pl) cl) = cl_threads cl" "cl_threads (cluster_step R clk (Ev_poll i) cl) = cl_threads cl"
      "cl_threads (cluster_step R clk (Ev_timeout i) cl) = cl_threads cl" "cl_threads (cluster_step R clk (Ev_heartbeats hb t) cl) = cl_threads cl"
    for ty pl i hb t by (auto simp: cluster_step_def split: prod.split sum.split option.split)
  have "threads_fuel (cluster_step R clk (Ev_register i) cl) =
      threads_fuel cl + length addrs * (3 * unat (we_index (cl_starting cl ! i)) + 4)" if "i < length (cl_starting cl)" for i
    using that cluster_invD(9) [OF inv]
    by (simp add: cluster_step_def write_register_def Let_def threads_fuel_def thread_fuel_def comp_def sum_list_triv)
  then show ?thesis using thread_event_fuel [OF inv] th by (simp add: threads_fuel_def)
qed

lemma demo_threads:
  "\<exists>cl. reachable mem_rocksdb (\<lambda>_. 0) (fresh_cluster [] 0 [''a'', ''b'']) cl \<and> map rt_pc (cl_threads cl) = [Send, Send] \<and>
     map rt_addr (cl_threads cl) = [''a'', ''b''] \<and> map (we_index \<circ> rt_entry) (cl_threads cl) = [1, 1]"
proof -
  have "(case run_events mem_rocksdb (\<lambda>_. 0) [Ev_append DELETE_CHUNK ''x'', Ev_register 0] demo_cluster of
      None \<Rightarrow> False | Some cl \<Rightarrow> map rt_pc (cl_threads cl) = [Send, Send] \<and> map rt_addr (cl_threads cl) = [''a'', ''b''] \<and>
        map (we_index \<circ> rt_entry) (cl_threads cl) = [1, 1])" by code_simp
  then show ?thesis
    using run_events_reachable [OF reachable.start, of mem_rocksdb "\<lambda>_. 0"
        "[Ev_append DELETE_CHUNK ''x'', Ev_register 0]" demo_cluster]
    by (auto simp: demo_cluster_def split: option.splits)
qed

theorem replication_terminates_witness:
  "\<exists>cl. reachable mem_rocksdb (\<lambda>_. 0) (fresh_cluster [] 0 [''a'', ''b'']) cl \<and> length (cl_threads cl) = 2 \<and>
     threads_fuel (cluster_step mem_rocksdb (\<lambda>_. 0) (Ev_thread 1 5 Request_lost) cl) < threads_fuel cl"
proof -
  from demo_threads obtain cl where r: "reachable mem_rocksdb (\<lambda>_. 0) (fresh_cluster [] 0 [''a'', ''b'']) cl"
      and t: "map rt_pc (cl_threads cl) = [Send, Send]"
    by (elim exE conjE)
  have two: "length (cl_threads cl) = 2" using arg_cong [OF t, of length] by simp
  have d: "distinct [''a'', ''b'']" "length [''a'', ''b''] < 2 ^ 31 - 1" by simp_all
  have "1 < length (cl_threads cl)" using two by simp
  then have "threads_fuel (cluster_step mem_rocksdb (\<lambda>_. 0) (Ev_thread 1 5 Request_lost) cl) < threads_fuel cl"
    using conjunct1 [OF replication_terminates [OF mem.reliable_rocksdb_axioms mem_empty d r]] by blast
  then show ?thesis using r two by blast
qed

text \<open>
  C18. A replication thread whose calls are answered does its job: started in any reachable state,
  however far the follower is behind, and run to its end within the bound above, it leaves the
  follower with the leader's entry at every index up to the one it was started for, and the leader
  knows it.
\<close>

theorem thread_delivers:
  assumes db: "reliable_rocksdb R" and empty: "\<forall>k. db_get R d k = None"
    and addrs: "distinct addrs" "length addrs < 2 ^ 31 - 1"
    and reach: "reachable R clk (fresh_cluster d now addrs) cl"
    and th: "th \<in> set (cl_threads cl)" "rt_pc th = Send"
  shows "\<exists>cl' nd f. run_thread (3 * unat (we_index (rt_entry th)) + 4) R clk t th cl = Some cl' \<and>
    um_find (cl_nodes cl') (rt_addr th) = Some nd \<and> we_index (rt_entry th) \<le> last_index (fo_wal (mn_follower nd)) \<and>
    (\<forall>i. 1 \<le> i \<and> i \<le> we_index (rt_entry th) \<longrightarrow> (\<exists>e. wal_read_entry R i (fo_wal (mn_follower nd)) = Inr (Some e) \<and>
       wal_read_entry R i (le_wal (cl_leader cl')) = Inr (Some e))) \<and>
    um_find (le_followers (cl_leader cl')) (rt_addr th) = Some f \<and> we_index (rt_entry th) \<le> fs_match_index f"
proof -
  obtain s where inv: "cluster_inv R (length addrs) cl s"
    using reliable_rocksdb.reachable_inv [OF db reach _ addrs] empty by blast
  have m: "members addrs cl" by (rule reachable_members [OF reach])
  then have "rt_addr th \<in> set addrs" using th(1) by (simp add: members_def)
  then have at: "follower_at cl (rt_addr th) 0" using m by (fastforce simp: members_def follower_at_def)
  have e: "in_log (spec_entries s) (rt_entry th)" using cluster_invD(6) [OF inv] th(1) by (auto simp: threads_ok_def)
  obtain cl' where c: "run_thread (thread_fuel th) R clk t th cl = Some cl'" "cluster_inv R (length addrs) cl' s"
      "follower_at cl' (rt_addr th) (we_index (rt_entry th))" "unat (we_index (rt_entry th)) \<le> node_len (cl_nodes cl') (rt_addr th)"
    using reliable_rocksdb.send_completes [OF db inv e th(2) at] by blast
  obtain nd f where nd: "um_find (cl_nodes cl') (rt_addr th) = Some nd" "um_find (le_followers (cl_leader cl')) (rt_addr th) = Some f"
      "we_index (rt_entry th) \<le> fs_match_index f"
    using c(3) by (auto simp: follower_at_def)
  have le: "we_index (rt_entry th) \<le> last_index (fo_wal (mn_follower nd))" using c(4) nd(1) by (simp add: node_len_def word_le_nat_alt)
  have "\<exists>e. wal_read_entry R i (fo_wal (mn_follower nd)) = Inr (Some e) \<and> wal_read_entry R i (le_wal (cl_leader cl')) = Inr (Some e)"
    if "1 \<le> i" "i \<le> we_index (rt_entry th)" for i
    using log_matching_inv [OF c(2) nd(1) that(1)] that(2) le by (meson order_trans)
  moreover have "thread_fuel th = 3 * unat (we_index (rt_entry th)) + 4" using th(2) by (simp add: thread_fuel_def)
  ultimately show ?thesis using c(1) nd le by metis
qed

theorem thread_delivers_witness:
  "\<exists>cl th cl' nd. reachable mem_rocksdb (\<lambda>_. 0) (fresh_cluster [] 0 [''a'', ''b'']) cl \<and> th \<in> set (cl_threads cl) \<and>
     run_thread 7 mem_rocksdb (\<lambda>_. 0) 5 th cl = Some cl' \<and> um_find (cl_nodes cl') ''a'' = Some nd \<and> 1 \<le> last_index (fo_wal (mn_follower nd))"
proof -
  from demo_threads obtain cl where r: "reachable mem_rocksdb (\<lambda>_. 0) (fresh_cluster [] 0 [''a'', ''b'']) cl"
      and t: "map rt_pc (cl_threads cl) = [Send, Send]" "map rt_addr (cl_threads cl) = [''a'', ''b'']"
        "map (we_index \<circ> rt_entry) (cl_threads cl) = [1, 1]"
    by (elim exE conjE)
  obtain th ths where th: "cl_threads cl = th # ths" "rt_pc th = Send" "rt_addr th = ''a''" "we_index (rt_entry th) = 1"
    using t by (cases "cl_threads cl") auto
  have in_th: "th \<in> set (cl_threads cl)" using th(1) by simp
  have d: "distinct [''a'', ''b'']" "length [''a'', ''b''] < 2 ^ 31 - 1" by simp_all
  have seven: "3 * unat (we_index (rt_entry th)) + 4 = 7" using th(4) by simp
  show ?thesis using thread_delivers [OF mem.reliable_rocksdb_axioms mem_empty d r in_th th(2), of 5, unfolded seven, unfolded th(3,4)]
      r in_th by blast
qed

end
