(* ===== verification/Storage_Server.thy ===== *)
theory Storage_Server
  imports Node_Config Storage_Node
begin

text \<open>
  The storage server program, \<^verbatim>\<open>src/bin/storage_server.cpp\<close>: its command line, the objects
  \<^verbatim>\<open>main\<close> makes, and the running process with its three sources of activity: the handlers of the
  gRPC server, the heartbeat thread and the repair thread, until a signal ends it. A run is a
  sequence of events; a handler, a heartbeat and a repair pass each are one event. What the
  operating system, the metadata server and the other nodes answer comes with the event.
\<close>

section \<open>Start\<close>

text \<open>The loop over the arguments. An option without a value and an unknown argument are skipped.\<close>

fun storage_args :: "string list \<Rightarrow> node_config \<times> string \<Rightarrow> program_end + node_config \<times> string" where
  "storage_args [] cm = Inr cm"
| "storage_args [arg] cm = (if arg = ''--help'' then Inl (Exit 0) else Inr cm)"
| "storage_args (arg # v # rest) (cfg, meta_addr) =
     (if arg = ''--id'' then storage_args rest (cfg\<lparr>cfg_node_id := v\<rparr>, meta_addr)
      else if arg = ''--listen'' then storage_args rest (cfg\<lparr>cfg_address := v\<rparr>, meta_addr)
      else if arg = ''--data'' then storage_args rest (cfg\<lparr>cfg_data_dir := v\<rparr>, meta_addr)
      else if arg = ''--meta'' then storage_args rest (cfg, v)
      else if arg = ''--capacity'' then (case stoull v of
             Inl x \<Rightarrow> Inl (Uncaught x)
           | Inr n \<Rightarrow> storage_args rest (cfg\<lparr>cfg_capacity_bytes := n\<rparr>, meta_addr))
      else if arg = ''--help'' then Inl (Exit 0)
      else storage_args (v # rest) (cfg, meta_addr))"

definition storage_config :: "string list \<Rightarrow> program_end + node_config \<times> string" where
  "storage_config args =
     ebind (storage_args args (default_node_config\<lparr>cfg_capacity_bytes := 10737418240\<rparr>, [])) (\<lambda>(cfg, meta_addr).
       if cfg_node_id cfg = [] \<or> cfg_address cfg = [] \<or> cfg_data_dir cfg = [] \<or> meta_addr = [] then Inl (Exit 1)
       else Inr (cfg, meta_addr))"

text \<open>
  The constructor of \<^verbatim>\<open>ChunkStore\<close>: \<open>open_db\<close> is what \<^verbatim>\<open>rocksdb::DB::Open\<close> gives for a
  directory, \<open>None\<close> when it fails; the store then has no database and every operation fails. That a
  directory cannot be created (\<open>can_create\<close>) is an exception.
\<close>

definition store_open :: "(string \<Rightarrow> bool) \<Rightarrow> (string \<Rightarrow> 'db option) \<Rightarrow> string \<Rightarrow> cxx_exc + 'db option" where
  "store_open can_create open_db data_dir =
     (if \<not> can_create data_dir then Inl (Runtime_error ''create_directories'') else Inr (open_db data_dir))"

record 'db storage_proc =
  sp_cfg :: node_config
  sp_meta :: string
  sp_node :: "'db storage_node"
  sp_repair_stopped :: bool
  sp_running :: bool \<comment> \<open>\<^verbatim>\<open>g_running\<close>\<close>
  sp_serving :: bool

text \<open>\<^verbatim>\<open>main\<close> up to its loop; \<open>can_listen\<close> tells which addresses the gRPC server can be started on.\<close>

definition storage_main :: "(string \<Rightarrow> bool) \<Rightarrow> (string \<Rightarrow> 'db option) \<Rightarrow> (string \<Rightarrow> bool) \<Rightarrow> string list \<Rightarrow>
     program_end + 'db storage_proc" where
  "storage_main can_create open_db can_listen args = ebind (storage_config args) (\<lambda>(cfg, meta_addr).
     if \<not> can_create (cfg_data_dir cfg) then Inl (Uncaught (Runtime_error ''create_directories''))
     else case store_open can_create open_db (cfg_data_dir cfg @ ''/chunks'') of
       Inl x \<Rightarrow> Inl (Uncaught x)
     | Inr store \<Rightarrow>
         if \<not> can_listen (cfg_address cfg) then Inl (Exit 1)
         else Inr \<lparr>sp_cfg = cfg, sp_meta = meta_addr, sp_node = \<lparr>sn_store = store, sn_reporter = new_reporter\<rparr>,
                sp_repair_stopped = False, sp_running = True, sp_serving = True\<rparr>)"

section \<open>The running process\<close>

datatype 'db storage_event =
    Sv_write string u64 string
  | Sv_read string u64
  | Sv_fetch string u64
  | Sv_delete string
  | Sv_report "float64 option" int "statvfs option" "heartbeat_req \<Rightarrow> heartbeat_resp option"
  | Sv_repair "string list \<Rightarrow> string list" "string list \<Rightarrow> string list" "string \<Rightarrow> nat option"
      "string \<Rightarrow> (u64 \<times> string list) option" "(string, 'db storage_node) umap"
  | Sv_signal
  | Sv_shutdown

text \<open>A handler of the gRPC server, which ends with \<^verbatim>\<open>server->Shutdown()\<close>.\<close>

definition serve :: "('db storage_node \<Rightarrow> 'r \<times> 'db storage_node) \<Rightarrow> 'db storage_proc \<Rightarrow> 'db storage_proc" where
  "serve handler p = (if sp_serving p then p\<lparr>sp_node := snd (handler (sp_node p))\<rparr> else p)"

text \<open>One turn of each of the two threads.\<close>

definition heartbeat_turn :: "float64 option \<Rightarrow> int \<Rightarrow> statvfs option \<Rightarrow> (heartbeat_req \<Rightarrow> heartbeat_resp option) \<Rightarrow>
     'db storage_proc \<Rightarrow> 'db storage_proc" where
  "heartbeat_turn loadavg cores disk rpc p =
     (if sp_running p
      then p\<lparr>sp_node := (sp_node p)\<lparr>sn_reporter := report_once (cfg_node_id (sp_cfg p)) (cfg_address (sp_cfg p))
              (compute_load_fraction loadavg cores) (compute_disk_usage disk) rpc (sn_reporter (sp_node p))\<rparr>\<rparr>
      else p)"

definition repair_turn :: "'db rocksdb_ops \<Rightarrow> (string list \<Rightarrow> string list) \<Rightarrow> (string list \<Rightarrow> string list) \<Rightarrow> (string \<Rightarrow> nat option) \<Rightarrow>
     (string \<Rightarrow> (u64 \<times> string list) option) \<Rightarrow> (string, 'db storage_node) umap \<Rightarrow> 'db storage_proc \<Rightarrow> 'db storage_proc" where
  "repair_turn R ord_set ord_ids breaks info peers p =
     (if sp_running p
      then p\<lparr>sp_node := (sp_node p)\<lparr>sn_store := fst (repair_once R ord_set ord_ids breaks (cfg_node_id (sp_cfg p))
              (cfg_address (sp_cfg p)) info (sp_repair_stopped p) (sn_reporter (sp_node p)) (sn_store (sp_node p)) peers)\<rparr>\<rparr>
      else p)"

text \<open>The end of \<^verbatim>\<open>main\<close>, once its loop has seen the signal.\<close>

definition shut_down :: "'db storage_proc \<Rightarrow> 'db storage_proc" where
  "shut_down p = (if sp_running p then p
     else p\<lparr>sp_node := (sp_node p)\<lparr>sn_reporter := reporter_stop (sn_reporter (sp_node p))\<rparr>,
            sp_repair_stopped := True, sp_serving := False\<rparr>)"

fun storage_step :: "'db rocksdb_ops \<Rightarrow> 'db storage_event \<Rightarrow> 'db storage_proc \<Rightarrow> 'db storage_proc" where
  "storage_step R (Sv_write cid v data) p = serve (WriteChunk R cid v data) p"
| "storage_step R (Sv_read cid mv) p = serve (ReadChunk R cid mv) p"
| "storage_step R (Sv_fetch cid v) p = serve (FetchChunk R cid v) p"
| "storage_step R (Sv_delete cid) p = serve (DeleteChunkData R cid) p"
| "storage_step R (Sv_report loadavg cores disk rpc) p = heartbeat_turn loadavg cores disk rpc p"
| "storage_step R (Sv_repair ord_set ord_ids breaks info peers) p = repair_turn R ord_set ord_ids breaks info peers p"
| "storage_step R Sv_signal p = p\<lparr>sp_running := False\<rparr>"
| "storage_step R Sv_shutdown p = shut_down p"

definition storage_run :: "'db rocksdb_ops \<Rightarrow> 'db storage_event list \<Rightarrow> 'db storage_proc \<Rightarrow> 'db storage_proc" where
  "storage_run R evs p = fold (storage_step R) evs p"

section \<open>The command line\<close>

lemma storage_args_outcomes:
  "storage_args args cm = r \<Longrightarrow>
     (\<forall>n. r = Inl (Exit n) \<longrightarrow> n = 0 \<and> ''--help'' \<in> set args) \<and> (\<forall>x. r = Inl (Uncaught x) \<longrightarrow> ''--capacity'' \<in> set args)"
proof (induction args cm arbitrary: r rule: storage_args.induct)
  case (3 arg v rest cfg meta_addr)
  then show ?case by (auto split: if_splits sum.splits)
qed auto

text \<open>The options that spell a configuration out.\<close>

definition storage_options :: "node_config \<Rightarrow> string \<Rightarrow> string list" where
  "storage_options cfg meta_addr = [''--id'', cfg_node_id cfg, ''--listen'', cfg_address cfg, ''--data'', cfg_data_dir cfg,
     ''--meta'', meta_addr, ''--capacity'', to_string_u64 (cfg_capacity_bytes cfg)]"

lemma storage_options_read:
  "storage_args (storage_options cfg meta_addr) (d, m) =
     Inr (d\<lparr>cfg_node_id := cfg_node_id cfg, cfg_address := cfg_address cfg, cfg_data_dir := cfg_data_dir cfg,
            cfg_capacity_bytes := cfg_capacity_bytes cfg\<rparr>, meta_addr)"
  by (simp add: storage_options_def)

section \<open>What the process does to its data\<close>

fun sv_event_ok :: "'db rocksdb_ops \<Rightarrow> 'db storage_event \<Rightarrow> bool" where
  "sv_event_ok R (Sv_write c w data) \<longleftrightarrow> name_ok c \<and> version_ok w"
| "sv_event_ok R (Sv_delete c) \<longleftrightarrow> name_ok c"
| "sv_event_ok R (Sv_report loadavg cores disk rpc) \<longleftrightarrow>
     (\<forall>req resp. rpc req = Some resp \<longrightarrow> (\<forall>c \<in> set (hr_assigned resp). name_ok c))"
| "sv_event_ok R (Sv_repair ord_set ord_ids breaks info peers) \<longleftrightarrow>
     (\<forall>xs. mset (ord_set xs) = mset xs) \<and> (\<forall>xs. mset (ord_ids xs) = mset xs) \<and> peers_wf R peers"
| "sv_event_ok R _ \<longleftrightarrow> True"

text \<open>Events that mean to keep a version of a chunk: no deletion, no other bytes for it, no other assignment.\<close>

fun sv_keeps :: "string \<Rightarrow> u64 \<Rightarrow> string \<Rightarrow> 'db storage_event \<Rightarrow> bool" where
  "sv_keeps cid v x (Sv_write c w data) \<longleftrightarrow> (c = cid \<and> w = v \<longrightarrow> data = x)"
| "sv_keeps cid v x (Sv_delete c) \<longleftrightarrow> c \<noteq> cid"
| "sv_keeps cid v x (Sv_report loadavg cores disk rpc) \<longleftrightarrow>
     (\<forall>req resp. rpc req = Some resp \<longrightarrow> hr_assigned resp = [] \<or> cid \<in> set (hr_assigned resp))"
| "sv_keeps cid v x _ \<longleftrightarrow> True"

definition proc_ok :: "'db rocksdb_ops \<Rightarrow> 'db storage_proc \<Rightarrow> bool" where
  "proc_ok R p \<longleftrightarrow> (case sn_store (sp_node p) of None \<Rightarrow> True | Some d \<Rightarrow> store_wf R d) \<and>
     (\<forall>c \<in> set (rp_assigned (sn_reporter (sp_node p))). name_ok c)"

definition proc_holds :: "'db rocksdb_ops \<Rightarrow> string \<Rightarrow> u64 \<Rightarrow> string \<Rightarrow> 'db storage_proc \<Rightarrow> bool" where
  "proc_holds R cid v x p \<longleftrightarrow> (\<exists>d. sn_store (sp_node p) = Some d \<and> store_abs R d cid v = Some x)"

definition proc_assigned :: "string \<Rightarrow> 'db storage_proc \<Rightarrow> bool" where
  "proc_assigned cid p \<longleftrightarrow> rp_assigned (sn_reporter (sp_node p)) = [] \<or> cid \<in> set (rp_assigned (sn_reporter (sp_node p)))"

lemmas proc_simps = proc_ok_def proc_holds_def proc_assigned_def

lemma record_access_assigned [simp]: "rp_assigned (record_access c rp) = rp_assigned rp"
  by (simp add: record_access_def)

lemma read_handlers_store:
  "sn_store (snd (ReadChunk R c mv sn)) = sn_store sn" "rp_assigned (sn_reporter (snd (ReadChunk R c mv sn))) = rp_assigned (sn_reporter sn)"
  "sn_store (snd (FetchChunk R c mv sn)) = sn_store sn" "rp_assigned (sn_reporter (snd (FetchChunk R c mv sn))) = rp_assigned (sn_reporter sn)"
  by (auto simp: ReadChunk_def FetchChunk_def split: option.split prod.split)

lemma write_handler_assigned:
  "sn_reporter (snd (WriteChunk R c w data sn)) = sn_reporter sn" "sn_store (snd (WriteChunk R c w data sn)) = snd (store_write R c w data (sn_store sn))"
  "sn_reporter (snd (DeleteChunkData R c sn)) = sn_reporter sn" "sn_store (snd (DeleteChunkData R c sn)) = snd (store_remove R c (sn_store sn))"
  by (simp_all add: WriteChunk_def DeleteChunkData_def split: prod.split)

lemma report_once_assigned:
  "rp_assigned (report_once nid a l disk rpc rp) = rp_assigned rp \<or>
   (\<exists>req resp. rpc req = Some resp \<and> rp_assigned (report_once nid a l disk rpc rp) = hr_assigned resp)"
  by (auto simp: report_once_def Let_def split: prod.split option.split)

lemma repair_without_store: "fst (repair_once R ord_set ord_ids breaks my_id my_addr info stopped rp None peers) = None"
proof -
  have c: "fst (repair_chunk R breaks my_id my_addr info cid (None, ps)) = None" for cid ps
    by (auto simp: repair_chunk_def store_write_def split: option.split prod.split)
  have "fst s = None \<Longrightarrow> fst (fold (repair_chunk R breaks my_id my_addr info) cids s) = None" for cids s
  proof (induction cids arbitrary: s)
    case (Cons cid cids)
    then show ?case using c [of cid "snd s"] by (cases s) simp
  qed simp
  moreover have rem: "fold (\<lambda>cid s. if P cid then snd (store_remove R cid s) else s) ids None = None" for P ids
    by (induction ids) (auto simp: store_remove_def)
  moreover obtain st1 ps1 where f: "fold (repair_chunk R breaks my_id my_addr info) (ord_set (remdups (rp_assigned rp))) (None, peers) = (st1, ps1)"
    by fastforce
  ultimately have "st1 = None" by (metis fst_conv)
  then show ?thesis using f rem by (simp add: repair_once_def Let_def)
qed

text \<open>A step keeps the invariant and every chunk version it means to keep.\<close>

definition step_preserves :: "'db rocksdb_ops \<Rightarrow> 'db storage_event \<Rightarrow> 'db storage_proc \<Rightarrow> bool" where
  "step_preserves R ev p \<longleftrightarrow> proc_ok R (storage_step R ev p) \<and>
     (\<forall>cid v x. name_ok cid \<longrightarrow> sv_keeps cid v x ev \<longrightarrow> proc_assigned cid p \<longrightarrow> proc_holds R cid v x p \<longrightarrow>
        proc_assigned cid (storage_step R ev p) \<and> proc_holds R cid v x (storage_step R ev p))"

context reliable_rocksdb
begin

lemma store_write_keeps:
  assumes wf: "store_wf R d" and name: "name_ok c" and ver: "version_ok w"
  shows "\<exists>d'. store_write R c w data (Some d) = (True, Some d') \<and> store_wf R d' \<and>
    (\<forall>c' w'. name_ok c' \<longrightarrow> store_abs R d' c' w' = (if c' = c \<and> w' = w then Some data else store_abs R d c' w'))"
proof -
  obtain ok d' where w: "store_write R c w data (Some d) = (ok, Some d')"
    by (cases "db_put R d (make_key c w) data") (auto simp: store_write_def)
  have ok: ok using w put_ok [of d "make_key c w" data] by (auto simp: store_write_def split: prod.splits)
  show ?thesis using w [unfolded ok [THEN eqTrueI]] write_wf [OF w wf name ver] write_abs [OF w [unfolded ok [THEN eqTrueI]] name] by auto
qed

lemma store_remove_keeps:
  assumes wf: "store_wf R d" and name: "name_ok c"
  shows "\<exists>d'. store_remove R c (Some d) = (True, Some d') \<and> store_wf R d' \<and>
    (\<forall>c' w'. name_ok c' \<longrightarrow> store_abs R d' c' w' = (if c' = c then None else store_abs R d c' w'))"
proof -
  obtain ok d' where w: "store_remove R c (Some d) = (ok, Some d')"
    by (cases "db_delete_range R d (make_key c 0) (chunk_prefix c @ ''~'')") (auto simp: store_remove_def)
  have ok: ok using w delete_succeeds [of d "make_key c 0" "chunk_prefix c @ ''~''"] by (auto simp: store_remove_def split: prod.splits)
  show ?thesis using w [unfolded ok [THEN eqTrueI]] remove_abs [OF w [unfolded ok [THEN eqTrueI]] wf name] by auto
qed

text \<open>A repair pass in any state of the reporter.\<close>

lemma repair_pass_store:
  assumes wf: "store_wf R d" and pw: "peers_wf R peers" and names: "\<forall>c \<in> set (rp_assigned rp). name_ok c"
    and ord: "\<forall>xs. mset (ord_set xs) = mset xs" "\<forall>xs. mset (ord_ids xs) = mset xs"
  shows "\<exists>d'. fst (repair_once R ord_set ord_ids breaks my_id my_addr info stopped rp (Some d) peers) = Some d' \<and> store_wf R d' \<and>
    (\<forall>c v x. (rp_assigned rp = [] \<or> c \<in> set (rp_assigned rp)) \<and> store_abs R d c v = Some x \<longrightarrow> store_abs R d' c v = Some x)"
proof (cases "stopped \<or> \<not> rp_has_assignment rp \<or> rp_assigned rp = []")
  case True
  then show ?thesis using wf by (simp add: repair_once_def)
next
  case False
  then have on: "\<not> stopped" "rp_has_assignment rp" "rp_assigned rp \<noteq> []" by simp_all
  have o: "\<And>xs. set (ord_set xs) = set xs" "\<And>xs. set (ord_ids xs) = set xs" using ord by (metis set_mset_mset)+
  from repair_once_result [OF wf pw names o on, of breaks my_id my_addr info] on(3) show ?thesis by fastforce
qed

lemma write_step_preserves: "proc_ok R p \<Longrightarrow> sv_event_ok R (Sv_write c w data) \<Longrightarrow> step_preserves R (Sv_write c w data) p"
proof (cases "sn_store (sp_node p)")
  case (Some d)
  assume ok: "proc_ok R p" and ev: "sv_event_ok R (Sv_write c w data)"
  then obtain d' where "store_write R c w data (Some d) = (True, Some d')" "store_wf R d'"
      "\<forall>c' w'. name_ok c' \<longrightarrow> store_abs R d' c' w' = (if c' = c \<and> w' = w then Some data else store_abs R d c' w')"
    using store_write_keeps [of d c w data] Some by (auto simp: proc_ok_def)
  then show ?thesis using ok Some by (auto simp: step_preserves_def proc_simps serve_def write_handler_assigned)
qed (auto simp: step_preserves_def proc_simps serve_def write_handler_assigned store_write_def)

lemma delete_step_preserves: "proc_ok R p \<Longrightarrow> sv_event_ok R (Sv_delete c) \<Longrightarrow> step_preserves R (Sv_delete c) p"
proof (cases "sn_store (sp_node p)")
  case (Some d)
  assume ok: "proc_ok R p" and ev: "sv_event_ok R (Sv_delete c)"
  then obtain d' where "store_remove R c (Some d) = (True, Some d')" "store_wf R d'"
      "\<forall>c' w'. name_ok c' \<longrightarrow> store_abs R d' c' w' = (if c' = c then None else store_abs R d c' w')"
    using store_remove_keeps [of d c] Some by (auto simp: proc_ok_def)
  then show ?thesis using ok Some by (auto simp: step_preserves_def proc_simps serve_def write_handler_assigned)
qed (auto simp: step_preserves_def proc_simps serve_def write_handler_assigned store_remove_def)

lemma repair_step_preserves:
  assumes ok: "proc_ok R p" and ev: "sv_event_ok R (Sv_repair ord_set ord_ids breaks info peers)"
  shows "step_preserves R (Sv_repair ord_set ord_ids breaks info peers) p"
proof (cases "sn_store (sp_node p)")
  case None
  then show ?thesis using ok by (auto simp: step_preserves_def proc_simps repair_turn_def repair_without_store)
next
  case (Some d)
  let ?rp = "sn_reporter (sp_node p)"
  have names: "\<forall>c \<in> set (rp_assigned ?rp). name_ok c" using ok by (simp add: proc_ok_def)
  have "store_wf R d" "peers_wf R peers" "\<forall>xs. mset (ord_set xs) = mset xs" "\<forall>xs. mset (ord_ids xs) = mset xs"
    using ok Some ev by (auto simp: proc_ok_def)
  then obtain d' where d': "fst (repair_once R ord_set ord_ids breaks (cfg_node_id (sp_cfg p)) (cfg_address (sp_cfg p)) info
        (sp_repair_stopped p) ?rp (Some d) peers) = Some d'" "store_wf R d'"
      "\<And>c v x. (rp_assigned ?rp = [] \<or> c \<in> set (rp_assigned ?rp)) \<Longrightarrow> store_abs R d c v = Some x \<Longrightarrow> store_abs R d' c v = Some x"
    using repair_pass_store [OF _ _ names, of d peers ord_set ord_ids breaks "cfg_node_id (sp_cfg p)" "cfg_address (sp_cfg p)" info
        "sp_repair_stopped p"] by blast
  have "storage_step R (Sv_repair ord_set ord_ids breaks info peers) p =
      (if sp_running p then p\<lparr>sp_node := (sp_node p)\<lparr>sn_store := Some d'\<rparr>\<rparr> else p)"
    using Some d'(1) by (simp add: repair_turn_def)
  then show ?thesis using ok Some d'(2,3) by (auto simp: step_preserves_def proc_simps)
qed

lemma storage_step_preserves: "proc_ok R p \<Longrightarrow> sv_event_ok R ev \<Longrightarrow> step_preserves R ev p"
proof (cases ev)
  case (Sv_report loadavg cores disk rpc)
  assume "proc_ok R p" "sv_event_ok R ev"
  then show ?thesis
    using Sv_report report_once_assigned [of "cfg_node_id (sp_cfg p)" "cfg_address (sp_cfg p)" "compute_load_fraction loadavg cores"
        "compute_disk_usage disk" rpc "sn_reporter (sp_node p)"]
    by (auto simp: step_preserves_def proc_simps heartbeat_turn_def) blast+
qed (auto simp: write_step_preserves delete_step_preserves repair_step_preserves step_preserves_def [of R "Sv_read c mv" for c mv]
  step_preserves_def [of R "Sv_fetch c mv" for c mv] step_preserves_def [of R Sv_signal] step_preserves_def [of R Sv_shutdown]
  proc_simps serve_def shut_down_def reporter_stop_def read_handlers_store)

end

lemma storage_run_keeps:
  assumes db: "reliable_rocksdb R" and "proc_ok R p" and "list_all (sv_event_ok R) evs" and name: "name_ok cid"
    and "list_all (sv_keeps cid v x) evs" and "proc_assigned cid p" and "proc_holds R cid v x p"
  shows "proc_ok R (storage_run R evs p) \<and> proc_holds R cid v x (storage_run R evs p)"
  using assms(2,3,5-7) unfolding storage_run_def
proof (induction evs arbitrary: p)
  case (Cons ev evs)
  have ev: "sv_event_ok R ev" "sv_keeps cid v x ev" using Cons.prems by simp_all
  have "step_preserves R ev p" by (rule reliable_rocksdb.storage_step_preserves [OF db Cons.prems(1) ev(1)])
  then have "proc_ok R (storage_step R ev p)" "proc_assigned cid (storage_step R ev p)" "proc_holds R cid v x (storage_step R ev p)"
    using name ev(2) Cons.prems(4,5) by (auto simp: step_preserves_def)
  then show ?case using Cons.IH Cons.prems by simp
qed simp

section \<open>Properties\<close>

text \<open>
  What the command line does. The program ends with status 0 only on \<^verbatim>\<open>--help\<close>, by an exception
  only on \<^verbatim>\<open>--capacity\<close> or for a directory that cannot be created, and with status 1 when an obligatory
  value is missing or the address cannot be used. Otherwise it serves: with the directory, address, node id and metadata server given, with
  the store the directory holds, and without an assignment.
\<close>

theorem storage_main_outcomes:
  "case storage_main can_create open_db can_listen args of
     Inl (Exit n) \<Rightarrow> n = 0 \<and> ''--help'' \<in> set args \<or> n = 1
   | Inl (Uncaught x) \<Rightarrow> ''--capacity'' \<in> set args \<or> x = Runtime_error ''create_directories'' \<and> (\<exists>dir. \<not> can_create dir)
   | Inr p \<Rightarrow> storage_args args (default_node_config\<lparr>cfg_capacity_bytes := 10737418240\<rparr>, []) = Inr (sp_cfg p, sp_meta p) \<and>
       cfg_node_id (sp_cfg p) \<noteq> [] \<and> cfg_address (sp_cfg p) \<noteq> [] \<and> cfg_data_dir (sp_cfg p) \<noteq> [] \<and> sp_meta p \<noteq> [] \<and>
       can_listen (cfg_address (sp_cfg p)) \<and> sn_store (sp_node p) = open_db (cfg_data_dir (sp_cfg p) @ ''/chunks'') \<and>
       rp_assigned (sn_reporter (sp_node p)) = [] \<and> sp_running p \<and> sp_serving p"
proof (cases "storage_args args (default_node_config\<lparr>cfg_capacity_bytes := 10737418240\<rparr>, [])")
  case (Inl e)
  then show ?thesis using storage_args_outcomes [OF Inl] by (cases e) (auto simp: storage_main_def storage_config_def)
next
  case (Inr cm)
  obtain cfg m where "cm = (cfg, m)" by fastforce
  then show ?thesis using Inr by (auto simp: storage_main_def storage_config_def store_open_def new_reporter_def Let_def)
qed

text \<open>
  The command line carries a configuration: a program started with the options written out for a
  configuration serves with it.
\<close>

theorem storage_options_roundtrip:
  assumes "cfg_node_id cfg \<noteq> []" "cfg_address cfg \<noteq> []" "cfg_data_dir cfg \<noteq> []" "meta_addr \<noteq> []" "can_listen (cfg_address cfg)"
    and "can_create (cfg_data_dir cfg)" "can_create (cfg_data_dir cfg @ ''/chunks'')"
  shows "\<exists>p. storage_main can_create open_db can_listen (storage_options cfg meta_addr) = Inr p \<and> cfg_node_id (sp_cfg p) = cfg_node_id cfg \<and>
    cfg_address (sp_cfg p) = cfg_address cfg \<and> cfg_data_dir (sp_cfg p) = cfg_data_dir cfg \<and>
    cfg_capacity_bytes (sp_cfg p) = cfg_capacity_bytes cfg \<and> sp_meta p = meta_addr"
  using assms by (simp add: storage_main_def storage_config_def storage_options_read store_open_def Let_def)

theorem storage_options_roundtrip_witness:
  "\<exists>p. storage_main (\<lambda>_. True) (\<lambda>_. Some ([] :: mem_db)) (\<lambda>_. True) [''--id'', ''n1'', ''--listen'', ''h:1'', ''--data'', ''d'', ''--meta'', ''h:0'',
      ''--capacity'', ''77''] = Inr p \<and> cfg_node_id (sp_cfg p) = ''n1'' \<and> cfg_capacity_bytes (sp_cfg p) = 77 \<and> sp_meta p = ''h:0''"
proof -
  let ?cfg = "default_node_config\<lparr>cfg_node_id := ''n1'', cfg_address := ''h:1'', cfg_data_dir := ''d'', cfg_capacity_bytes := 77\<rparr>"
  have "to_string_u64 77 = ''77''" by code_simp
  then have "storage_options ?cfg ''h:0'' = [''--id'', ''n1'', ''--listen'', ''h:1'', ''--data'', ''d'', ''--meta'', ''h:0'', ''--capacity'', ''77'']"
    by (simp add: storage_options_def)
  then show ?thesis using storage_options_roundtrip [of ?cfg "''h:0''" "\<lambda>_. True" "\<lambda>_. True" "\<lambda>_. Some ([] :: mem_db)"] by auto
qed

text \<open>A node that holds the chunk \<open>a\<close>, to which it is assigned.\<close>

definition demo_proc :: "mem_db storage_proc" where
  "demo_proc = \<lparr>sp_cfg = default_node_config\<lparr>cfg_node_id := ''n1'', cfg_address := ''h:1''\<rparr>, sp_meta = ''h:0'',
     sp_node = \<lparr>sn_store = Some [(make_key ''a'' 3, ''x'')], sn_reporter = new_reporter\<lparr>rp_assigned := [''a''], rp_has_assignment := True\<rparr>\<rparr>,
     sp_repair_stopped = False, sp_running = True, sp_serving = True\<rparr>"

lemma demo_proc_ok: "proc_ok mem_rocksdb demo_proc"
  by (auto simp: proc_ok_def demo_proc_def store_wf_def mem_rocksdb_def name_ok_def version_ok_def
      intro!: exI [of _ "''a''"] exI [of _ "3 :: u64"] split: if_splits)

text \<open>
  C15. A storage server keeps what it is meant to keep: in every sequence of writes, reads, streams,
  deletions, heartbeats, repair passes and a shutdown, a version of a chunk stays in the store with
  its bytes, as long as nobody deletes the chunk or writes other bytes under the same version, and
  every assignment received names it or is empty. Repair passes and failed heartbeats included.
\<close>

theorem assigned_chunk_kept:
  assumes "reliable_rocksdb R" and "proc_ok R p" and "list_all (sv_event_ok R) evs" and "name_ok cid"
    and "list_all (sv_keeps cid v x) evs" and "proc_assigned cid p" and "proc_holds R cid v x p"
  shows "\<exists>d. sn_store (sp_node (storage_run R evs p)) = Some d \<and> store_wf R d \<and> store_abs R d cid v = Some x"
  using storage_run_keeps [OF assms] by (auto simp: proc_ok_def proc_holds_def)

theorem assigned_chunk_kept_witness:
  "\<exists>d. sn_store (sp_node (storage_run mem_rocksdb [Sv_delete ''b'', Sv_report None 4 None (\<lambda>_. None),
       Sv_repair rev rev (\<lambda>_. None) (\<lambda>_. None) [], Sv_signal, Sv_shutdown] demo_proc)) = Some d \<and> store_abs mem_rocksdb d ''a'' 3 = Some ''x''"
proof -
  let ?evs = "[Sv_delete ''b'', Sv_report None 4 None (\<lambda>_. None), Sv_repair rev rev (\<lambda>_. None) (\<lambda>_. None) [], Sv_signal, Sv_shutdown]"
  have "list_all (sv_event_ok mem_rocksdb) ?evs" "name_ok ''a''" "list_all (sv_keeps ''a'' 3 ''x'') ?evs" "proc_assigned ''a'' demo_proc"
      "proc_holds mem_rocksdb ''a'' 3 ''x'' demo_proc"
    by (simp_all add: name_ok_def peers_wf_def proc_assigned_def proc_holds_def demo_proc_def store_abs_def mem_rocksdb_def)
  from assigned_chunk_kept [OF mem.reliable_rocksdb_axioms demo_proc_ok this] show ?thesis by blast
qed

text \<open>
  C35. A chunk written since the last heartbeat is not safe: the repair pass goes by the assignment of
  that heartbeat. If it is not empty and does not name the chunk, a write that the server
  acknowledged is gone after the next pass, whatever the metadata server would answer by then.
\<close>

theorem fresh_write_removed:
  assumes db: "reliable_rocksdb R" and p: "proc_ok R p" "sn_store (sp_node p) = Some d" "sp_running p" "sp_serving p" "\<not> sp_repair_stopped p"
    and rp: "rp_has_assignment (sn_reporter (sp_node p))" "rp_assigned (sn_reporter (sp_node p)) \<noteq> []"
      "cid \<notin> set (rp_assigned (sn_reporter (sp_node p)))"
    and cid: "name_ok cid" "cid \<noteq> []" "version_ok v"
    and ok: "sv_event_ok R (Sv_repair ord_set ord_ids breaks info peers)"
  shows "fst (WriteChunk R cid v data (sp_node p)) \<and>
    (\<exists>d'. sn_store (sp_node (storage_run R [Sv_write cid v data, Sv_repair ord_set ord_ids breaks info peers] p)) = Some d' \<and>
       (\<forall>w. store_abs R d' cid w = None))"
proof -
  have wf: "store_wf R d" and names: "\<forall>c \<in> set (rp_assigned (sn_reporter (sp_node p))). name_ok c" using p(1,2) by (auto simp: proc_ok_def)
  obtain d1 where d1: "store_write R cid v data (Some d) = (True, Some d1)" "store_wf R d1"
    using reliable_rocksdb.store_write_keeps [OF db wf cid(1,3)] by blast
  have pw: "peers_wf R peers" and perm: "\<forall>xs. mset (ord_set xs) = mset xs" "\<forall>xs. mset (ord_ids xs) = mset xs" using ok by simp_all
  have o: "\<And>xs. set (ord_set xs) = set xs" "\<And>xs. set (ord_ids xs) = set xs" using perm by (metis set_mset_mset)+
  obtain d' ps' where d': "repair_once R ord_set ord_ids breaks (cfg_node_id (sp_cfg p)) (cfg_address (sp_cfg p)) info False
      (sn_reporter (sp_node p)) (Some d1) peers = (Some d', ps')"
      "\<forall>c w. name_ok c \<and> c \<noteq> [] \<and> c \<notin> set (rp_assigned (sn_reporter (sp_node p))) \<longrightarrow> store_abs R d' c w = None"
    using reliable_rocksdb.repair_once_result [OF db d1(2) pw names o _ rp(1,2), where stopped = False] by blast
  have "storage_step R (Sv_write cid v data) p = p\<lparr>sp_node := (sp_node p)\<lparr>sn_store := Some d1\<rparr>\<rparr>"
    using p d1(1) by (simp add: serve_def WriteChunk_def)
  then have "sn_store (sp_node (storage_run R [Sv_write cid v data, Sv_repair ord_set ord_ids breaks info peers] p)) = Some d'"
    using p d'(1) by (simp add: storage_run_def repair_turn_def)
  moreover have "fst (WriteChunk R cid v data (sp_node p))" using p(2) d1(1) by (simp add: WriteChunk_def)
  ultimately show ?thesis using d'(2) cid rp(3) by blast
qed

theorem fresh_write_removed_witness:
  "fst (WriteChunk mem_rocksdb ''c'' 1 ''y'' (sp_node demo_proc)) \<and>
    (\<exists>d'. sn_store (sp_node (storage_run mem_rocksdb [Sv_write ''c'' 1 ''y'', Sv_repair rev rev (\<lambda>_. None) (\<lambda>_. Some (1, [])) []] demo_proc)) = Some d' \<and>
       store_abs mem_rocksdb d' ''c'' 1 = None)"
proof -
  have "sn_store (sp_node demo_proc) = Some [(make_key ''a'' 3, ''x'')]" "sp_running demo_proc" "sp_serving demo_proc" "\<not> sp_repair_stopped demo_proc"
      "rp_has_assignment (sn_reporter (sp_node demo_proc))" "rp_assigned (sn_reporter (sp_node demo_proc)) \<noteq> []"
      "''c'' \<notin> set (rp_assigned (sn_reporter (sp_node demo_proc)))" "name_ok ''c''" "''c'' \<noteq> []" "version_ok 1"
      "sv_event_ok mem_rocksdb (Sv_repair rev rev (\<lambda>_. None) (\<lambda>_. Some (1, [])) [])"
    by (simp_all add: demo_proc_def name_ok_def version_ok_def peers_wf_def)
  from fresh_write_removed [OF mem.reliable_rocksdb_axioms demo_proc_ok this, of "''y''"] show ?thesis by blast
qed

end
