(* ===== verification/Nimbus_Client.thy ===== *)
theory Nimbus_Client
  imports Meta_Rpc
begin

text \<open>
  The client library, \<^verbatim>\<open>src/client/nimbus_client.{h,cpp}\<close>: \<^verbatim>\<open>put\<close> through the metadata
  leader, \<^verbatim>\<open>get\<close> from the replicas the leader names, with sixty rounds over them, and
  \<^verbatim>\<open>remove\<close>. The fate of every remote call is an argument (\<open>net\<close>), as is the message of a
  status that is not OK. The lemmas lead to one statement about the whole path: what was put is
  what a later get returns.
\<close>

section \<open>The client object\<close>

text \<open>
  A stub is kept per node id; it goes on calling the address it was created for, which is what the
  model records of it.
\<close>

record nimbus_client =
  nc_node_addrs :: "(string, string) umap"
  nc_stubs :: "(string, string) umap"

record put_result =
  pr_ok :: bool
  pr_error :: string
  pr_version :: u64
  pr_replica_nodes :: "string list"

record get_result =
  gr_ok :: bool
  gr_error :: string
  gr_data :: string
  gr_version :: u64

definition parse_replica_entry :: "string \<Rightarrow> string \<times> string" where
  "parse_replica_entry entry = (case find_char CHR ''='' entry of
     Some eq \<Rightarrow> (take eq entry, drop (eq + 1) entry)
   | None \<Rightarrow> (entry, []))"

text \<open>The stub is given by the address it calls; \<open>None\<close> is the null pointer.\<close>

definition get_or_create_stub :: "string \<Rightarrow> string \<Rightarrow> nimbus_client \<Rightarrow> string option \<times> nimbus_client" where
  "get_or_create_stub node_id addr cl =
     (let cl1 = (if addr \<noteq> [] then cl\<lparr>nc_node_addrs := um_assign node_id addr (nc_node_addrs cl)\<rparr> else cl) in
      case um_find (nc_node_addrs cl1) node_id of
        None \<Rightarrow> (None, cl1)
      | Some resolved \<Rightarrow>
          (let cl2 = (case um_find (nc_stubs cl1) node_id of
                        None \<Rightarrow> cl1\<lparr>nc_stubs := um_assign node_id resolved (nc_stubs cl1)\<rparr>
                      | Some _ \<Rightarrow> cl1)
           in (um_find (nc_stubs cl2) node_id, cl2)))"

section \<open>Operations\<close>

definition client_put :: "rpc_service \<Rightarrow> 'db rpc_env \<Rightarrow> net \<Rightarrow> string \<Rightarrow> string \<Rightarrow> string \<Rightarrow> int \<Rightarrow> 'db rpc_state \<Rightarrow>
     put_result \<times> 'db rpc_state" where
  "client_put svc env net err cid data desired_rf s =
     (let lost = \<lparr>pr_ok = False, pr_error = err, pr_version = 0, pr_replica_nodes = []\<rparr> in
      if net = Request_lost then (lost, s)
      else let (r, s1) = PutChunk svc env cid (word_of_nat (length data)) desired_rf data s in
        if net = Response_lost then (lost, s1)
        else case r of
               Inl _ \<Rightarrow> (lost, s1)
             | Inr (Inl e) \<Rightarrow> (\<lparr>pr_ok = False, pr_error = e, pr_version = 0, pr_replica_nodes = []\<rparr>, s1)
             | Inr (Inr (v, entries)) \<Rightarrow> (\<lparr>pr_ok = True, pr_error = [], pr_version = v, pr_replica_nodes = entries\<rparr>, s1))"

definition build_replica_try_list :: "chunk_meta \<Rightarrow> string list" where
  "build_replica_try_list m = cm_replica_set m @ cm_old_replica_set m"

text \<open>The lambda \<^verbatim>\<open>try_read\<close>: \<open>None\<close> is a result that is not OK.\<close>

definition try_read :: "'db rocksdb_ops \<Rightarrow> (string \<Rightarrow> net) \<Rightarrow> string \<Rightarrow> u64 \<Rightarrow> string \<Rightarrow>
     nimbus_client \<times> (string, 'db storage_node) umap \<Rightarrow> (string \<times> u64) option \<times> nimbus_client \<times> (string, 'db storage_node) umap" where
  "try_read R nets cid target_version entry s = (let (cl, nodes) = s; (node_id, parsed_addr) = parse_replica_entry entry in
     case get_or_create_stub node_id parsed_addr cl of
       (None, cl1) \<Rightarrow> (None, cl1, nodes)
     | (Some a, cl1) \<Rightarrow>
         (case um_find nodes a of
            None \<Rightarrow> (None, cl1, nodes)
          | Some sn \<Rightarrow>
              if nets a = Request_lost then (None, cl1, nodes)
              else (case ReadChunk R cid target_version sn of
                      (Inr dv, sn1) \<Rightarrow> (if nets a = Delivered then Some dv else None, cl1, um_assign a sn1 nodes)
                    | (Inl _, sn1) \<Rightarrow> (None, cl1, um_assign a sn1 nodes))))"

fun read_round :: "'db rocksdb_ops \<Rightarrow> (string \<Rightarrow> net) \<Rightarrow> string \<Rightarrow> u64 \<Rightarrow> string list \<Rightarrow>
     nimbus_client \<times> (string, 'db storage_node) umap \<Rightarrow> (string \<times> u64) option \<times> nimbus_client \<times> (string, 'db storage_node) umap" where
  "read_round R nets cid target [] s = (None, s)"
| "read_round R nets cid target (entry # entries) s =
     (case try_read R nets cid target entry s of
        (Some dv, s1) \<Rightarrow> (Some dv, s1)
      | (None, s1) \<Rightarrow> read_round R nets cid target entries s1)"

text \<open>The attempts \<open>attempt\<close>, \<open>attempt + 1\<close>, ..., \<open>k\<close> of them; \<open>nets\<close> tells the fate of the calls of each.\<close>

fun get_attempts :: "'db rocksdb_ops \<Rightarrow> (nat \<Rightarrow> string \<Rightarrow> net) \<Rightarrow> string \<Rightarrow> u64 \<Rightarrow> string list \<Rightarrow> nat \<Rightarrow> nat \<Rightarrow>
     nimbus_client \<times> (string, 'db storage_node) umap \<Rightarrow> (string \<times> u64) option \<times> nimbus_client \<times> (string, 'db storage_node) umap" where
  "get_attempts R nets cid target replicas attempt 0 s = (None, s)"
| "get_attempts R nets cid target replicas attempt (Suc k) s =
     (case read_round R (nets attempt) cid target replicas s of
        (Some dv, s1) \<Rightarrow> (Some dv, s1)
      | (None, s1) \<Rightarrow> get_attempts R nets cid target replicas (Suc attempt) k s1)"

definition client_get :: "rpc_service \<Rightarrow> 'db rocksdb_ops \<Rightarrow> (node_entry list \<Rightarrow> node_entry list) \<Rightarrow> net \<Rightarrow> string \<Rightarrow>
     (nat \<Rightarrow> string \<Rightarrow> net) \<Rightarrow> string \<Rightarrow> u64 \<Rightarrow> coordinator \<Rightarrow> nimbus_client \<times> (string, 'db storage_node) umap \<Rightarrow>
     get_result \<times> nimbus_client \<times> (string, 'db storage_node) umap" where
  "client_get svc R ord net err nets cid min_version coord s =
     (let failed = (\<lambda>e. \<lparr>gr_ok = False, gr_error = e, gr_data = [], gr_version = 0\<rparr>) in
      if net \<noteq> Delivered then (failed err, s)
      else case GetChunkInfo svc ord cid coord of
             Inl e \<Rightarrow> (failed e, s)
           | Inr m \<Rightarrow>
               (let target_version = (if min_version = 0 then cm_version m else min_version) in
                case get_attempts R nets cid target_version (build_replica_try_list m) 0 60 s of
                  (Some (data, v), s1) \<Rightarrow> (\<lparr>gr_ok = True, gr_error = [], gr_data = data, gr_version = v\<rparr>, s1)
                | (None, s1) \<Rightarrow> (failed ''all replicas failed'', s1)))"

definition client_remove :: "rpc_service \<Rightarrow> 'db rpc_env \<Rightarrow> net \<Rightarrow> string \<Rightarrow> coordinator \<Rightarrow> bool \<times> coordinator" where
  "client_remove svc env net cid coord =
     (if net = Request_lost then (False, coord)
      else case DeleteChunk svc env cid coord of
             Inl _ \<Rightarrow> (False, coord)
           | Inr (resp, coord1) \<Rightarrow> (net = Delivered \<and> resp = Inr (), coord1))"

section \<open>What the stores hold after a put\<close>

text \<open>Every node holds, of a chunk, nothing newer than version \<open>v\<close>, and as version \<open>v\<close> only these bytes.\<close>

definition newest_is :: "'db rocksdb_ops \<Rightarrow> (string, 'db storage_node) umap \<Rightarrow> string \<Rightarrow> u64 \<Rightarrow> string \<Rightarrow> bool" where
  "newest_is R nodes cid v data \<longleftrightarrow> (\<forall>a w x. node_has R nodes a cid w x \<longrightarrow> w < v \<or> w = v \<and> x = data)"

context reliable_rocksdb
begin

lemma write_remote_newest:
  assumes only: "newest_is R nodes cid v data" and name: "name_ok cid"
  shows "newest_is R (snd (write_remote R up addr cid v data nodes)) cid v data"
proof (cases "fst (write_remote R up addr cid v data nodes)")
  case True
  then obtain nodes' where w: "write_remote R up addr cid v data nodes = (True, nodes')"
    by (cases "write_remote R up addr cid v data nodes") auto
  obtain sn d d' where n: "um_find nodes addr = Some sn" "sn_store sn = Some d" "store_write R cid v data (Some d) = (True, Some d')"
      "\<And>a. um_find nodes' a = (if a = addr then Some (sn\<lparr>sn_store := Some d'\<rparr>) else um_find nodes a)"
    using write_remote_ok [OF w] by metis
  have old: "store_abs R d cid u = Some x \<Longrightarrow> u < v \<or> u = v \<and> x = data" for u x
    using only n(1,2) unfolding newest_is_def node_has_def by blast
  have "u < v \<or> u = v \<and> x = data" if "node_has R nodes' a cid u x" for a u x
  proof (cases "a = addr")
    case True
    then have "store_abs R d' cid u = Some x" using that n(4) by (auto simp: node_has_def)
    then show ?thesis using write_abs [OF n(3) name name, of u] old by (auto split: if_splits)
  next
    case False
    then have "node_has R nodes a cid u x" using that n(4) by (simp add: node_has_def)
    then show ?thesis using only unfolding newest_is_def by blast
  qed
  then show ?thesis using w by (simp add: newest_is_def)
next
  case False
  have "snd (write_remote R up addr cid v data nodes) = nodes \<or> (\<exists>sn. sn_store sn = None \<and>
      snd (write_remote R up addr cid v data nodes) = um_assign addr sn nodes)"
  proof (cases "um_find nodes addr")
    case (Some sn)
    show ?thesis
    proof (cases "sn_store sn")
      case None
      have "snd (write_remote R up addr cid v data nodes) \<in> {nodes, um_assign addr (sn\<lparr>sn_store := None\<rparr>) nodes}"
        using Some None by (simp add: write_remote_def WriteChunk_def store_write_def)
      moreover have "sn_store (sn\<lparr>sn_store := None\<rparr>) = None" by simp
      ultimately show ?thesis by blast
    next
      case d: (Some d)
      then show ?thesis using False Some put_succeeds [of d "make_key cid v" data]
        by (auto simp: write_remote_def WriteChunk_def store_write_def split: prod.splits if_splits)
    qed
  qed (simp add: write_remote_def)
  then have "node_has R nodes a cid w x" if "node_has R (snd (write_remote R up addr cid v data nodes)) a cid w x" for a w x
    using that by (auto simp: node_has_def split: if_splits)
  then show ?thesis using only unfolding newest_is_def by blast
qed

lemma put_loop_newest:
  assumes "newest_is R nodes cid v data" and "name_ok cid" and "env_db env = R"
    and "put_loop env coord cid v data ns nodes = (entries, addrs, failed, nodes')"
  shows "newest_is R nodes' cid v data"
  using assms(1,4)
proof (induction ns arbitrary: nodes entries addrs failed)
  case (Cons n ns)
  let ?addr = "rpc_replica_address (env_ord env) coord (encode_replica_target (env_ord env) coord n)"
  obtain ok nodes1 where w: "write_chunk_to_replica (env_db env) (env_up env) ?addr cid v data nodes = (ok, nodes1)" by fastforce
  obtain es as fs where rest: "put_loop env coord cid v data ns nodes1 = (es, as, fs, nodes')"
    using Cons.prems(2) w by (auto simp: Let_def split: prod.splits)
  have "newest_is R nodes1 cid v data"
    using write_remote_newest [OF Cons.prems(1) assms(2), of "env_up env" ?addr] w assms(3) Cons.prems(1)
    by (auto simp: write_chunk_to_replica_eq split: if_splits)
  then show ?case by (rule Cons.IH [OF _ rest])
qed simp

end

section \<open>Reading\<close>

lemma newest_is_same: "same_stores ps qs \<Longrightarrow> newest_is R ps cid v data \<longleftrightarrow> newest_is R qs cid v data"
  by (simp add: newest_is_def same_stores_node)

text \<open>The stubs in use call the addresses the entries give.\<close>

definition stubs_ok :: "nimbus_client \<Rightarrow> string list \<Rightarrow> bool" where
  "stubs_ok cl entries \<longleftrightarrow> (\<forall>e \<in> set entries. um_find (nc_stubs cl) (fst (parse_replica_entry e)) \<in>
     {None, Some (snd (parse_replica_entry e))})"

text \<open>Entries with an address each, for different nodes.\<close>

definition entries_ok :: "string list \<Rightarrow> bool" where
  "entries_ok entries \<longleftrightarrow> distinct (map (\<lambda>e. fst (parse_replica_entry e)) entries) \<and>
     (\<forall>e \<in> set entries. snd (parse_replica_entry e) \<noteq> [])"

lemma stub_for_entry:
  assumes ok: "entries_ok entries" "stubs_ok cl entries" and e: "e \<in> set entries"
  shows "\<exists>cl'. get_or_create_stub (fst (parse_replica_entry e)) (snd (parse_replica_entry e)) cl = (Some (snd (parse_replica_entry e)), cl') \<and>
    stubs_ok cl' entries"
proof -
  let ?n = "fst (parse_replica_entry e)" and ?a = "snd (parse_replica_entry e)"
  obtain cl' where cl': "get_or_create_stub ?n ?a cl = (Some ?a, cl')"
      "\<And>k. um_find (nc_stubs cl') k = (if k = ?n then Some ?a else um_find (nc_stubs cl) k)"
    using ok e by (cases "um_find (nc_stubs cl) ?n") (auto simp: get_or_create_stub_def entries_ok_def stubs_ok_def Let_def)
  have "fst (parse_replica_entry f) = ?n \<Longrightarrow> f = e" if "f \<in> set entries" for f
    using ok(1) e that by (auto simp: entries_ok_def distinct_map inj_on_def)
  then have "stubs_ok cl' entries" using ok(2) cl'(2) by (auto simp: stubs_ok_def)
  then show ?thesis using cl'(1) by blast
qed

context rocksdb
begin

text \<open>A read of version \<open>v\<close> that is answered gives the bytes; a node that has them and is reached answers.\<close>

lemma try_read_spec:
  assumes wf: "peers_wf R nodes" and only: "newest_is R nodes cid v data" and name: "name_ok cid"
    and ok: "entries_ok entries" "stubs_ok cl entries" and e: "e \<in> set entries"
    and run: "try_read R nets cid v e (cl, nodes) = (r, cl', nodes')"
  shows "stubs_ok cl' entries \<and> same_stores nodes nodes' \<and> r \<in> {None, Some (data, v)} \<and>
    (nets (snd (parse_replica_entry e)) = Delivered \<and> node_has R nodes (snd (parse_replica_entry e)) cid v data \<longrightarrow> r = Some (data, v))"
proof -
  let ?a = "snd (parse_replica_entry e)"
  obtain cl1 where stub: "get_or_create_stub (fst (parse_replica_entry e)) ?a cl = (Some ?a, cl1)" "stubs_ok cl1 entries"
    using stub_for_entry [OF ok e] by blast
  show ?thesis
  proof (cases "um_find nodes ?a")
    case None
    then show ?thesis using run stub by (auto simp: try_read_def node_has_def split: prod.splits)
  next
    case (Some sn)
    obtain rd sn1 where rd: "ReadChunk R cid v sn = (rd, sn1)" by fastforce
    have st: "sn_store sn1 = sn_store sn" using rd by (auto simp: ReadChunk_def split: option.splits if_splits)
    have same: "same_stores nodes (um_assign ?a sn1 nodes)" using Some st by (simp add: same_stores_def)
    have val: "rd = Inr (data, v)" if "rd = Inr dv" for dv
    proof -
      obtain x w where dv: "dv = (x, w)" by fastforce
      have r: "store_read R cid v (sn_store sn) = Some (x, w)" using rd that dv by (auto simp: ReadChunk_def split: option.splits if_splits)
      then obtain d where d: "sn_store sn = Some d" by (cases "sn_store sn") (auto simp: store_read_def)
      then have "store_wf R d" using wf Some unfolding peers_wf_def by blast
      then have "store_abs R d cid w = Some x" "v \<le> w" using store_read_Some [of d cid v x w] name r d by auto
      then have "node_has R nodes ?a cid w x" "\<not> w < v" using Some d by (auto simp: node_has_def)
      then show ?thesis using only that dv unfolding newest_is_def by blast
    qed
    have hit: "\<exists>dv. rd = Inr dv" if has: "node_has R nodes ?a cid v data"
    proof -
      obtain d where d: "sn_store sn = Some d" "store_abs R d cid v = Some data" using has Some by (auto simp: node_has_def)
      then obtain w where w: "newest R d cid w" "v \<le> w" using newest_exists [of R d cid v] by (auto simp: newest_def)
      have "store_wf R d" using wf Some d(1) unfolding peers_wf_def by blast
      then show ?thesis using read_newest(1) [OF _ name w(1), of v] w d(1) rd by (auto simp: ReadChunk_def newest_def split: if_splits)
    qed
    show ?thesis
      using run stub Some rd same val hit by (cases rd) (auto simp: try_read_def split: prod.splits if_splits)
  qed
qed

lemma read_round_spec:
  assumes "peers_wf R nodes" and "newest_is R nodes cid v data" and name: "name_ok cid"
    and ok: "entries_ok all_entries" and "stubs_ok cl all_entries" and "set entries \<subseteq> set all_entries"
    and "read_round R nets cid v entries (cl, nodes) = (r, cl', nodes')"
  shows "stubs_ok cl' all_entries \<and> same_stores nodes nodes' \<and> r \<in> {None, Some (data, v)} \<and>
    ((\<exists>e \<in> set entries. nets (snd (parse_replica_entry e)) = Delivered \<and> node_has R nodes (snd (parse_replica_entry e)) cid v data) \<longrightarrow>
      r = Some (data, v))"
  using assms(1,2,5-7)
proof (induction entries arbitrary: cl nodes)
  case (Cons e es)
  obtain r1 cl1 nodes1 where t: "try_read R nets cid v e (cl, nodes) = (r1, cl1, nodes1)" by (metis prod.exhaust)
  have e: "e \<in> set all_entries" using Cons.prems(4) by simp
  note s1 = try_read_spec [OF Cons.prems(1,2) name ok Cons.prems(3) e t]
  then have same: "same_stores nodes nodes1" by blast
  show ?case
  proof (cases r1)
    case None
    then have rest: "read_round R nets cid v es (cl1, nodes1) = (r, cl', nodes')" using Cons.prems(5) t by simp
    have "stubs_ok cl' all_entries \<and> same_stores nodes1 nodes' \<and> r \<in> {None, Some (data, v)} \<and>
      ((\<exists>e \<in> set es. nets (snd (parse_replica_entry e)) = Delivered \<and> node_has R nodes1 (snd (parse_replica_entry e)) cid v data) \<longrightarrow>
        r = Some (data, v))"
      using Cons.prems(4) s1 by (intro Cons.IH [OF same_stores_wf [OF same Cons.prems(1)] _ _ _ rest])
        (auto simp: newest_is_same [OF same, symmetric] Cons.prems(2))
    then show ?thesis using s1 None same_stores_trans [OF same] same_stores_node(1) [OF same] by auto
  next
    case (Some dv)
    then show ?thesis using Cons.prems(5) t s1 by auto
  qed
qed simp

lemma get_attempts_spec:
  assumes "peers_wf R nodes" and "newest_is R nodes cid v data" and name: "name_ok cid"
    and ok: "entries_ok entries" and "stubs_ok cl entries"
    and "get_attempts R nets cid v entries i k (cl, nodes) = (r, cl', nodes')"
  shows "r \<in> {None, Some (data, v)} \<and>
    (\<forall>j < k. (\<exists>e \<in> set entries. nets (i + j) (snd (parse_replica_entry e)) = Delivered \<and>
        node_has R nodes (snd (parse_replica_entry e)) cid v data) \<longrightarrow> r = Some (data, v))"
  using assms(1,2,5,6)
proof (induction k arbitrary: i cl nodes)
  case (Suc k)
  obtain r1 cl1 nodes1 where t: "read_round R (nets i) cid v entries (cl, nodes) = (r1, cl1, nodes1)" by (metis prod.exhaust)
  note s1 = read_round_spec [OF Suc.prems(1,2) name ok Suc.prems(3) subset_refl t]
  then have same: "same_stores nodes nodes1" by blast
  show ?case
  proof (cases r1)
    case None
    then have rest: "get_attempts R nets cid v entries (Suc i) k (cl1, nodes1) = (r, cl', nodes')" using Suc.prems(4) t by simp
    have IH: "r \<in> {None, Some (data, v)}" "\<And>j. j < k \<Longrightarrow> (\<exists>e \<in> set entries. nets (Suc i + j) (snd (parse_replica_entry e)) = Delivered \<and>
        node_has R nodes1 (snd (parse_replica_entry e)) cid v data) \<Longrightarrow> r = Some (data, v)"
      using Suc.IH [OF same_stores_wf [OF same Suc.prems(1)] _ _ rest] s1 newest_is_same [OF same] Suc.prems(2) by blast+
    have "r = Some (data, v)" if j: "j < Suc k" "\<exists>e \<in> set entries. nets (i + j) (snd (parse_replica_entry e)) = Delivered \<and>
        node_has R nodes (snd (parse_replica_entry e)) cid v data" for j
    proof (cases j)
      case 0
      then show ?thesis using j(2) s1 None by auto
    next
      case (Suc j')
      then show ?thesis using IH(2) [of j'] j same_stores_node(1) [OF same] by auto
    qed
    then show ?thesis using IH(1) by blast
  next
    case (Some dv)
    then show ?thesis using Suc.prems(4) t s1 by auto
  qed
qed simp

end

section \<open>From a put to a get\<close>

text \<open>Two majorities of one list share an element.\<close>

lemma subseq_distinct: "subseq xs zs \<Longrightarrow> distinct zs \<Longrightarrow> distinct xs"
  by (induction rule: list_emb.induct) (auto dest: subseq_members)

lemma majorities_meet:
  assumes "distinct zs" and "subseq xs zs" "length zs < 2 * length xs" and "subseq ys zs" "length zs < 2 * length ys"
  shows "\<exists>x. x \<in> set xs \<and> x \<in> set ys"
proof (rule ccontr)
  assume "\<not> (\<exists>x. x \<in> set xs \<and> x \<in> set ys)"
  then have "card (set xs \<union> set ys) = card (set xs) + card (set ys)" by (intro card_Un_disjoint) auto
  moreover have "card (set xs) = length xs" "card (set ys) = length ys"
    using subseq_distinct [OF assms(2,1)] subseq_distinct [OF assms(4,1)] by (simp_all add: distinct_card)
  moreover have "card (set xs \<union> set ys) \<le> card (set zs)"
    using subseq_members [OF assms(2)] subseq_members [OF assms(4)] by (intro card_mono) auto
  moreover have "card (set zs) = length zs" using assms(1) by (rule distinct_card)
  ultimately show False using assms(3,5) by linarith
qed

lemma parse_entry: "parse_replica_entry e = (extract_node_id e, if CHR ''='' \<in> set e then resolve_address e [] else [])"
proof (cases "CHR ''='' \<in> set e")
  case False
  then show ?thesis by (simp add: parse_replica_entry_def extract_node_id_def find_char_None [THEN iffD2])
next
  case True
  then obtain p where "find_char CHR ''='' e = Some p" by (cases "find_char CHR ''='' e") auto
  then show ?thesis using True by (simp add: parse_replica_entry_def extract_node_id_def resolve_address_def)
qed

lemma client_put_ok_run:
  "client_put svc env net err cid data rf s = (pr, s') \<Longrightarrow> pr_ok pr \<Longrightarrow>
     PutChunk svc env cid (word_of_nat (length data)) rf data s = (Inr (Inr (pr_version pr, pr_replica_nodes pr)), s') \<and> rs_repl svc"
  by (auto simp: client_put_def Let_def PutChunk_def split: if_splits prod.splits sum.splits)

text \<open>The entries a put records carry the address of a node each.\<close>

lemma put_entries_ok:
  assumes db: "rocksdb (env_db env)" and ok: "cluster_ok env s" and id: "name_ok cid" and ver: "version_ok (next_version (st_coord s) cid)"
    and rf: "int32 rf" and addr: "\<forall>n \<in> set (get_alive_nodes (env_ord env) (st_coord s)). ne_address n \<noteq> []"
    and run: "PutChunk svc env cid sz rf data s = (Inr (Inr (v, entries)), s')"
  shows "entries_ok entries \<and> (\<forall>e \<in> set entries. CHR ''='' \<in> set e) \<and> peers_wf (env_db env) (st_nodes s')"
proof -
  obtain addrs failed nodes1 coord1 where r: "\<not> cast_int (length (put_nodes svc env rf (st_coord s))) < rf"
    "v = next_version (st_coord s) cid"
    "put_loop env (st_coord s) cid v data (put_nodes svc env rf (st_coord s)) (st_nodes s) = (entries, addrs, failed, nodes1)"
    "length entries div 2 + 1 \<le> length addrs" "s' = s\<lparr>st_coord := coord1, st_nodes := nodes1\<rparr>"
    using PutChunk_ok_run [OF run] by metis
  have "0 \<le> rf" by (rule put_rf [OF r(3,4)])
  moreover have "rf < 2 ^ 31" using rf by (simp add: int32_def)
  ultimately obtain ms where m: "distinct ms" "set ms \<subseteq> set (get_alive_nodes (env_ord env) (st_coord s))"
    "entries = map (\<lambda>n. ne_node_id n @ ''='' @ ne_address n) ms" "peers_wf (env_db env) nodes1"
    using put_loop_course [OF db ok id ver [folded r(2)] _ r(1) _ r(3)] by blast
  note t = put_targets [OF ok m(2)]
  have inj: "inj_on ne_node_id (set (get_alive_nodes (env_ord env) (st_coord s)))"
    using alive_nodes_distinct [of "env_ord env" "st_coord s"] ok by (simp add: cluster_ok_def distinct_map)
  have "map (\<lambda>e. fst (parse_replica_entry e)) entries = map ne_node_id ms" using t(4) by (simp add: m(3) parse_entry)
  then have "distinct (map (\<lambda>e. fst (parse_replica_entry e)) entries)"
    using m(1,2) inj by (auto simp: distinct_map intro: inj_on_subset)
  moreover have "\<forall>e \<in> set entries. snd (parse_replica_entry e) \<noteq> []" using t(3) addr m(2) by (auto simp: m(3) parse_entry)
  ultimately show ?thesis using m(3,4) r(5) by (auto simp: entries_ok_def)
qed

lemma get_info_after_put:
  assumes "get_chunk coord cid = Some \<lparr>ce_chunk_id = cid, ce_version = v, ce_replica_set = entries, ce_replication_factor = rf,
      ce_config_state = STABLE, ce_old_replica_set = [], ce_size_bytes = sz\<rparr>"
    and "\<forall>e \<in> set entries. CHR ''='' \<in> set e" and "rs_repl svc"
  shows "\<exists>m. GetChunkInfo svc ord cid coord = Inr m \<and> cm_version m = v \<and> build_replica_try_list m = entries"
proof -
  have "encode_replica_target ord coord e = e" if "e \<in> set entries" for e
    using assms(2) that find_char_None [of "CHR ''=''" e] by (auto simp: encode_replica_target_def)
  then have "map (encode_replica_target ord coord) entries = entries" by (simp add: map_idI)
  then show ?thesis using assms(1,3) by (simp add: GetChunkInfo_def build_replica_try_list_def)
qed

text \<open>A put that reported success followed by a get of a fresh client.\<close>

lemma put_then_get:
  assumes db: "reliable_rocksdb (env_db env)" and ok: "cluster_ok env s" and id: "id_ok cid" "name_ok cid"
    and ver: "version_ok (next_version (st_coord s) cid)" and rf: "int32 rf"
    and addr: "\<forall>n \<in> set (get_alive_nodes (env_ord env) (st_coord s)). ne_address n \<noteq> []"
    and fresh: "\<forall>a w x. node_has (env_db env) (st_nodes s) a cid w x \<longrightarrow> w < next_version (st_coord s) cid"
    and put: "client_put svc env net err cid data rf s = (pr, s')" "pr_ok pr"
    and get: "client_get svc (env_db env) ord Delivered err' nets cid 0 (st_coord s') (cl, st_nodes s') = (gr, cl', nodes')"
    and stubs: "nc_stubs cl = []"
  shows "(gr_ok gr \<longrightarrow> gr_data gr = data \<and> gr_version gr = pr_version pr) \<and>
    ((\<exists>j < 60. \<exists>reached. subseq reached (pr_replica_nodes pr) \<and> length (pr_replica_nodes pr) < 2 * length reached \<and>
        (\<forall>e \<in> set reached. nets j (resolve_address e []) = Delivered)) \<longrightarrow> gr_ok gr)"
proof -
  let ?R = "env_db env" and ?es = "pr_replica_nodes pr" and ?v = "pr_version pr"
  have db0: "rocksdb ?R" using db by (simp add: reliable_rocksdb_def)
  have run: "PutChunk svc env cid (word_of_nat (length data)) rf data s = (Inr (Inr (?v, ?es)), s')" and repl: "rs_repl svc"
    using client_put_ok_run [OF put] by auto
  note c = put_chunk_course [OF db0 ok id ver rf run]
  have v: "?v = next_version (st_coord s) cid" and dist: "distinct ?es" using c by (auto simp: distinct_map)
  have es: "entries_ok ?es" "\<forall>e \<in> set ?es. CHR ''='' \<in> set e" and wf: "peers_wf ?R (st_nodes s')"
    using put_entries_ok [OF db0 ok id(2) ver rf addr run] by auto
  have "newest_is ?R (st_nodes s) cid ?v data" using fresh v unfolding newest_is_def by simp blast
  moreover obtain addrs failed coord1 nodes1 where
      "put_loop env (st_coord s) cid ?v data (put_nodes svc env rf (st_coord s)) (st_nodes s) = (?es, addrs, failed, nodes1)"
      "s' = s\<lparr>st_coord := coord1, st_nodes := nodes1\<rparr>"
    using PutChunk_ok_run [OF run] by metis
  ultimately have only: "newest_is ?R (st_nodes s') cid ?v data"
    using reliable_rocksdb.put_loop_newest [OF db _ id(2) refl] by simp
  obtain m where m: "GetChunkInfo svc ord cid (st_coord s') = Inr m" "cm_version m = ?v" "build_replica_try_list m = ?es"
    using get_info_after_put [OF _ es(2) repl] c by blast
  obtain r cl1 ns1 where att: "get_attempts ?R nets cid ?v ?es 0 60 (cl, st_nodes s') = (r, cl1, ns1)" by (metis prod.exhaust)
  have so: "stubs_ok cl ?es" using stubs by (simp add: stubs_ok_def)
  note spec = rocksdb.get_attempts_spec [OF db0 wf only id(2) es(1) so att]
  have gr: "gr = (case r of Some (x, w) \<Rightarrow> \<lparr>gr_ok = True, gr_error = [], gr_data = x, gr_version = w\<rparr>
      | None \<Rightarrow> \<lparr>gr_ok = False, gr_error = ''all replicas failed'', gr_data = [], gr_version = 0\<rparr>)"
    using get m att by (auto simp: client_get_def Let_def split: option.splits prod.splits)
  have "gr_ok gr" if j: "j < 60" and sub: "subseq reached ?es" "length ?es < 2 * length reached"
      and up: "\<forall>e \<in> set reached. nets j (resolve_address e []) = Delivered" for j reached
  proof -
    obtain oks where oks: "subseq oks ?es" "length ?es < 2 * length oks" "\<forall>e \<in> set oks. node_has ?R (st_nodes s') (resolve_address e []) cid ?v data"
      using c by blast
    obtain e where e: "e \<in> set reached" "e \<in> set oks" using majorities_meet [OF dist sub oks(1,2)] by blast
    have "e \<in> set ?es" using e(1) subseq_members [OF sub(1)] by blast
    then have "snd (parse_replica_entry e) = resolve_address e []" using es(2) by (simp add: parse_entry)
    then have "r = Some (data, ?v)" using spec j e up oks(3) \<open>e \<in> set ?es\<close> by (metis add_0)
    then show ?thesis by (simp add: gr)
  qed
  moreover have "gr_ok gr \<longrightarrow> gr_data gr = data \<and> gr_version gr = ?v" using spec by (auto simp: gr split: option.splits)
  ultimately show ?thesis by blast
qed

section \<open>Properties\<close>



section \<open>A stub outlives its address\<close>

text \<open>
  A node that comes back under another address is not reached by a client that has called it before:
  the stub made for the first address is returned although the new one has been recorded.
\<close>

theorem stale_stub:
  "\<exists>cl1 cl2. get_or_create_stub ''n1'' ''old:1'' \<lparr>nc_node_addrs = [], nc_stubs = []\<rparr> = (Some ''old:1'', cl1) \<and>
     get_or_create_stub ''n1'' ''new:1'' cl1 = (Some ''old:1'', cl2) \<and> um_find (nc_node_addrs cl2) ''n1'' = Some ''new:1''"
  by (simp add: get_or_create_stub_def)

end
