(* ===== verification/Nimbus_Cli.thy ===== *)
theory Nimbus_Cli
  imports Nimbus_Client
begin

text \<open>
  The command-line client, \<^verbatim>\<open>src/bin/nimbus_cli.cpp\<close>: its options, its six commands, exit status
  and standard output. Every invocation is a process of its own, with a new client object. What it prints
  on the error stream is not modelled. The lemmas compose the whole system once: the bytes given to one
  invocation are printed by a later one.
\<close>

section \<open>Options\<close>

text \<open>\<^verbatim>\<open>std::getline\<close> with a delimiter: the pieces, without an empty last one.\<close>

fun getline_items :: "string \<Rightarrow> string \<Rightarrow> string list" where
  "getline_items cur [] = (if cur = [] then [] else [cur])"
| "getline_items cur (c # s) = (if c = CHR '','' then cur # getline_items [] s else getline_items (cur @ [c]) s)"

definition parse_nodes :: "string \<Rightarrow> (string, string) umap" where
  "parse_nodes s = fold (\<lambda>item out. case find_char CHR ''='' item of
     None \<Rightarrow> out | Some pos \<Rightarrow> um_assign (take pos item) (drop (pos + 1) item) out) (getline_items [] s) []"

text \<open>The loop over the global options: metadata address, node addresses and the arguments that are left.\<close>

fun cli_flags :: "string \<Rightarrow> (string, string) umap \<Rightarrow> string list \<Rightarrow> string \<times> (string, string) umap \<times> string list" where
  "cli_flags meta nodes [] = (meta, nodes, [])"
| "cli_flags meta nodes [a] =
     (if starts_with a ''--meta='' then (drop 7 a, nodes, [])
      else if starts_with a ''--nodes='' then (meta, parse_nodes (drop 8 a), [])
      else (meta, nodes, [a]))"
| "cli_flags meta nodes (a # v # rest) =
     (if a = ''--meta'' then cli_flags v nodes rest
      else if a = ''--nodes'' then cli_flags meta (parse_nodes v) rest
      else if starts_with a ''--meta='' then cli_flags (drop 7 a) nodes (v # rest)
      else if starts_with a ''--nodes='' then cli_flags meta (parse_nodes (drop 8 a)) (v # rest)
      else (meta, nodes, a # v # rest))"

section \<open>Commands\<close>

text \<open>What one invocation finds on the network: the fate of its calls and the message of a failed status.\<close>

record cli_net =
  cn_net :: net
  cn_err :: string
  cn_nets :: "nat \<Rightarrow> string \<Rightarrow> net"

abbreviation nl :: string where
  "nl \<equiv> [CHR 0x0A]"

definition config_state_str :: "bool \<Rightarrow> string" where
  "config_state_str is_stable = (if is_stable then ''STABLE'' else ''TRANSITIONING'')"

definition info_text :: "chunk_meta \<Rightarrow> string" where
  "info_text m =
     ''chunk_id:    '' @ cm_chunk_id m @ nl @
     ''version:     '' @ to_string_u64 (cm_version m) @ nl @
     ''size_bytes:  '' @ to_string_u64 (cm_size_bytes m) @ nl @
     ''rf:          '' @ to_string_int (cm_replication_factor m) @ nl @
     ''state:       '' @ config_state_str (cm_stable m) @ nl @
     ''replicas:'' @ nl @ concat (map (\<lambda>r. ''  '' @ r @ nl) (cm_replica_set m)) @
     (if cm_old_replica_set m \<noteq> []
      then ''old_replicas (transitioning):'' @ nl @ concat (map (\<lambda>r. ''  '' @ r @ nl) (cm_old_replica_set m)) else [])"

text \<open>
  A command gives the exit status, the standard output and the state of the servers after it; \<open>Inl\<close>
  when a handler of the server ended with an exception.
\<close>

type_synonym 'db cli_result = "int \<times> string \<times> (cxx_exc + 'db rpc_state)"

definition cmd_info :: "rpc_service \<Rightarrow> 'db rpc_env \<Rightarrow> cli_net \<Rightarrow> string \<Rightarrow> 'db rpc_state \<Rightarrow> 'db cli_result" where
  "cmd_info svc env n cid s =
     (if cn_net n \<noteq> Delivered then (1, [], Inr s)
      else case GetChunkInfo svc (env_ord env) cid (st_coord s) of
             Inl _ \<Rightarrow> (1, [], Inr s)
           | Inr m \<Rightarrow> (0, info_text m, Inr s))"

text \<open>The two replica commands differ in the handler they call and in the text of success.\<close>

definition cmd_replica :: "('db rpc_state \<Rightarrow> cxx_exc + (string + unit) \<times> 'db rpc_state) \<Rightarrow> string \<Rightarrow> cli_net \<Rightarrow>
     'db rpc_state \<Rightarrow> 'db cli_result" where
  "cmd_replica handler success n s =
     (if cn_net n = Request_lost then (1, [], Inr s)
      else case handler s of
             Inl x \<Rightarrow> (1, [], Inl x)
           | Inr (resp, s1) \<Rightarrow> if cn_net n = Delivered \<and> resp = Inr () then (0, success, Inr s1) else (1, [], Inr s1))"

definition cmd_add_replica :: "rpc_service \<Rightarrow> 'db rpc_env \<Rightarrow> cli_net \<Rightarrow> string \<Rightarrow> string \<Rightarrow> 'db rpc_state \<Rightarrow> 'db cli_result" where
  "cmd_add_replica svc env n cid node_id =
     cmd_replica (AddReplica svc env cid node_id) (''Replica added: '' @ node_id @ '' -> '' @ cid @ nl) n"

definition cmd_remove_replica :: "rpc_service \<Rightarrow> 'db rpc_env \<Rightarrow> cli_net \<Rightarrow> string \<Rightarrow> string \<Rightarrow> 'db rpc_state \<Rightarrow> 'db cli_result" where
  "cmd_remove_replica svc env n cid node_id =
     cmd_replica (RemoveReplica svc env cid node_id) (''Replica removed: '' @ node_id @ '' from '' @ cid @ nl) n"

definition cli_put :: "rpc_service \<Rightarrow> 'db rpc_env \<Rightarrow> cli_net \<Rightarrow> string \<Rightarrow> string \<Rightarrow> 'db rpc_state \<Rightarrow> 'db cli_result" where
  "cli_put svc env n cid data s =
     (let (res, s1) = client_put svc env (cn_net n) (cn_err n) cid data 3 s in
      if pr_ok res
      then (0, ''OK version='' @ to_string_u64 (pr_version res) @ '' replicas='' @ dec_of_nat (length (pr_replica_nodes res)) @ nl, Inr s1)
      else (1, [], Inr s1))"

definition cli_get :: "rpc_service \<Rightarrow> 'db rpc_env \<Rightarrow> cli_net \<Rightarrow> (string, string) umap \<Rightarrow> string \<Rightarrow> 'db rpc_state \<Rightarrow> 'db cli_result" where
  "cli_get svc env n node_addrs cid s =
     (let (res, cl1, nodes1) = client_get svc (env_db env) (env_ord env) (cn_net n) (cn_err n) (cn_nets n) cid 0 (st_coord s)
            (\<lparr>nc_node_addrs = node_addrs, nc_stubs = []\<rparr>, st_nodes s);
          s1 = s\<lparr>st_nodes := nodes1\<rparr>
      in if gr_ok res then (0, gr_data res @ nl, Inr s1) else (1, [], Inr s1))"

definition cli_del :: "rpc_service \<Rightarrow> 'db rpc_env \<Rightarrow> cli_net \<Rightarrow> string \<Rightarrow> 'db rpc_state \<Rightarrow> 'db cli_result" where
  "cli_del svc env n cid s =
     (let (ok, coord1) = client_remove svc env (cn_net n) cid (st_coord s); s1 = s\<lparr>st_coord := coord1\<rparr>
      in if ok then (0, ''Deleted '' @ cid @ nl, Inr s1) else (1, [], Inr s1))"

text \<open>\<^verbatim>\<open>main\<close>: \<open>servers\<close> gives the metadata server at an address.\<close>

definition cli_main :: "(string \<Rightarrow> rpc_service) \<Rightarrow> 'db rpc_env \<Rightarrow> cli_net \<Rightarrow> string list \<Rightarrow> 'db rpc_state \<Rightarrow> 'db cli_result" where
  "cli_main servers env n args s =
     (let (meta_addr, node_addrs, rest) = cli_flags ''127.0.0.1:9100'' [] args; svc = servers meta_addr; fail = (1, [], Inr s) in
      case rest of
        [] \<Rightarrow> fail
      | cmd # args1 \<Rightarrow>
          if cmd = ''put''
          then (case args1 of cid # data # _ \<Rightarrow> cli_put svc env n cid data s | _ \<Rightarrow> fail)
          else if cmd = ''get''
          then (case args1 of cid # _ \<Rightarrow> cli_get svc env n node_addrs cid s | _ \<Rightarrow> fail)
          else if cmd = ''del''
          then (case args1 of cid # _ \<Rightarrow> cli_del svc env n cid s | _ \<Rightarrow> fail)
          else if cmd = ''info''
          then (case args1 of cid # _ \<Rightarrow> cmd_info svc env n cid s | _ \<Rightarrow> fail)
          else if cmd = ''add-replica''
          then (case args1 of cid # node_id # _ \<Rightarrow> cmd_add_replica svc env n cid node_id s | _ \<Rightarrow> fail)
          else if cmd = ''remove-replica''
          then (case args1 of cid # node_id # _ \<Rightarrow> cmd_remove_replica svc env n cid node_id s | _ \<Rightarrow> fail)
          else fail)"

section \<open>Reading options\<close>

lemma getline_items_field:
  "CHR '','' \<notin> set x \<Longrightarrow> getline_items cur (x @ CHR '','' # s) = (cur @ x) # getline_items [] s"
  by (induction x arbitrary: cur) auto

lemma getline_items_last: "CHR '','' \<notin> set x \<Longrightarrow> cur @ x \<noteq> [] \<Longrightarrow> getline_items cur x = [cur @ x]"
  by (induction x arbitrary: cur) auto

text \<open>The list of nodes an option gives, written with commas between the items.\<close>

fun nodes_text :: "(string \<times> string) list \<Rightarrow> string" where
  "nodes_text [] = []"
| "nodes_text [(k, v)] = k @ ''='' @ v"
| "nodes_text ((k, v) # kvs) = k @ ''='' @ v @ '','' @ nodes_text kvs"

definition node_item_ok :: "string \<times> string \<Rightarrow> bool" where
  "node_item_ok kv \<longleftrightarrow> CHR ''='' \<notin> set (fst kv) \<and> CHR '','' \<notin> set (fst kv) \<and> CHR '','' \<notin> set (snd kv)"

lemma getline_nodes_text:
  "list_all node_item_ok kvs \<Longrightarrow> getline_items [] (nodes_text kvs) = map (\<lambda>(k, v). k @ ''='' @ v) kvs"
proof (induction kvs rule: nodes_text.induct)
  case (2 k v)
  then show ?case using getline_items_last [of "k @ ''='' @ v" "[]"] by (simp add: node_item_ok_def)
next
  case (3 k v kv kvs)
  then show ?case using getline_items_field [of "k @ ''='' @ v" "[]" "nodes_text (kv # kvs)"] by (simp add: node_item_ok_def)
qed simp

lemma parse_item:
  "CHR ''='' \<notin> set k \<Longrightarrow> find_char CHR ''='' (k @ CHR ''='' # v) = Some (length k)"
  by (rule find_char_append)

section \<open>Properties\<close>

text \<open>The option for node addresses is read back as the map it was written from; a later item wins.\<close>

theorem parse_nodes_text:
  assumes "list_all node_item_ok kvs"
  shows "parse_nodes (nodes_text kvs) = fold (\<lambda>(k, v). um_assign k v) kvs []"
proof -
  let ?f = "\<lambda>item out. case find_char CHR ''='' item of
     None \<Rightarrow> out | Some pos \<Rightarrow> um_assign (take pos item) (drop (pos + 1) item) out"
  have "fold ?f (map (\<lambda>(k, v). k @ ''='' @ v) xs) out = fold (\<lambda>(k, v). um_assign k v) xs out" if "list_all node_item_ok xs" for xs out
    using that by (induction xs arbitrary: out) (auto simp: node_item_ok_def parse_item)
  then show ?thesis using assms getline_nodes_text [OF assms] by (simp add: parse_nodes_def)
qed

text \<open>
  What one invocation of the command-line client puts is what a later one prints: if \<^verbatim>\<open>put\<close> exits
  with status zero into stores that held nothing newer, then \<^verbatim>\<open>get\<close> of that chunk either prints exactly
  those bytes and a newline, with status zero, or prints nothing, with status one; and it is status zero when
  the metadata server answers and in one round more than half of the recorded replicas do.
\<close>

theorem cli_put_get:
  assumes db: "reliable_rocksdb (env_db env)" and ok: "cluster_ok env s" and id: "id_ok cid" "name_ok cid"
    and ver: "version_ok (next_version (st_coord s) cid)"
    and addr: "\<forall>n \<in> set (get_alive_nodes (env_ord env) (st_coord s)). ne_address n \<noteq> []"
    and fresh: "\<forall>a w x. node_has (env_db env) (st_nodes s) a cid w x \<longrightarrow> w < next_version (st_coord s) cid"
    and args1: "cli_flags ''127.0.0.1:9100'' [] args1 = (meta, na1, ''put'' # cid # data # rest1)"
    and args2: "cli_flags ''127.0.0.1:9100'' [] args2 = (meta, na2, ''get'' # cid # rest2)"
    and run1: "cli_main servers env n1 args1 s = (0, out1, Inr s1)"
    and run2: "cli_main servers env n2 args2 s1 = (code, out2, s2)"
  shows "(code = 0 \<and> out2 = data @ nl \<or> code = 1 \<and> out2 = []) \<and>
    (\<exists>e. get_chunk (st_coord s1) cid = Some e \<and>
      (cn_net n2 = Delivered \<and> (\<exists>j < 60. \<exists>reached. subseq reached (ce_replica_set e) \<and>
         length (ce_replica_set e) < 2 * length reached \<and> (\<forall>r \<in> set reached. cn_nets n2 j (resolve_address r []) = Delivered)) \<longrightarrow>
       code = 0))"
proof -
  let ?svc = "servers meta" and ?cl = "\<lparr>nc_node_addrs = na2, nc_stubs = []\<rparr>"
  have rf: "int32 3" by (simp add: int32_def)
  obtain pr sp where put: "client_put ?svc env (cn_net n1) (cn_err n1) cid data 3 s = (pr, sp)" by fastforce
  then have ok1: "pr_ok pr" "sp = s1" using run1 args1 by (auto simp: cli_main_def cli_put_def Let_def split: if_splits)
  obtain gr cl' nodes' where get: "client_get ?svc (env_db env) (env_ord env) (cn_net n2) (cn_err n2) (cn_nets n2) cid 0 (st_coord s1)
      (?cl, st_nodes s1) = (gr, cl', nodes')" by (metis prod_cases3)
  then have res: "code = (if gr_ok gr then 0 else 1)" "out2 = (if gr_ok gr then gr_data gr @ nl else [])"
    using run2 args2 by (auto simp: cli_main_def cli_get_def Let_def split: if_splits)
  have db0: "rocksdb (env_db env)" using db by (simp add: reliable_rocksdb_def)
  have "PutChunk ?svc env cid (word_of_nat (length data)) 3 data s = (Inr (Inr (pr_version pr, pr_replica_nodes pr)), s1)"
    using client_put_ok_run [OF put ok1(1)] ok1(2) by auto
  note c = put_chunk_course [OF db0 ok id ver rf this]
  obtain e where e: "get_chunk (st_coord s1) cid = Some e" "ce_replica_set e = pr_replica_nodes pr" using c by auto
  show ?thesis
  proof (cases "cn_net n2 = Delivered")
    case True
    note g = put_then_get [OF db ok id ver rf addr fresh put ok1(1), of "env_ord env" "cn_err n2" "cn_nets n2" ?cl gr cl' nodes']
    have "gr_ok gr \<longrightarrow> gr_data gr = data" "(\<exists>j < 60. \<exists>reached. subseq reached (ce_replica_set e) \<and>
         length (ce_replica_set e) < 2 * length reached \<and> (\<forall>r \<in> set reached. cn_nets n2 j (resolve_address r []) = Delivered)) \<longrightarrow> gr_ok gr"
      using g get True ok1(2) e(2) by auto
    then show ?thesis using res e(1) by auto
  next
    case False
    then have "\<not> gr_ok gr" using get by (auto simp: client_get_def Let_def)
    then show ?thesis using res e(1) False by auto
  qed
qed

text \<open>Three empty storage nodes.\<close>

definition demo_three :: "mem_db rpc_state" where
  "demo_three = \<lparr>st_coord = \<lparr>chunk_table = [], node_table = map (\<lambda>(i, a). (i, demo_node i a True)) [(''n1'', ''h:1''), (''n2'', ''h:2''), (''n3'', ''h:3'')]\<rparr>,
     st_policy = [], st_nodes = map (\<lambda>a. (a, \<lparr>sn_store = Some [], sn_reporter = new_reporter\<rparr>)) [''h:1'', ''h:2'', ''h:3'']\<rparr>"

lemma demo_three_alive:
  "get_alive_nodes (env_ord (demo_env True)) (st_coord demo_three) = [demo_node ''n1'' ''h:1'' True, demo_node ''n2'' ''h:2'' True, demo_node ''n3'' ''h:3'' True]"
  by (simp add: demo_env_def demo_three_def get_alive_nodes_def um_values_def demo_node_def)

lemma demo_three_ok: "cluster_ok (demo_env True) demo_three"
proof -
  have "store_wf mem_rocksdb []" by (simp add: store_wf_def mem_rocksdb_def)
  then have "peers_wf mem_rocksdb (st_nodes demo_three)" by (auto simp: peers_wf_def demo_three_def split: if_splits)
  moreover have "coord_inv (st_coord demo_three)" by (auto simp: coord_inv_def demo_three_def demo_node_def um_wf_def split: if_splits)
  ultimately show ?thesis using demo_three_alive unfolding cluster_ok_def
    by (auto simp: demo_env_def demo_node_def node_ok_def replica_ok_def) (simp add: demo_three_def)
qed

lemma demo_three_put:
  "\<exists>s' out. cli_main (\<lambda>_. demo_service) (demo_env True) \<lparr>cn_net = Delivered, cn_err = [], cn_nets = (\<lambda>_ _. Delivered)\<rparr> [''put'', ''c'', ''bytes''] demo_three = (0, out, Inr s') \<and>
    (\<forall>e. get_chunk (st_coord s') ''c'' = Some e \<longrightarrow> ce_replica_set e \<noteq> [])"
proof -
  let ?es = "[''n1=h:1'', ''n2=h:2'', ''n3=h:3'']"
  have sel: "put_nodes demo_service (demo_env True) 3 (st_coord demo_three) = [''n1'', ''n2'', ''n3'']"
    using demo_three_alive by (simp add: demo_service_def select_nodes_def cast_int_def) (simp add: demo_env_def demo_node_def)
  obtain ns where lp: "put_loop (demo_env True) (st_coord demo_three) ''c'' 1 ''bytes'' [''n1'', ''n2'', ''n3''] (st_nodes demo_three) =
      (?es, [''h:1'', ''h:2'', ''h:3''], [], ns)"
    by (simp add: demo_env_def demo_three_def demo_node_def get_alive_nodes_def um_values_def encode_replica_target_def
        rpc_replica_address_def write_chunk_to_replica_def WriteChunk_def store_write_def mem_rocksdb_def mem_put_def Let_def)
  have "cmd_ok (Cmd_put ''c'' 5 3 ?es 1)" by (simp add: id_ok_def int32_def replicas_ok_def replica_ok_def)
  from logged_write_cmd [OF this, of "env_outcome (demo_env True)" "env_clk (demo_env True)" "st_coord demo_three"]
  have lw: "logged_write (env_outcome (demo_env True)) (env_clk (demo_env True)) PUT_CHUNK
      (encode_put_payload ''c'' 5 3 1 ?es) (st_coord demo_three) = Inr (True, apply_put_chunk ''c'' 5 3 ?es 1 (st_coord demo_three))"
    by (simp add: demo_env_def)
  have "get_chunk (st_coord demo_three) ''c'' = None" "next_version (st_coord demo_three) ''c'' = 1" "rs_repl demo_service"
      "cast_int (length [''n1'', ''n2'', ''n3'']) = 3"
    by (simp_all add: get_chunk_def next_version_def demo_three_def demo_service_def cast_int_def)
  then have "\<exists>s'. PutChunk demo_service (demo_env True) ''c'' 5 3 ''bytes'' demo_three = (Inr (Inr (1, ?es)), s') \<and>
      st_coord s' = apply_put_chunk ''c'' 5 3 ?es 1 (st_coord demo_three)"
    unfolding PutChunk_def Let_def sel by (simp add: lp lw del: put_loop.simps)
  then show ?thesis by (auto simp: cli_main_def cli_put_def client_put_def starts_with_def Let_def)
qed

theorem cli_put_get_witness:
  "\<exists>s1 out1 s2. cli_main (\<lambda>_. demo_service) (demo_env True) \<lparr>cn_net = Delivered, cn_err = [], cn_nets = (\<lambda>_ _. Delivered)\<rparr>
       [''put'', ''c'', ''bytes''] demo_three = (0, out1, Inr s1) \<and>
     cli_main (\<lambda>_. demo_service) (demo_env True) \<lparr>cn_net = Delivered, cn_err = [], cn_nets = (\<lambda>_ _. Delivered)\<rparr>
       [''--nodes=n1=h:1'', ''get'', ''c''] s1 = (0, ''bytes'' @ nl, s2)"
proof -
  let ?n = "\<lparr>cn_net = Delivered, cn_err = [], cn_nets = (\<lambda>_ _. Delivered)\<rparr>"
  obtain s1 out1 where run1: "cli_main (\<lambda>_. demo_service) (demo_env True) ?n [''put'', ''c'', ''bytes''] demo_three = (0, out1, Inr s1)"
      and ne: "\<forall>e. get_chunk (st_coord s1) ''c'' = Some e \<longrightarrow> ce_replica_set e \<noteq> []"
    using demo_three_put by blast
  obtain code out2 s2 where run2: "cli_main (\<lambda>_. demo_service) (demo_env True) ?n [''--nodes=n1=h:1'', ''get'', ''c''] s1 = (code, out2, s2)"
    by (metis prod_cases3)
  have db: "reliable_rocksdb (env_db (demo_env True))" using mem.reliable_rocksdb_axioms by (simp add: demo_env_def)
  have v: "next_version (st_coord demo_three) ''c'' = 1" by (simp add: next_version_def demo_three_def)
  have fresh: "\<forall>a w x. node_has (env_db (demo_env True)) (st_nodes demo_three) a ''c'' w x \<longrightarrow> w < next_version (st_coord demo_three) ''c''"
    by (auto simp: node_has_def demo_env_def demo_three_def store_abs_def mem_rocksdb_def split: if_splits)
  have addr: "\<forall>n \<in> set (get_alive_nodes (env_ord (demo_env True)) (st_coord demo_three)). ne_address n \<noteq> []"
    unfolding demo_three_alive by (simp add: demo_node_def)
  have flags: "cli_flags ''127.0.0.1:9100'' [] [''put'', ''c'', ''bytes''] = (''127.0.0.1:9100'', [], [''put'', ''c'', ''bytes''])"
      "cli_flags ''127.0.0.1:9100'' [] [''--nodes=n1=h:1'', ''get'', ''c''] = (''127.0.0.1:9100'', [(''n1'', ''h:1'')], [''get'', ''c''])"
    by (simp_all add: starts_with_def parse_nodes_def)
  have h: "id_ok ''c''" "name_ok ''c''" "version_ok (next_version (st_coord demo_three) ''c'')"
    by (simp_all add: id_ok_def name_ok_def v version_ok_def)
  note p = cli_put_get [OF db demo_three_ok h addr fresh flags run1 run2]
  then obtain e where e: "get_chunk (st_coord s1) ''c'' = Some e"
      "(\<exists>j < 60 :: nat. \<exists>reached. subseq reached (ce_replica_set e) \<and> length (ce_replica_set e) < 2 * length reached) \<longrightarrow> code = 0"
    by (auto intro: exI [of _ 0])
  have "length (ce_replica_set e) < 2 * length (ce_replica_set e)" using ne e(1) by simp
  then have "code = 0" using e(2) by (auto intro: exI [of _ 0])
  then show ?thesis using run1 run2 p by auto
qed

end
