(* ===== verification/History_Tracer.thy ===== *)
theory History_Tracer
  imports Cxx_Float
begin

text \<open>
  The operation log of a benchmark client, \<^verbatim>\<open>src/client/history_tracer.{h,cpp}\<close>: the CSV file
  and the summary statistics, with the percentile index computed in double precision. The lemmas bound
  the rounding of that index and show that the reported percentiles are percentiles.
\<close>

section \<open>Records and the CSV file\<close>

datatype op_type = PUT | GET | DELETE

record op_record =
  or_type :: op_type
  or_chunk_id :: string
  or_start_us :: u64
  or_latency_us :: u64
  or_ok :: bool
  or_bytes :: u64
  or_tier :: string

text \<open>\<open>tr_file\<close> is the text written so far, or \<open>None\<close> when the file could not be opened.\<close>

record history_tracer =
  tr_file :: "string option"
  tr_records :: "op_record list"

fun op_to_str :: "op_type \<Rightarrow> string" where
  "op_to_str PUT = ''PUT''"
| "op_to_str GET = ''GET''"
| "op_to_str DELETE = ''DELETE''"

definition new_tracer :: "bool \<Rightarrow> history_tracer" where
  "new_tracer opened = \<lparr>tr_file = (if opened then Some (''timestamp_us,op_type,chunk_id,latency_us,ok,bytes,tier'' @ [CHR 0x0A]) else None),
     tr_records = []\<rparr>"

definition csv_row :: "op_record \<Rightarrow> string" where
  "csv_row r = to_string_u64 (or_start_us r) @ '','' @ op_to_str (or_type r) @ '','' @ or_chunk_id r @ '','' @
     to_string_u64 (or_latency_us r) @ '','' @ (if or_ok r then ''1'' else ''0'') @ '','' @
     to_string_u64 (or_bytes r) @ '','' @ or_tier r"

definition record_op :: "op_record \<Rightarrow> history_tracer \<Rightarrow> history_tracer" where
  "record_op r tr = tr\<lparr>tr_file := map_option (\<lambda>t. t @ csv_row r @ [CHR 0x0A]) (tr_file tr), tr_records := tr_records tr @ [r]\<rparr>"

definition record_tier_change :: "string \<Rightarrow> string \<Rightarrow> string \<Rightarrow> u64 \<Rightarrow> history_tracer \<Rightarrow> history_tracer" where
  "record_tier_change chunk_id from_tier to_tier ts_us tr =
     tr\<lparr>tr_file := map_option (\<lambda>t. t @ to_string_u64 ts_us @ '',TIER_CHANGE,'' @ chunk_id @ '',0,1,0,'' @ from_tier @ ''->'' @
       to_tier @ [CHR 0x0A]) (tr_file tr)\<rparr>"

section \<open>Statistics\<close>

record summary_stats =
  ss_total_ops :: nat
  ss_errors :: nat
  ss_throughput_ops_per_s :: float64
  ss_p50_us :: u64
  ss_p95_us :: u64
  ss_p99_us :: u64
  ss_put_mb_per_s :: float64
  ss_get_mb_per_s :: float64
  ss_put_ops_per_s :: float64
  ss_get_ops_per_s :: float64

definition empty_stats :: summary_stats where
  "empty_stats = \<lparr>ss_total_ops = 0, ss_errors = 0, ss_throughput_ops_per_s = 0, ss_p50_us = 0, ss_p95_us = 0, ss_p99_us = 0,
     ss_put_mb_per_s = 0, ss_get_mb_per_s = 0, ss_put_ops_per_s = 0, ss_get_ops_per_s = 0\<rparr>"

text \<open>The local variables of the loop; the sums and the end times are 64-bit and wrap around.\<close>

record stats_acc =
  sa_errors :: nat
  sa_earliest :: u64
  sa_latest_end :: u64
  sa_bytes_put :: u64
  sa_bytes_get :: u64
  sa_ops_put :: nat
  sa_ops_get :: nat

definition stats_step :: "op_record \<Rightarrow> stats_acc \<Rightarrow> stats_acc" where
  "stats_step r a =
     (let end_us = or_start_us r + or_latency_us r in
      a\<lparr>sa_errors := (if or_ok r then sa_errors a else sa_errors a + 1),
        sa_earliest := (if sa_earliest a = 0 \<or> or_start_us r < sa_earliest a then or_start_us r else sa_earliest a),
        sa_latest_end := (if sa_latest_end a < end_us then end_us else sa_latest_end a),
        sa_bytes_put := (if or_type r = PUT then sa_bytes_put a + or_bytes r else sa_bytes_put a),
        sa_bytes_get := (if or_type r = GET then sa_bytes_get a + or_bytes r else sa_bytes_get a),
        sa_ops_put := (if or_type r = PUT then sa_ops_put a + 1 else sa_ops_put a),
        sa_ops_get := (if or_type r = GET then sa_ops_get a + 1 else sa_ops_get a)\<rparr>)"

definition duration_s :: "u64 \<Rightarrow> u64 \<Rightarrow> float64" where
  "duration_s earliest latest_end = (if earliest \<noteq> 0 \<and> earliest < latest_end
     then max 1 (fl64 (double_of_u64 (latest_end - earliest) / 1000000)) else 1)"

definition pct_index :: "rat \<Rightarrow> nat \<Rightarrow> nat" where
  "pct_index p n = (let idx = nat \<lceil>fl64 (fl64 (p / 100) * fl64 (of_nat n))\<rceil>;
       idx1 = (if idx = 0 then 1 else idx)
     in if n < idx1 then n else idx1)"

definition pct :: "u64 list \<Rightarrow> rat \<Rightarrow> u64" where
  "pct lat p = (if lat = [] then 0 else lat ! (pct_index p (length lat) - 1))"

definition get_stats :: "history_tracer \<Rightarrow> summary_stats" where
  "get_stats tr =
     (let copy = tr_records tr in
      if copy = [] then empty_stats
      else let a = fold stats_step copy \<lparr>sa_errors = 0, sa_earliest = 0, sa_latest_end = 0, sa_bytes_put = 0, sa_bytes_get = 0,
                     sa_ops_put = 0, sa_ops_get = 0\<rparr>;
               lat = sort (map or_latency_us copy);
               dur_s = duration_s (sa_earliest a) (sa_latest_end a);
               mb = 1024 * 1024
           in \<lparr>ss_total_ops = length copy, ss_errors = sa_errors a,
               ss_throughput_ops_per_s = fl64 (fl64 (of_nat (length copy)) / dur_s),
               ss_p50_us = pct lat 50, ss_p95_us = pct lat 95, ss_p99_us = pct lat 99,
               ss_put_mb_per_s = fl64 (fl64 (double_of_u64 (sa_bytes_put a) / mb) / dur_s),
               ss_get_mb_per_s = fl64 (fl64 (double_of_u64 (sa_bytes_get a) / mb) / dur_s),
               ss_put_ops_per_s = fl64 (fl64 (of_nat (sa_ops_put a)) / dur_s),
               ss_get_ops_per_s = fl64 (fl64 (of_nat (sa_ops_get a)) / dur_s)\<rparr>)"

section \<open>The summary\<close>

text \<open>A stream's \<^verbatim>\<open>std::fixed\<close> with a precision, on a finite double.\<close>

definition pad_zeros :: "nat \<Rightarrow> nat \<Rightarrow> string" where
  "pad_zeros w m = replicate (w - length (dec_of_nat m)) CHR ''0'' @ dec_of_nat m"

definition fixed_text :: "nat \<Rightarrow> float64 \<Rightarrow> string" where
  "fixed_text p x = (let n = nat (round_half_even (\<bar>x\<bar> * 10 ^ p)) in
     (if x < 0 then ''-'' else []) @ dec_of_nat (n div 10 ^ p) @ (if p = 0 then [] else ''.'' @ pad_zeros p (n mod 10 ^ p)))"

definition summary_text :: "summary_stats \<Rightarrow> string" where
  "summary_text s =
     (let nl = [CHR 0x0A];
          err_rate = (if ss_total_ops s \<noteq> 0 then fl64 (fl64 (fl64 (of_nat (ss_errors s)) / fl64 (of_nat (ss_total_ops s))) * 100) else 0)
      in ''----- HistoryTracer Summary -----'' @ nl @
         ''Total ops: '' @ dec_of_nat (ss_total_ops s) @ ''  Errors: '' @ dec_of_nat (ss_errors s) @
           '' ('' @ fixed_text 2 err_rate @ ''% )'' @ nl @
         ''Throughput: ops/sec='' @ fixed_text 2 (ss_throughput_ops_per_s s) @ ''  PUT ops/sec='' @ fixed_text 2 (ss_put_ops_per_s s) @
           ''  GET ops/sec='' @ fixed_text 2 (ss_get_ops_per_s s) @ nl @
         ''Bandwidth: PUT MB/s='' @ fixed_text 3 (ss_put_mb_per_s s) @ ''  GET MB/s='' @ fixed_text 3 (ss_get_mb_per_s s) @ nl @
         ''Latency (us): p50='' @ to_string_u64 (ss_p50_us s) @ ''  p95='' @ to_string_u64 (ss_p95_us s) @
           ''  p99='' @ to_string_u64 (ss_p99_us s) @ nl @
         ''---------------------------------'' @ nl)"

definition print_summary :: "history_tracer \<Rightarrow> string" where
  "print_summary tr = summary_text (get_stats tr)"

section \<open>What is printed\<close>

lemma pad_zeros_digits: "c \<in> set (pad_zeros w m) \<Longrightarrow> is_digit c"
  by (auto simp: pad_zeros_def is_digit_def dest: dec_of_nat_digits split: if_splits)

lemma length_pad_zeros: "m < 10 ^ w \<Longrightarrow> 0 < w \<Longrightarrow> length (pad_zeros w m) = w"
  using length_dec_of_nat [of m "w - 1"] by (simp add: pad_zeros_def)

lemma scan_fixed:
  assumes m: "m < 10 ^ p" and p: "0 < p"
  shows "scan_unsigned (dec_of_nat k @ ''.'' @ pad_zeros p m) = Some (of_nat k + of_nat m / 10 ^ p)"
    and "scan_decimal (dec_of_nat k @ ''.'' @ pad_zeros p m) = Some (of_nat k + of_nat m / 10 ^ p)"
proof -
  let ?s = "dec_of_nat k @ ''.'' @ pad_zeros p m"
  have nd: "\<not> is_digit CHR ''.''" by (simp add: is_digit_def)
  have ip: "takeWhile is_digit ?s = dec_of_nat k" and s3: "dropWhile is_digit ?s = ''.'' @ pad_zeros p m"
    using takeWhile_dropWhile_digits [of "dec_of_nat k" "''.'' @ pad_zeros p m"] dec_of_nat_digits [of _ k] nd by auto
  have fp: "takeWhile is_digit (pad_zeros p m) = pad_zeros p m" and s4: "dropWhile is_digit (pad_zeros p m) = []"
    using takeWhile_dropWhile_digits [of "pad_zeros p m" "[]"] pad_zeros_digits [of _ p m] by auto
  have val: "digits_val (pad_zeros p m) = m" by (simp add: pad_zeros_def digits_val_append)
  show u: "scan_unsigned ?s = Some (of_nat k + of_nat m / 10 ^ p)"
    unfolding scan_unsigned_def Let_def ip s3 using assms by (simp add: fp s4 length_pad_zeros scan_exponent_def pow10_def val)
  obtain c r where s: "dec_of_nat k = c # r" by (cases "dec_of_nat k") auto
  then have c: "is_digit c" using dec_of_nat_digits [of c k] by simp
  then have dw: "dropWhile is_space ?s = ?s" and hd: "hd ?s \<noteq> CHR ''-''" "hd ?s \<noteq> CHR ''+''"
    using s digit_not_space [OF c] by simp_all
  show "scan_decimal ?s = Some (of_nat k + of_nat m / 10 ^ p)" unfolding scan_decimal_def Let_def dw using hd u by simp
qed

text \<open>A number printed with \<open>p\<close> decimals is off by at most half a unit of the last one.\<close>

lemma fixed_text_accuracy:
  assumes p: "0 < p" and x: "0 \<le> x"
  shows "\<exists>v. scan_decimal (fixed_text p x) = Some v \<and> \<bar>v - x\<bar> \<le> 1 / (2 * 10 ^ p)"
proof -
  define n where "n = nat (round_half_even (x * 10 ^ p))"
  have n: "of_nat n = (of_int (round_half_even (x * 10 ^ p)) :: rat)"
    using round_half_even_nonneg [of "x * 10 ^ p"] x by (simp add: n_def)
  have "fixed_text p x = dec_of_nat (n div 10 ^ p) @ ''.'' @ pad_zeros p (n mod 10 ^ p)"
    using p x by (simp add: fixed_text_def Let_def n_def)
  then have scan: "scan_decimal (fixed_text p x) = Some (of_nat (n div 10 ^ p) + of_nat (n mod 10 ^ p) / 10 ^ p)"
    using scan_fixed(2) [of "n mod 10 ^ p" p "n div 10 ^ p"] p by simp
  have "(of_nat n :: rat) = of_nat (n div 10 ^ p * 10 ^ p + n mod 10 ^ p)" by (simp only: div_mult_mod_eq)
  also have "\<dots> = of_nat (n div 10 ^ p) * 10 ^ p + of_nat (n mod 10 ^ p)" by (simp only: of_nat_add of_nat_mult of_nat_power of_nat_numeral)
  finally have sum: "of_nat (n div 10 ^ p) + of_nat (n mod 10 ^ p) / 10 ^ p = (of_nat n :: rat) / 10 ^ p" by (simp add: field_simps)
  have "of_nat n / 10 ^ p - x = (of_int (round_half_even (x * 10 ^ p)) - x * 10 ^ p) / (10 ^ p :: rat)" by (simp add: n field_simps)
  then have "\<bar>of_nat n / 10 ^ p - x\<bar> = \<bar>of_int (round_half_even (x * 10 ^ p)) - x * 10 ^ p\<bar> / (10 ^ p :: rat)" by simp
  also have "\<dots> \<le> (1 / 2) / 10 ^ p" by (rule divide_right_mono [OF round_half_even_error]) simp
  finally show ?thesis using scan sum by simp
qed

section \<open>The percentile index\<close>

lemma fl64_of_nat_close:
  assumes "0 < n"
  shows "\<bar>fl64 (of_nat n) - of_nat n\<bar> \<le> of_nat n / 2 ^ 53"
proof -
  have "(1 :: rat) \<le> of_nat n" using assms by (simp add: Suc_le_eq)
  moreover have "pow2 (- 1022) \<le> 1" by (simp add: pow2_def)
  ultimately have "pow2 (- 1022) \<le> \<bar>of_nat n :: rat\<bar>" by simp
  from fl64_error [OF this] show ?thesis by simp
qed

text \<open>Three roundings change the product by less than one part in \<open>2 ^ 50\<close>.\<close>

lemma pct_product:
  assumes p: "1 \<le> p" "p \<le> 100" and n: "0 < n"
  shows "p / 100 * of_nat n * (1 - 1 / 2 ^ 50) \<le> fl64 (fl64 (p / 100) * fl64 (of_nat n))" (is ?lower)
    and "fl64 (fl64 (p / 100) * fl64 (of_nat n)) \<le> p / 100 * of_nat n * (1 + 1 / 2 ^ 50)" (is ?upper)
proof -
  define e :: rat where "e = 1 / 2 ^ 53"
  define x y z where "x = p / 100" and "y = (of_nat n :: rat)" and "z = fl64 x * fl64 y"
  have small: "pow2 (- 1022) \<le> 1 / 400" by (simp add: pow2_def)
  have x: "1 / 100 \<le> x" "x \<le> 1" using p by (simp_all add: x_def)
  have y: "1 \<le> y" using n by (simp add: y_def Suc_le_eq)
  have e: "0 < e" "e < 1 / 1000" by (simp_all add: e_def)
  have fx: "\<bar>fl64 x - x\<bar> \<le> e * x" using fl64_error [of x] x small by (simp add: e_def)
  have fy: "\<bar>fl64 y - y\<bar> \<le> e * y" using fl64_of_nat_close [OF n] by (simp add: y_def e_def)
  have xb: "x * (1 - e) \<le> fl64 x" "fl64 x \<le> x * (1 + e)" using fx by (auto simp: abs_le_iff algebra_simps)
  have yb: "y * (1 - e) \<le> fl64 y" "fl64 y \<le> y * (1 + e)" using fy by (auto simp: abs_le_iff algebra_simps)
  have pos: "0 \<le> x * (1 - e)" "0 \<le> y * (1 - e)" using x y e by simp_all
  have zl: "x * (1 - e) * (y * (1 - e)) \<le> z" unfolding z_def using xb(1) yb(1) pos by (intro mult_mono) auto
  have zu: "z \<le> x * (1 + e) * (y * (1 + e))" unfolding z_def using xb yb pos x e by (intro mult_mono) auto
  define w where "w = x * y"
  have w: "1 / 100 \<le> w" using mult_mono [OF x(1) y] x y by (simp add: w_def)
  have zb: "w * ((1 - e) * (1 - e)) \<le> z" "z \<le> w * ((1 + e) * (1 + e))" using zl zu by (simp_all add: w_def mult_ac)
  have "w * (1 / 2) \<le> w * ((1 - e) * (1 - e))"
    using w by (intro mult_left_mono) (auto simp: e_def)
  then have "1 / 400 \<le> \<bar>z\<bar>" using zb(1) w by linarith
  then have fz: "\<bar>fl64 z - z\<bar> \<le> e * \<bar>z\<bar>" using fl64_error [of z] small by (simp add: e_def)
  have z0: "0 \<le> z" using zb(1) w \<open>w * (1 / 2) \<le> w * ((1 - e) * (1 - e))\<close> by linarith
  have up: "fl64 z \<le> z * (1 + e)" and low: "z * (1 - e) \<le> fl64 z" using fz z0 by (auto simp: abs_le_iff algebra_simps)
  have "w * (1 - 1 / 2 ^ 50) \<le> w * ((1 - e) * (1 - e) * (1 - e))" using w by (intro mult_left_mono) (auto simp: e_def)
  also have "\<dots> = w * ((1 - e) * (1 - e)) * (1 - e)" by (simp only: mult.assoc)
  also have "\<dots> \<le> z * (1 - e)" using zb(1) e by (intro mult_right_mono) auto
  also have "\<dots> \<le> fl64 z" by (rule low)
  finally show ?lower by (simp add: z_def w_def x_def y_def)
  note up
  also have "z * (1 + e) \<le> w * ((1 + e) * (1 + e)) * (1 + e)" using zb(2) e by (intro mult_right_mono) auto
  also have "\<dots> = w * ((1 + e) * (1 + e) * (1 + e))" by (simp only: mult.assoc)
  also have "\<dots> \<le> w * (1 + 1 / 2 ^ 50)" using w by (intro mult_left_mono) (auto simp: e_def)
  finally show ?upper by (simp add: z_def w_def x_def y_def)
qed

lemma clamp_index:
  "(let idx = i; idx1 = (if idx = 0 then 1 else idx) in if n < idx1 then n else idx1) = min n (max 1 (i :: nat))"
  by (auto simp: Let_def)

lemmas pct_index_clamped = pct_index_def [unfolded clamp_index]

lemma pct_index_bounds: "0 < n \<Longrightarrow> 1 \<le> pct_index p n \<and> pct_index p n \<le> n"
  unfolding pct_index_clamped by simp

text \<open>The index reaches the exact rank, for up to \<open>2 ^ 40\<close> records.\<close>

lemma pct_index_rank:
  assumes p: "1 \<le> p" "p \<le> 100" and n: "0 < n" "n < 2 ^ 40"
  shows "p * n \<le> 100 * pct_index (of_nat p) n"
proof -
  define f where "f = fl64 (fl64 (of_nat p / 100) * fl64 (of_nat n))"
  have "(of_nat n :: rat) < of_nat (2 ^ 40)" using n(2) by (simp only: of_nat_less_iff)
  then have n': "(of_nat n :: rat) < 2 ^ 40" by simp
  have p': "(1 :: rat) \<le> of_nat p" "(of_nat p :: rat) \<le> 100" using p by simp_all
  define x :: rat where "x = of_nat p / 100 * of_nat n"
  have "x \<le> 1 * 2 ^ 40" unfolding x_def using p' n' by (intro mult_mono) auto
  then have "x - 1 / 1024 \<le> x * (1 - 1 / 2 ^ 50)" by (simp add: right_diff_distrib)
  then have "x - 1 / 1024 \<le> f" using pct_product(1) [OF p' n(1)] unfolding f_def x_def by linarith
  moreover have "f \<le> of_int \<lceil>f\<rceil>" by (rule le_of_int_ceiling)
  ultimately have "x - 1 / 1024 \<le> of_int \<lceil>f\<rceil>" by linarith
  then have "(of_int (int (p * n) - 1) :: rat) < of_int (100 * \<lceil>f\<rceil>)" by (simp add: x_def)
  then have "int (p * n) - 1 < 100 * \<lceil>f\<rceil>" by (simp only: of_int_less_iff)
  then have c: "p * n \<le> 100 * nat \<lceil>f\<rceil>" by linarith
  have "p * n \<le> 100 * n" using p(2) by simp
  then show ?thesis using c unfolding pct_index_clamped f_def [symmetric] by (auto simp: min_def max_def)
qed

lemma pct_index_mono:
  assumes p: "1 \<le> p" "p + 1 \<le> q" "q \<le> 100" and n: "0 < n"
  shows "pct_index p n \<le> pct_index q n"
proof -
  define w where "w = (of_nat n :: rat) / 100"
  have w: "0 < w" using n by (simp add: w_def)
  have "p * w * (1 + 1 / 2 ^ 50) \<le> (p + 1) * w * (1 - 1 / 2 ^ 50)"
  proof -
    have "p * (1 + 1 / 2 ^ 50) \<le> (p + 1) * (1 - 1 / 2 ^ 50)" using p by simp
    then show ?thesis using mult_right_mono [of _ _ w] w by (simp add: mult_ac)
  qed
  moreover have "(p + 1) * w * (1 - 1 / 2 ^ 50) \<le> q * w * (1 - 1 / 2 ^ 50)" using p(2) w by (intro mult_right_mono) auto
  moreover have "fl64 (fl64 (p / 100) * fl64 (of_nat n)) \<le> p * w * (1 + 1 / 2 ^ 50)"
    using pct_product(2) [of p n] p n by (simp add: w_def)
  moreover have "q * w * (1 - 1 / 2 ^ 50) \<le> fl64 (fl64 (q / 100) * fl64 (of_nat n))"
    using pct_product(1) [of q n] p n by (simp add: w_def)
  ultimately have "fl64 (fl64 (p / 100) * fl64 (of_nat n)) \<le> fl64 (fl64 (q / 100) * fl64 (of_nat n))" by linarith
  then have "nat \<lceil>fl64 (fl64 (p / 100) * fl64 (of_nat n))\<rceil> \<le> nat \<lceil>fl64 (fl64 (q / 100) * fl64 (of_nat n))\<rceil>"
    by (intro nat_mono ceiling_mono)
  then show ?thesis unfolding pct_index_clamped by (intro min.mono max.mono order.refl)
qed

section \<open>Ranks in a sorted list\<close>

lemma filter_length_sort: "length (filter P (sort xs)) = length (filter P xs)"
proof -
  have "mset (filter P (sort xs)) = mset (filter P xs)" by simp
  then show ?thesis by (metis size_mset)
qed

lemma sort_nonempty: "xs \<noteq> [] \<Longrightarrow> sort xs \<noteq> []"
  by (metis length_0_conv length_sort)

lemma sorted_rank:
  assumes "sorted ys" and "k < length ys"
  shows "Suc k \<le> length (filter (\<lambda>y. y \<le> ys ! k) ys)"
proof -
  have "\<forall>y \<in> set (take (Suc k) ys). y \<le> ys ! k"
    using assms(2) sorted_nth_mono [OF assms(1)] by (auto simp: in_set_conv_nth less_Suc_eq_le)
  then have "filter (\<lambda>y. y \<le> ys ! k) (take (Suc k) ys) = take (Suc k) ys" by (rule filter_True)
  moreover have "length (filter (\<lambda>y. y \<le> ys ! k) (take (Suc k) ys @ drop (Suc k) ys)) =
      length (filter (\<lambda>y. y \<le> ys ! k) (take (Suc k) ys)) + length (filter (\<lambda>y. y \<le> ys ! k) (drop (Suc k) ys))"
    by (simp only: filter_append length_append)
  ultimately show ?thesis using assms(2) by simp
qed

lemma pct_sorted:
  assumes lat: "xs \<noteq> []" and n: "length xs < 2 ^ 40" and p: "1 \<le> p" "p \<le> 100"
  shows "pct (sort xs) (of_nat p) \<in> set xs \<and>
    p * length xs \<le> 100 * length (filter (\<lambda>l. l \<le> pct (sort xs) (of_nat p)) xs)"
proof -
  define i where "i = pct_index (of_nat p) (length xs)"
  have pos: "0 < length xs" using lat by simp
  have i: "1 \<le> i" "i \<le> length xs" using pct_index_bounds [OF pos] by (simp_all add: i_def)
  then have k: "i - 1 < length (sort xs)" using pos by simp
  have v: "pct (sort xs) (of_nat p) = sort xs ! (i - 1)" using sort_nonempty [OF lat] by (simp add: pct_def i_def)
  have "sort xs ! (i - 1) \<in> set xs" using nth_mem [OF k] by simp
  moreover have "i \<le> length (filter (\<lambda>l. l \<le> sort xs ! (i - 1)) xs)"
    using sorted_rank [OF sorted_sort k] i(1) by (simp add: filter_length_sort)
  moreover have "p * length xs \<le> 100 * i" using pct_index_rank [OF p pos n] by (simp add: i_def)
  ultimately show ?thesis using v by simp
qed

lemma pct_mono:
  assumes "xs \<noteq> []" and "1 \<le> p" "p + 1 \<le> q" "q \<le> 100"
  shows "pct (sort xs) p \<le> pct (sort xs) q"
proof -
  have pos: "0 < length xs" using assms(1) by simp
  have "pct_index p (length xs) - 1 \<le> pct_index q (length xs) - 1" using pct_index_mono [OF assms(2-4) pos] by simp
  moreover have "pct_index q (length xs) - 1 < length (sort xs)" using pct_index_bounds [OF pos, of q] pos by simp linarith
  ultimately show ?thesis using sort_nonempty [OF assms(1)] by (simp add: pct_def sorted_nth_mono)
qed

lemma stats_errors: "sa_errors (fold stats_step rs a) = sa_errors a + length (filter (\<lambda>r. \<not> or_ok r) rs)"
  by (induction rs arbitrary: a) (simp_all add: stats_step_def Let_def)

section \<open>Properties\<close>

text \<open>A row of the file can be split at the commas into the fields of its record.\<close>

theorem csv_row_fields:
  assumes "CHR '','' \<notin> set (or_chunk_id r)" and "CHR '','' \<notin> set (or_tier r)" and "or_tier r \<noteq> []"
  shows "split_all (csv_row r) CHR '','' = [to_string_u64 (or_start_us r), op_to_str (or_type r), or_chunk_id r,
    to_string_u64 (or_latency_us r), if or_ok r then ''1'' else ''0'', to_string_u64 (or_bytes r), or_tier r]"
proof -
  have op: "CHR '','' \<notin> set (op_to_str (or_type r))" by (cases "or_type r") simp_all
  have num: "CHR '','' \<notin> set (to_string_u64 w)" for w using to_string_u64_digits [of "CHR '',''" w] by (auto simp: is_digit_def)
  show ?thesis
    using assms split_all_field [of "CHR '',''" "''1''"] split_all_field [of "CHR '',''" "''0''"]
    by (simp add: csv_row_def split_all_field split_all_last op num)
qed

text \<open>
  C31. The summary counts every record and every failure, and its percentiles are percentiles, in spite of
  the rounding of the index in double precision: each is a recorded latency, they are in order, and at
  least half, 95 percent and 99 percent of the operations took no longer.
\<close>

theorem summary_percentiles:
  assumes "tr_records tr \<noteq> []" and "length (tr_records tr) < 2 ^ 40"
  shows "let s = get_stats tr; lat = map or_latency_us (tr_records tr) in
    ss_total_ops s = length lat \<and> ss_errors s = length (filter (\<lambda>r. \<not> or_ok r) (tr_records tr)) \<and>
    ss_p50_us s \<le> ss_p95_us s \<and> ss_p95_us s \<le> ss_p99_us s \<and> {ss_p50_us s, ss_p95_us s, ss_p99_us s} \<subseteq> set lat \<and>
    50 * length lat \<le> 100 * length (filter (\<lambda>l. l \<le> ss_p50_us s) lat) \<and>
    95 * length lat \<le> 100 * length (filter (\<lambda>l. l \<le> ss_p95_us s) lat) \<and>
    99 * length lat \<le> 100 * length (filter (\<lambda>l. l \<le> ss_p99_us s) lat)"
proof -
  define lat where "lat = map or_latency_us (tr_records tr)"
  define s where "s = get_stats tr"
  have lat: "lat \<noteq> []" "length lat < 2 ^ 40" using assms by (simp_all add: lat_def)
  have f: "ss_p50_us s = pct (sort lat) 50" "ss_p95_us s = pct (sort lat) 95" "ss_p99_us s = pct (sort lat) 99"
      "ss_total_ops s = length lat" "ss_errors s = length (filter (\<lambda>r. \<not> or_ok r) (tr_records tr))"
    using assms(1) by (simp_all add: s_def get_stats_def Let_def lat_def stats_errors)
  have "pct (sort lat) 50 \<le> pct (sort lat) 95" "pct (sort lat) 95 \<le> pct (sort lat) 99"
    using lat(1) by (auto intro: pct_mono)
  then show ?thesis
    using pct_sorted [OF lat, of 50] pct_sorted [OF lat, of 95] pct_sorted [OF lat, of 99]
    unfolding Let_def s_def [symmetric] lat_def [symmetric] f by simp
qed

theorem summary_percentiles_witness:
  "let s = get_stats (record_op \<lparr>or_type = GET, or_chunk_id = ''c'', or_start_us = 5, or_latency_us = 9, or_ok = True,
       or_bytes = 1, or_tier = ''hot''\<rparr> (new_tracer True)) in
   ss_total_ops s = 1 \<and> ss_errors s = 0 \<and> ss_p50_us s = 9 \<and> ss_p95_us s = 9 \<and> ss_p99_us s = 9"
  using summary_percentiles [of "record_op \<lparr>or_type = GET, or_chunk_id = ''c'', or_start_us = 5, or_latency_us = 9, or_ok = True,
       or_bytes = 1, or_tier = ''hot''\<rparr> (new_tracer True)"]
  by (simp add: record_op_def new_tracer_def Let_def)

end
