(* ===== verification/Workload_Gen.thy ===== *)
theory Workload_Gen
  imports Nimbus_Client History_Tracer "HOL-Library.Signed_Division"
begin

text \<open>
  The benchmark client, \<^verbatim>\<open>src/workload/workload_gen.{h,cpp}\<close>: the set of chunks and its hot
  part, the choice of a chunk under the three distributions, the operations of a worker thread on the
  client library with their trace, and the division of the operations among the threads. Random draws,
  clock readings and \<^verbatim>\<open>std::pow\<close> are arguments. The lemmas say exactly when the choice of a chunk
  stays inside the list.
\<close>

section \<open>The generator\<close>

record workload_config =
  wc_num_chunks :: int
  wc_num_ops :: int
  wc_chunk_size_kb :: int
  wc_write_ratio :: float64
  wc_hot_fraction :: float64
  wc_hot_read_weight :: float64
  wc_threads :: int
  wc_meta_addr :: string
  wc_node_addrs :: "(string, string) umap"
  wc_mode :: string
  wc_desired_rf :: int
  wc_distribution :: string
  wc_zipf_theta :: float64

definition default_workload_config :: workload_config where
  "default_workload_config = \<lparr>wc_num_chunks = 100, wc_num_ops = 10000, wc_chunk_size_kb = 4, wc_write_ratio = fl64 (3 / 10),
     wc_hot_fraction = fl64 (1 / 10), wc_hot_read_weight = fl64 (8 / 10), wc_threads = 4, wc_meta_addr = ''127.0.0.1:9100'',
     wc_node_addrs = [], wc_mode = ''adaptive'', wc_desired_rf = 3, wc_distribution = ''hot_cold'', wc_zipf_theta = fl64 (99 / 100)\<rparr>"

record workload_gen =
  wg_cfg :: workload_config
  wg_hot_count :: int
  wg_cold_count :: int
  wg_zipf_H :: float64
  wg_chunk_ids :: "string list"

definition clamp_fraction :: "float64 \<Rightarrow> float64" where
  "clamp_fraction f = (let f1 = (if f < 0 then 0 else f) in if 1 < f1 then 1 else f1)"

text \<open>\<^verbatim>\<open>static_cast<int>\<close> of a double in the range of the type.\<close>

definition int_of_double :: "float64 \<Rightarrow> int" where
  "int_of_double x = (if 0 \<le> x then \<lfloor>x\<rfloor> else \<lceil>x\<rceil>)"

definition zipf_sum :: "(float64 \<Rightarrow> float64 \<Rightarrow> float64) \<Rightarrow> int \<Rightarrow> float64 \<Rightarrow> float64" where
  "zipf_sum pow_fn N theta = fold (\<lambda>i h. fl64 (h + fl64 (1 / pow_fn (of_int i) theta))) [1..N] 0"

text \<open>The constructor; \<^verbatim>\<open>reserve\<close> refuses a negative number, which it takes as a huge one.\<close>

definition new_workload_gen :: "(float64 \<Rightarrow> float64 \<Rightarrow> float64) \<Rightarrow> workload_config \<Rightarrow> cxx_exc + workload_gen" where
  "new_workload_gen pow_fn cfg0 =
     (let cfg = cfg0\<lparr>wc_hot_fraction := clamp_fraction (wc_hot_fraction cfg0)\<rparr>;
          hot = int_of_double (fl64 (of_int (wc_num_chunks cfg) * wc_hot_fraction cfg));
          hot_count = (if hot < 1 then 1 else hot);
          cold = wc_num_chunks cfg - hot_count;
          cold_count = (if cold < 1 then 1 else cold)
      in if wc_num_chunks cfg < 0 then Inl Length_error
         else Inr \<lparr>wg_cfg = cfg, wg_hot_count = hot_count, wg_cold_count = cold_count,
                   wg_zipf_H = zipf_sum pow_fn (wc_num_chunks cfg) (wc_zipf_theta cfg),
                   wg_chunk_ids = map (\<lambda>i. ''chunk_'' @ to_string_int i) [0..wc_num_chunks cfg - 1]\<rparr>)"

fun zipf_loop :: "(float64 \<Rightarrow> float64 \<Rightarrow> float64) \<Rightarrow> float64 \<Rightarrow> float64 \<Rightarrow> int \<Rightarrow> float64 \<Rightarrow> int list \<Rightarrow> int" where
  "zipf_loop pow_fn theta target N cumulative [] = N - 1"
| "zipf_loop pow_fn theta target N cumulative (i # is) =
     (let cumulative1 = fl64 (cumulative + fl64 (1 / pow_fn (of_int i) theta))
      in if target \<le> cumulative1 then i - 1 else zipf_loop pow_fn theta target N cumulative1 is)"

definition zipf_sample :: "(float64 \<Rightarrow> float64 \<Rightarrow> float64) \<Rightarrow> int \<Rightarrow> float64 \<Rightarrow> float64 \<Rightarrow> float64 \<Rightarrow> int" where
  "zipf_sample pow_fn N theta H_N u = zipf_loop pow_fn theta (fl64 (u * H_N)) N 0 [1..N]"

text \<open>\<^verbatim>\<open>chunk_ids_[idx]\<close>, which is not checked.\<close>

definition at_index :: "'a list \<Rightarrow> int \<Rightarrow> cxx_exc + 'a" where
  "at_index xs i = (if 0 \<le> i \<and> i < int (length xs) then Inr (xs ! nat i) else Inl Out_of_bounds)"

text \<open>
  \<^verbatim>\<open>pick_chunk\<close>: \<open>u\<close> is the draw from the unit interval, \<open>draw k\<close> the draw from
  \<^verbatim>\<open>uniform_int_distribution<int>(0, k)\<close>.
\<close>

definition pick_chunk :: "(float64 \<Rightarrow> float64 \<Rightarrow> float64) \<Rightarrow> workload_gen \<Rightarrow> float64 \<Rightarrow> (int \<Rightarrow> int) \<Rightarrow> cxx_exc + string \<times> string" where
  "pick_chunk pow_fn gen u draw =
     (let cfg = wg_cfg gen; ids = wg_chunk_ids gen; hot = wg_hot_count gen in
      if wc_distribution cfg = ''zipfian''
      then let idx = zipf_sample pow_fn (wc_num_chunks cfg) (wc_zipf_theta cfg) (wg_zipf_H gen) u
           in ebind (at_index ids idx) (\<lambda>c. Inr (c, if idx < hot then ''hot'' else ''cold''))
      else if wc_distribution cfg = ''uniform''
      then let idx = draw (wc_num_chunks cfg - 1)
           in ebind (at_index ids idx) (\<lambda>c. Inr (c, if idx < hot then ''hot'' else ''cold''))
      else if u < wc_hot_read_weight cfg
      then ebind (at_index ids (draw (hot - 1))) (\<lambda>c. Inr (c, ''hot''))
      else ebind (at_index ids (hot + draw (wg_cold_count gen - 1))) (\<lambda>c. Inr (c, ''cold'')))"

section \<open>The workers\<close>

text \<open>What one operation of a worker finds: its random draws, clock readings and network.\<close>

record 'db op_input =
  oi_env :: "'db rpc_env"
  oi_u :: float64
  oi_draw :: "int \<Rightarrow> int"
  oi_write :: float64
  oi_start_us :: u64
  oi_latency_us :: u64
  oi_net :: net
  oi_err :: string
  oi_nets :: "nat \<Rightarrow> string \<Rightarrow> net"

text \<open>\<^verbatim>\<open>std::string(size * 1024, 'x')\<close>: a negative size is converted to a huge one.\<close>

definition make_payload :: "int \<Rightarrow> cxx_exc + string" where
  "make_payload kb = (if kb < 0 then Inl Length_error else Inr (replicate (nat kb * 1024) CHR ''x''))"

definition worker_step :: "(float64 \<Rightarrow> float64 \<Rightarrow> float64) \<Rightarrow> rpc_service \<Rightarrow> workload_gen \<Rightarrow> string \<Rightarrow> 'db op_input \<Rightarrow>
     nimbus_client \<times> history_tracer \<times> 'db rpc_state \<Rightarrow> cxx_exc + nimbus_client \<times> history_tracer \<times> 'db rpc_state" where
  "worker_step pow_fn svc gen payload oi = (\<lambda>(cl, tr, s).
     ebind (pick_chunk pow_fn gen (oi_u oi) (oi_draw oi)) (\<lambda>(chunk, tr_tier).
       let rec = (\<lambda>ty ok n. \<lparr>or_type = ty, or_chunk_id = chunk, or_start_us = oi_start_us oi, or_latency_us = oi_latency_us oi,
                    or_ok = ok, or_bytes = word_of_nat n, or_tier = tr_tier\<rparr>)
       in if oi_write oi < wc_write_ratio (wg_cfg gen)
          then let (pres, s1) = client_put svc (oi_env oi) (oi_net oi) (oi_err oi) chunk payload (wc_desired_rf (wg_cfg gen)) s
               in Inr (cl, record_op (rec PUT (pr_ok pres) (length payload)) tr, s1)
          else let (gres, cl1, nodes1) = client_get svc (env_db (oi_env oi)) (env_ord (oi_env oi)) (oi_net oi) (oi_err oi) (oi_nets oi)
                       chunk 0 (st_coord s) (cl, st_nodes s)
               in Inr (cl1, record_op (rec GET (gr_ok gres) (length (gr_data gres))) tr, s\<lparr>st_nodes := nodes1\<rparr>)))"

text \<open>The loop of a worker, one input per operation.\<close>

definition worker_loop :: "(float64 \<Rightarrow> float64 \<Rightarrow> float64) \<Rightarrow> rpc_service \<Rightarrow> workload_gen \<Rightarrow> 'db op_input list \<Rightarrow>
     nimbus_client \<times> history_tracer \<times> 'db rpc_state \<Rightarrow> cxx_exc + nimbus_client \<times> history_tracer \<times> 'db rpc_state" where
  "worker_loop pow_fn svc gen inputs st = ebind (make_payload (wc_chunk_size_kb (wg_cfg gen))) (\<lambda>payload.
     efold (worker_step pow_fn svc gen payload) inputs st)"

text \<open>How many operations each thread is given.\<close>

definition worker_ops :: "int \<Rightarrow> int \<Rightarrow> int list" where
  "worker_ops threads0 num_ops =
     (let threads = max 1 threads0; base = num_ops sdiv threads; rem = num_ops smod threads
      in map (\<lambda>t. base + (if t < rem then 1 else 0)) [0..threads - 1])"

text \<open>
  \<^verbatim>\<open>run\<close>: every chunk is put once, whatever comes of it, and then the threads run. \<open>pre\<close> is what the
  first put of a chunk finds. The order in which the operations of the threads take effect is a
  schedule, a list of thread numbers with the inputs of their next operations; an exception in a
  thread ends the program.
\<close>

definition preload :: "rpc_service \<Rightarrow> workload_gen \<Rightarrow> string \<Rightarrow> (string \<Rightarrow> 'db op_input) \<Rightarrow> 'db rpc_state \<Rightarrow> 'db rpc_state" where
  "preload svc gen payload pre s = fold (\<lambda>cid s. snd (client_put svc (oi_env (pre cid)) (oi_net (pre cid)) (oi_err (pre cid))
     cid payload (wc_desired_rf (wg_cfg gen)) s)) (wg_chunk_ids gen) s"

definition gen_run :: "(float64 \<Rightarrow> float64 \<Rightarrow> float64) \<Rightarrow> rpc_service \<Rightarrow> workload_gen \<Rightarrow> (string \<Rightarrow> 'db op_input) \<Rightarrow> (nat \<times> 'db op_input) list \<Rightarrow>
     nimbus_client \<times> history_tracer \<times> 'db rpc_state \<Rightarrow> cxx_exc + nimbus_client \<times> history_tracer \<times> 'db rpc_state" where
  "gen_run pow_fn svc gen pre sched = (\<lambda>(cl, tr, s).
     ebind (make_payload (wc_chunk_size_kb (wg_cfg gen))) (\<lambda>payload.
       efold (\<lambda>(t, oi). worker_step pow_fn svc gen payload oi) sched (cl, tr, preload svc gen payload pre s)))"

text \<open>A schedule gives every thread the operations that are its share.\<close>

definition is_schedule :: "int list \<Rightarrow> (nat \<times> 'a) list \<Rightarrow> bool" where
  "is_schedule ops sched \<longleftrightarrow> list_all (\<lambda>(t, _). t < length ops) sched \<and>
     list_all (\<lambda>t. length (filter (\<lambda>(u, _). u = t) sched) = nat (ops ! t)) [0..<length ops]"

section \<open>The choice of a chunk\<close>

lemma fl64_below:
  assumes "0 \<le> x" and "x \<le> of_int n" and "1 \<le> n" and "n < 2 ^ 31"
  shows "fl64 x < of_int n + 1"
proof (cases "pow2 (- 1022) \<le> x")
  case True
  then have "\<bar>fl64 x - x\<bar> \<le> x / 2 ^ 53" using fl64_error [of x] assms(1) by simp
  then have "fl64 x \<le> x + x / 2 ^ 53" using abs_ge_self [of "fl64 x - x"] by linarith
  moreover have "(of_int n :: rat) < of_int (2 ^ 31)" using assms(4) by (simp only: of_int_less_iff)
  then have "x / 2 ^ 53 < 1" using assms(2) by simp
  ultimately show ?thesis using assms(2) by linarith
next
  case False
  show ?thesis
  proof (cases "x = 0")
    case True
    then show ?thesis using assms(3) by simp
  next
    case nz: False
    then have pos: "0 < \<bar>x\<bar>" by simp
    define u where "u = pow2 (max (ilog2 \<bar>x\<bar>) (- 1022) - 53 + 1)"
    have "pow2 (ilog2 \<bar>x\<bar>) < pow2 (- 1022)" using ilog2_bounds(1) [OF pos] False assms(1) by simp
    then have "ilog2 \<bar>x\<bar> \<le> - 1022" using pow2_mono [of "- 1022" "ilog2 \<bar>x\<bar>"] by (metis linorder_not_le order.asym order_less_imp_le)
    then have u: "u = pow2 (- 1074)" by (simp add: u_def max_def)
    have f: "fl64 x = of_int (round_half_even (x / u)) * u" using nz by (simp add: fl64_def round_to_def Let_def u_def)
    have "of_int (round_half_even (x / u)) \<le> x / u + 1 / 2" using round_half_even_error [of "x / u"] by linarith
    then have "fl64 x \<le> (x / u + 1 / 2) * u" unfolding f using u by (intro mult_right_mono) (auto simp: less_imp_le)
    also have "\<dots> = x + u / 2" using u less_imp_neq [OF pow2_pos [of "- 1074"]] by (simp add: distrib_right)
    also have "\<dots> < of_int n + 1" using u assms(2) by (simp add: pow2_def)
    finally show ?thesis .
  qed
qed

lemma zipf_loop_range:
  "\<lbrakk>1 \<le> N; \<forall>i \<in> set is. 1 \<le> i \<and> i \<le> N\<rbrakk> \<Longrightarrow> 0 \<le> zipf_loop pow_fn theta target N c is \<and> zipf_loop pow_fn theta target N c is < N"
  by (induction "is" arbitrary: c) (auto simp: Let_def)

lemma zipf_sample_range: "1 \<le> N \<Longrightarrow> 0 \<le> zipf_sample pow_fn N theta H u \<and> zipf_sample pow_fn N theta H u < N"
  unfolding zipf_sample_def by (rule zipf_loop_range) auto

text \<open>What the constructor makes of a configuration with at least one chunk.\<close>

lemma new_workload_gen_facts:
  assumes new: "new_workload_gen pow_fn cfg = Inr gen" and n: "1 \<le> wc_num_chunks cfg" "wc_num_chunks cfg < 2 ^ 31"
  shows "int (length (wg_chunk_ids gen)) = wc_num_chunks cfg" "1 \<le> wg_hot_count gen" "wg_hot_count gen \<le> wc_num_chunks cfg"
    "wg_cold_count gen = max 1 (wc_num_chunks cfg - wg_hot_count gen)" "wc_num_chunks (wg_cfg gen) = wc_num_chunks cfg"
    "wc_distribution (wg_cfg gen) = wc_distribution cfg" "wc_hot_read_weight (wg_cfg gen) = wc_hot_read_weight cfg"
    "wc_chunk_size_kb (wg_cfg gen) = wc_chunk_size_kb cfg" "wc_threads (wg_cfg gen) = wc_threads cfg" "wc_num_ops (wg_cfg gen) = wc_num_ops cfg"
proof -
  define x where "x = of_int (wc_num_chunks cfg) * clamp_fraction (wc_hot_fraction cfg)"
  have c: "0 \<le> clamp_fraction f" "clamp_fraction f \<le> 1" for f by (simp_all add: clamp_fraction_def Let_def)
  have x: "0 \<le> x" "x \<le> of_int (wc_num_chunks cfg)"
    using n(1) c mult_left_mono [OF c(2), of "of_int (wc_num_chunks cfg)" "wc_hot_fraction cfg"] by (auto simp: x_def)
  have lt: "fl64 x < of_int (wc_num_chunks cfg) + 1" by (rule fl64_below [OF x n])
  have hot: "int_of_double (fl64 x) \<le> wc_num_chunks cfg"
  proof (cases "0 \<le> fl64 x")
    case True
    have "\<lfloor>fl64 x\<rfloor> < wc_num_chunks cfg + 1" unfolding floor_less_iff using lt by simp
    then show ?thesis using True by (simp add: int_of_double_def)
  next
    case False
    then have "\<lceil>fl64 x\<rceil> \<le> 0" by (simp add: ceiling_le_iff)
    then have "\<lceil>fl64 x\<rceil> \<le> wc_num_chunks cfg" using n(1) by linarith
    then show ?thesis using False by (simp add: int_of_double_def)
  qed
  have at_least_one: "(if a < 1 then 1 else a) = max 1 a" for a :: int by auto
  have gen: "gen = \<lparr>wg_cfg = cfg\<lparr>wc_hot_fraction := clamp_fraction (wc_hot_fraction cfg)\<rparr>,
      wg_hot_count = max 1 (int_of_double (fl64 x)), wg_cold_count = max 1 (wc_num_chunks cfg - max 1 (int_of_double (fl64 x))),
      wg_zipf_H = zipf_sum pow_fn (wc_num_chunks cfg) (wc_zipf_theta cfg),
      wg_chunk_ids = map (\<lambda>i. ''chunk_'' @ to_string_int i) [0..wc_num_chunks cfg - 1]\<rparr>"
    using new n(1) at_least_one by (simp add: new_workload_gen_def Let_def x_def)
  show "int (length (wg_chunk_ids gen)) = wc_num_chunks cfg" using n(1) by (simp add: gen)
  show "wg_hot_count gen \<le> wc_num_chunks cfg" using hot n(1) by (simp add: gen)
  show "1 \<le> wg_hot_count gen" "wg_cold_count gen = max 1 (wc_num_chunks cfg - wg_hot_count gen)"
    "wc_num_chunks (wg_cfg gen) = wc_num_chunks cfg" "wc_distribution (wg_cfg gen) = wc_distribution cfg"
    "wc_hot_read_weight (wg_cfg gen) = wc_hot_read_weight cfg" "wc_chunk_size_kb (wg_cfg gen) = wc_chunk_size_kb cfg"
    "wc_threads (wg_cfg gen) = wc_threads cfg" "wc_num_ops (wg_cfg gen) = wc_num_ops cfg"
    by (simp_all add: gen)
qed

lemma at_index_bind:
  "ebind (at_index xs i) (\<lambda>c. Inr (f c)) = (if 0 \<le> i \<and> i < int (length xs) then Inr (f (xs ! nat i)) else Inl Out_of_bounds)"
  by (simp add: at_index_def)

text \<open>
  The one case in which the choice leaves the list: the draw asks for a cold chunk when all chunks are
  hot, as the number of cold chunks is set to one even then.
\<close>

definition no_cold_chunk :: "workload_config \<Rightarrow> workload_gen \<Rightarrow> float64 \<Rightarrow> bool" where
  "no_cold_chunk cfg gen u \<longleftrightarrow> wc_distribution cfg \<notin> {''zipfian'', ''uniform''} \<and> wc_hot_read_weight cfg \<le> u \<and>
     wg_hot_count gen = wc_num_chunks cfg"

lemma pick_chunk_cases:
  assumes new: "new_workload_gen pow_fn cfg = Inr gen" and n: "1 \<le> wc_num_chunks cfg" "wc_num_chunks cfg < 2 ^ 31"
    and draw: "\<forall>k. 0 \<le> k \<longrightarrow> 0 \<le> draw k \<and> draw k \<le> k"
  shows "if no_cold_chunk cfg gen u then pick_chunk pow_fn gen u draw = Inl Out_of_bounds
    else \<exists>i < length (wg_chunk_ids gen). pick_chunk pow_fn gen u draw =
           Inr (wg_chunk_ids gen ! i, if int i < wg_hot_count gen then ''hot'' else ''cold'')"
proof -
  note g = new_workload_gen_facts [OF new n]
  let ?n = "wc_num_chunks cfg" and ?hot = "wg_hot_count gen" and ?ids = "wg_chunk_ids gen" and ?cold = "wg_cold_count gen"
  have inside: "\<exists>i < length ?ids. Inr (?ids ! nat j, t) = (Inr (?ids ! i, if int i < ?hot then ''hot'' else ''cold'') :: cxx_exc + string \<times> string)"
    if "0 \<le> j" "j < ?n" "t = (if j < ?hot then ''hot'' else ''cold'')" for j t
    using that g(1) by (intro exI [of _ "nat j"]) auto
  have d: "0 \<le> draw (k - 1) \<and> draw (k - 1) < k" if "1 \<le> k" for k using spec [OF draw, of "k - 1"] that by auto
  consider "wc_distribution cfg = ''zipfian''" | "wc_distribution cfg = ''uniform''"
    | (hot) "wc_distribution cfg \<notin> {''zipfian'', ''uniform''}" "u < wc_hot_read_weight cfg"
    | (cold) "wc_distribution cfg \<notin> {''zipfian'', ''uniform''}" "wc_hot_read_weight cfg \<le> u" by force
  then show ?thesis
  proof cases
    case 1
    define z where "z = zipf_sample pow_fn ?n (wc_zipf_theta (wg_cfg gen)) (wg_zipf_H gen) u"
    have z: "0 \<le> z" "z < ?n" using zipf_sample_range [OF n(1)] by (simp_all add: z_def)
    have "pick_chunk pow_fn gen u draw = Inr (?ids ! nat z, if z < ?hot then ''hot'' else ''cold'')"
      using 1 g z by (simp add: pick_chunk_def at_index_bind z_def [symmetric])
    then show ?thesis using 1 inside [OF z refl] by (simp add: no_cold_chunk_def)
  next
    case 2
    have z: "0 \<le> draw (?n - 1)" "draw (?n - 1) < ?n" using d [OF n(1)] by simp_all
    have "pick_chunk pow_fn gen u draw = Inr (?ids ! nat (draw (?n - 1)), if draw (?n - 1) < ?hot then ''hot'' else ''cold'')"
      using 2 g z by (simp add: pick_chunk_def at_index_bind Let_def)
    then show ?thesis using 2 inside [OF z refl] by (simp add: no_cold_chunk_def)
  next
    case hot
    have z: "0 \<le> draw (?hot - 1)" "draw (?hot - 1) < ?hot" using d [OF g(2)] by simp_all
    have "pick_chunk pow_fn gen u draw = Inr (?ids ! nat (draw (?hot - 1)), ''hot'')"
      using hot g z by (simp add: pick_chunk_def at_index_bind Let_def)
    then show ?thesis using hot inside [OF z(1), of "''hot''"] z g(3) by (simp add: no_cold_chunk_def)
  next
    case cold
    have z: "0 \<le> draw (?cold - 1)" "draw (?cold - 1) < ?cold" using d [of ?cold] g(4) by simp_all
    have p: "pick_chunk pow_fn gen u draw = (if ?hot + draw (?cold - 1) < ?n then Inr (?ids ! nat (?hot + draw (?cold - 1)), ''cold'') else Inl Out_of_bounds)"
      using cold g(1,2,5-7) z by (simp add: pick_chunk_def at_index_bind Let_def)
    show ?thesis
    proof (cases "?hot = ?n")
      case True
      then show ?thesis using p z cold by (simp add: no_cold_chunk_def)
    next
      case False
      then have "?hot + draw (?cold - 1) < ?n" using z g(3,4) by simp
      then show ?thesis using p False inside [of "?hot + draw (?cold - 1)" "''cold''"] z(1) g(2) by (simp add: no_cold_chunk_def)
    qed
  qed
qed

lemma pick_some_chunk:
  assumes new: "new_workload_gen pow_fn cfg = Inr gen" and n: "1 \<le> wc_num_chunks cfg" "wc_num_chunks cfg < 2 ^ 31"
    and oi: "\<not> no_cold_chunk cfg gen u \<and> (\<forall>k. 0 \<le> k \<longrightarrow> 0 \<le> draw k \<and> draw k \<le> k)"
  shows "\<exists>c t. pick_chunk pow_fn gen u draw = Inr (c, t) \<and> c \<in> set (wg_chunk_ids gen)"
  using pick_chunk_cases [OF new n conjunct2 [OF oi], of u] oi by auto

section \<open>A run\<close>

lemma worker_step_records:
  assumes pick: "pick_chunk pow_fn gen (oi_u oi) (oi_draw oi) = Inr (c, t)"
  shows "\<exists>cl' s' r. worker_step pow_fn svc gen payload oi (cl, tr, s) = Inr (cl', record_op r tr, s') \<and> or_chunk_id r = c \<and>
    or_type r = (if oi_write oi < wc_write_ratio (wg_cfg gen) then PUT else GET)"
proof -
  obtain pr s1 where p: "client_put svc (oi_env oi) (oi_net oi) (oi_err oi) c payload (wc_desired_rf (wg_cfg gen)) s = (pr, s1)" by fastforce
  obtain gr cl1 nodes1 where g: "client_get svc (env_db (oi_env oi)) (env_ord (oi_env oi)) (oi_net oi) (oi_err oi) (oi_nets oi)
      c 0 (st_coord s) (cl, st_nodes s) = (gr, cl1, nodes1)" by (metis prod_cases3)
  define rec where "rec = (\<lambda>ty ok n. \<lparr>or_type = ty, or_chunk_id = c, or_start_us = oi_start_us oi,
      or_latency_us = oi_latency_us oi, or_ok = ok, or_bytes = word_of_nat n, or_tier = t\<rparr>)"
  have "worker_step pow_fn svc gen payload oi (cl, tr, s) =
      (if oi_write oi < wc_write_ratio (wg_cfg gen) then Inr (cl, record_op (rec PUT (pr_ok pr) (length payload)) tr, s1)
       else Inr (cl1, record_op (rec GET (gr_ok gr) (length (gr_data gr))) tr, s\<lparr>st_nodes := nodes1\<rparr>))"
    using pick p g by (simp add: worker_step_def Let_def rec_def)
  moreover have "or_chunk_id (rec ty ok n) = c" "or_type (rec ty ok n) = ty" for ty ok n by (simp_all add: rec_def)
  ultimately show ?thesis by (cases "oi_write oi < wc_write_ratio (wg_cfg gen)") (simp, blast)+
qed

lemma worker_steps_records:
  assumes "\<forall>oi \<in> set inputs. \<exists>c t. pick_chunk pow_fn gen (oi_u oi) (oi_draw oi) = Inr (c, t) \<and> c \<in> set (wg_chunk_ids gen)"
  shows "\<exists>cl' tr' s' rs. efold (worker_step pow_fn svc gen payload) inputs (cl, tr, s) = Inr (cl', tr', s') \<and>
    tr' = fold record_op rs tr \<and> length rs = length inputs \<and> or_chunk_id ` set rs \<subseteq> set (wg_chunk_ids gen)"
  using assms
proof (induction inputs arbitrary: cl tr s)
  case (Cons oi inputs)
  obtain c t where c: "pick_chunk pow_fn gen (oi_u oi) (oi_draw oi) = Inr (c, t)" "c \<in> set (wg_chunk_ids gen)" using Cons.prems by auto
  obtain cl1 s1 r where r: "worker_step pow_fn svc gen payload oi (cl, tr, s) = Inr (cl1, record_op r tr, s1)" "or_chunk_id r = c"
    using worker_step_records [OF c(1)] by blast
  obtain cl' tr' s' rs where "efold (worker_step pow_fn svc gen payload) inputs (cl1, record_op r tr, s1) = Inr (cl', tr', s')"
      "tr' = fold record_op rs (record_op r tr)" "length rs = length inputs" "or_chunk_id ` set rs \<subseteq> set (wg_chunk_ids gen)"
    using Cons.IH [of cl1 "record_op r tr" s1] Cons.prems by auto
  then show ?case using r c(2) by (intro exI [of _ cl'] exI [of _ tr'] exI [of _ s'] exI [of _ "r # rs"]) simp
qed simp

lemma record_ops:
  "tr_records (fold record_op rs tr) = tr_records tr @ rs"
  "tr_file (fold record_op rs tr) = map_option (\<lambda>t. t @ concat (map (\<lambda>r. csv_row r @ [CHR 0x0A]) rs)) (tr_file tr)"
  by (induction rs arbitrary: tr) (simp_all add: record_op_def option.map_comp comp_def option.map_ident)

section \<open>Properties\<close>

text \<open>
  The choice of a chunk stays inside the list, and its label says whether it is one of the hot ones,
  except in one case: with the biased distribution and no cold chunk (a single chunk, or a hot fraction of
  one) a draw for a cold chunk reads beyond the end of the list.
\<close>

theorem pick_chunk_in_list:
  assumes "new_workload_gen pow_fn cfg = Inr gen" and "1 \<le> wc_num_chunks cfg" "wc_num_chunks cfg < 2 ^ 31"
    and "\<forall>k. 0 \<le> k \<longrightarrow> 0 \<le> draw k \<and> draw k \<le> k"
  shows "if no_cold_chunk cfg gen u then pick_chunk pow_fn gen u draw = Inl Out_of_bounds
    else \<exists>i < length (wg_chunk_ids gen). pick_chunk pow_fn gen u draw =
           Inr (wg_chunk_ids gen ! i, if int i < wg_hot_count gen then ''hot'' else ''cold'')"
  by (rule pick_chunk_cases [OF assms])

theorem pick_chunk_in_list_witness:
  "\<exists>gen. new_workload_gen (\<lambda>x y. x) (default_workload_config\<lparr>wc_num_chunks := 1\<rparr>) = Inr gen \<and>
     pick_chunk (\<lambda>x y. x) gen 1 (\<lambda>k. 0) = Inl Out_of_bounds"
proof -
  let ?cfg = "default_workload_config\<lparr>wc_num_chunks := 1\<rparr>"
  obtain gen where gen: "new_workload_gen (\<lambda>x y. x) ?cfg = Inr gen"
    by (simp add: new_workload_gen_def Let_def default_workload_config_def)
  have "wg_hot_count gen = 1" using new_workload_gen_facts(2,3) [OF gen] by (simp add: default_workload_config_def)
  moreover have "fl64 (8 / 10) \<le> 1" by code_simp
  ultimately have "no_cold_chunk ?cfg gen 1" by (simp add: no_cold_chunk_def default_workload_config_def)
  then show ?thesis using pick_chunk_in_list [OF gen, of "\<lambda>k. 0" 1] gen by (auto simp: default_workload_config_def)
qed

text \<open>The operations are divided among the threads without loss, as evenly as possible.\<close>

theorem worker_ops_total:
  assumes "0 \<le> num_ops"
  shows "sum_list (worker_ops threads num_ops) = num_ops"
    "\<forall>k \<in> set (worker_ops threads num_ops). num_ops div max 1 threads \<le> k \<and> k \<le> num_ops div max 1 threads + 1"
proof -
  define T where "T = max 1 threads"
  have T: "0 < T" by (simp add: T_def)
  have q: "num_ops sdiv T = num_ops div T" "num_ops smod T = num_ops mod T"
    using assms T by (cases "num_ops = 0"; simp add: signed_divide_int_def signed_modulo_int_def minus_mult_div_eq_mod)+
  have r: "0 \<le> num_ops mod T" "num_ops mod T < T" using T by simp_all
  have "sum_list (map (\<lambda>t. q + (if t < r then 1 else 0)) [0..T - 1]) = T * q + r" if "0 \<le> r" "r \<le> T" for q r
  proof -
    have "sum_list (map (\<lambda>t. q + (if t < r then 1 else 0)) [0..T - 1]) = (\<Sum>t \<in> {0..T - 1}. q + (if t < r then 1 else 0))"
      by (simp add: sum_list_distinct_conv_sum_set)
    also have "\<dots> = T * q + (\<Sum>t \<in> {0..T - 1}. if t < r then 1 else 0)" using T by (simp add: sum.distrib)
    also have "(\<Sum>t \<in> {0..T - 1}. if t < r then 1 else 0 :: int) = int (card {t \<in> {0..T - 1}. t < r})"
      by (simp add: sum.If_cases Int_def)
    also have "{t \<in> {0..T - 1}. t < r} = {0..<r}" using that by auto
    finally show ?thesis using that by simp
  qed
  then show "sum_list (worker_ops threads num_ops) = num_ops"
    using r by (simp add: worker_ops_def Let_def T_def [symmetric] q)
  show "\<forall>k \<in> set (worker_ops threads num_ops). num_ops div max 1 threads \<le> k \<and> k \<le> num_ops div max 1 threads + 1"
    by (auto simp: worker_ops_def Let_def T_def [symmetric] q)
qed

lemma schedule_count:
  "\<forall>(t, x) \<in> set xs. t < (n :: nat) \<Longrightarrow> (\<Sum>t<n. length (filter (\<lambda>(u, _). u = t) xs)) = length xs"
proof (induction xs)
  case (Cons p xs)
  obtain u x where p: "p = (u, x)" by fastforce
  have "(\<Sum>t<n. length (filter (\<lambda>(v, _). v = t) (p # xs))) = (\<Sum>t<n. (if t = u then 1 else 0) + length (filter (\<lambda>(v, _). v = t) xs))"
    by (rule sum.cong) (auto simp: p)
  also have "\<dots> = (\<Sum>t<n. if t = u then 1 else 0) + length xs" using Cons p by (simp add: sum.distrib)
  also have "(\<Sum>t<n. if t = u then 1 else 0 :: nat) = 1" using Cons.prems p by simp
  finally show ?case by simp
qed simp

lemma schedule_length:
  assumes "is_schedule ops sched"
  shows "length sched = sum_list (map nat ops)"
proof -
  have "length sched = (\<Sum>t<length ops. length (filter (\<lambda>(u, _). u = t) sched))"
    using assms schedule_count [of sched "length ops"] by (auto simp: is_schedule_def list_all_iff)
  also have "\<dots> = (\<Sum>t<length ops. nat (ops ! t))" using assms by (intro sum.cong) (auto simp: is_schedule_def list_all_iff)
  also have "\<dots> = sum_list (map nat ops)" by (simp add: sum_list_sum_nth atLeast0LessThan)
  finally show ?thesis .
qed

lemma sum_list_nat: "\<forall>x \<in> set xs. (0 :: int) \<le> x \<Longrightarrow> sum_list (map nat xs) = nat (sum_list xs)"
proof (induction xs)
  case (Cons x xs)
  then have "0 \<le> sum_list xs" by (intro sum_list_nonneg) simp
  then show ?case using Cons by (simp add: nat_add_distrib)
qed simp

lemma efold_map: "efold (\<lambda>x. f (g x)) xs = efold f (map g xs)"
proof
  fix s show "efold (\<lambda>x. f (g x)) xs s = efold f (map g xs) s"
    by (induction xs arbitrary: s) (auto intro: arg_cong [of _ _ "ebind _"])
qed

text \<open>
  A worker with at least one cold chunk, or another distribution, completes all its operations and
  leaves one record for each, in order, every one naming a chunk of the workload.
\<close>

theorem worker_loop_records:
  assumes new: "new_workload_gen pow_fn cfg = Inr gen" and n: "1 \<le> wc_num_chunks cfg" "wc_num_chunks cfg < 2 ^ 31"
    and kb: "0 \<le> wc_chunk_size_kb cfg"
    and inputs: "\<forall>oi \<in> set inputs. \<not> no_cold_chunk cfg gen (oi_u oi) \<and> (\<forall>k. 0 \<le> k \<longrightarrow> 0 \<le> oi_draw oi k \<and> oi_draw oi k \<le> k)"
  shows "\<exists>cl' tr' s' rs. worker_loop pow_fn svc gen inputs (cl, tr, s) = Inr (cl', tr', s') \<and>
    tr_records tr' = tr_records tr @ rs \<and> length rs = length inputs \<and> or_chunk_id ` set rs \<subseteq> set (wg_chunk_ids gen)"
proof -
  have pick: "\<forall>oi \<in> set inputs. \<exists>c t. pick_chunk pow_fn gen (oi_u oi) (oi_draw oi) = Inr (c, t) \<and> c \<in> set (wg_chunk_ids gen)"
    using pick_some_chunk [OF new n bspec [OF inputs]] by blast
  obtain cl' tr' s' rs where r: "efold (worker_step pow_fn svc gen (replicate (nat (wc_chunk_size_kb cfg) * 1024) CHR ''x''))
      inputs (cl, tr, s) = Inr (cl', tr', s')" "tr' = fold record_op rs tr" "length rs = length inputs" "or_chunk_id ` set rs \<subseteq> set (wg_chunk_ids gen)"
    using worker_steps_records [OF pick] by blast
  have "make_payload (wc_chunk_size_kb (wg_cfg gen)) = Inr (replicate (nat (wc_chunk_size_kb cfg) * 1024) CHR ''x'')"
    using kb new_workload_gen_facts(8) [OF new n] by (simp add: make_payload_def)
  then have "worker_loop pow_fn svc gen inputs (cl, tr, s) = Inr (cl', tr', s')" using r(1) by (simp add: worker_loop_def)
  then show ?thesis using r(2-4) record_ops(1) [of rs tr] by blast
qed

definition demo_input :: "mem_db op_input" where
  "demo_input = \<lparr>oi_env = demo_env True, oi_u = 0, oi_draw = (\<lambda>k. 0), oi_write = 0, oi_start_us = 1, oi_latency_us = 2,
     oi_net = Delivered, oi_err = [], oi_nets = (\<lambda>_ _. Delivered)\<rparr>"

theorem worker_loop_records_witness:
  "\<exists>gen cl' tr' s' rs. new_workload_gen (\<lambda>x y. x) (default_workload_config\<lparr>wc_num_chunks := 1, wc_chunk_size_kb := 0\<rparr>) = Inr gen \<and>
     worker_loop (\<lambda>x y. x) demo_service gen [\<lparr>oi_env = demo_env True, oi_u = 0, oi_draw = (\<lambda>k. 0), oi_write = 0, oi_start_us = 1,
         oi_latency_us = 2, oi_net = Delivered, oi_err = [], oi_nets = (\<lambda>_ _. Delivered)\<rparr>]
       (\<lparr>nc_node_addrs = [], nc_stubs = []\<rparr>, new_tracer True, demo_committed) = Inr (cl', tr', s') \<and>
     tr_records tr' = rs \<and> length rs = 1"
proof -
  let ?cfg = "default_workload_config\<lparr>wc_num_chunks := 1, wc_chunk_size_kb := 0\<rparr>"
  let ?oi = "\<lparr>oi_env = demo_env True, oi_u = 0, oi_draw = (\<lambda>k. 0), oi_write = 0, oi_start_us = 1,
         oi_latency_us = 2, oi_net = Delivered, oi_err = [], oi_nets = (\<lambda>_ _. Delivered)\<rparr> :: mem_db op_input"
  obtain gen where gen: "new_workload_gen (\<lambda>x y. x) ?cfg = Inr gen"
    by (simp add: new_workload_gen_def Let_def default_workload_config_def)
  have "0 < fl64 (8 / 10)" by code_simp
  then have "\<not> no_cold_chunk ?cfg gen 0" by (simp add: no_cold_chunk_def default_workload_config_def)
  then obtain cl' tr' s' rs where "worker_loop (\<lambda>x y. x) demo_service gen [?oi] (\<lparr>nc_node_addrs = [], nc_stubs = []\<rparr>, new_tracer True, demo_committed) =
      Inr (cl', tr', s')" "tr_records tr' = tr_records (new_tracer True) @ rs" "length rs = 1"
    using worker_loop_records [OF gen, of "[?oi]" demo_service "\<lparr>nc_node_addrs = [], nc_stubs = []\<rparr>" "new_tracer True" demo_committed]
    by (auto simp: default_workload_config_def)
  then show ?thesis using gen by (auto simp: new_tracer_def)
qed

text \<open>
  A benchmark run does what it is asked to do: however its threads are interleaved, with at least one
  cold chunk or another distribution, it completes, and the trace has exactly \<^verbatim>\<open>num_ops\<close> new
  records, each naming a chunk of the workload. The puts that create the chunks are not in it.
\<close>

theorem workload_run_complete:
  assumes new: "new_workload_gen pow_fn cfg = Inr gen" and n: "1 \<le> wc_num_chunks cfg" "wc_num_chunks cfg < 2 ^ 31"
    and kb: "0 \<le> wc_chunk_size_kb cfg" and ops: "0 \<le> wc_num_ops cfg"
    and sched: "is_schedule (worker_ops (wc_threads cfg) (wc_num_ops cfg)) sched"
    and inputs: "\<forall>(t, oi) \<in> set sched. \<not> no_cold_chunk cfg gen (oi_u oi) \<and> (\<forall>k. 0 \<le> k \<longrightarrow> 0 \<le> oi_draw oi k \<and> oi_draw oi k \<le> k)"
  shows "\<exists>cl' tr' s' rs. gen_run pow_fn svc gen pre sched (cl, tr, s) = Inr (cl', tr', s') \<and>
    tr' = fold record_op rs tr \<and> int (length rs) = wc_num_ops cfg \<and> or_chunk_id ` set rs \<subseteq> set (wg_chunk_ids gen)"
proof -
  note g = new_workload_gen_facts [OF new n]
  let ?ops = "worker_ops (wc_threads cfg) (wc_num_ops cfg)"
  define payload where "payload = replicate (nat (wc_chunk_size_kb cfg) * 1024) CHR ''x''"
  have mp: "make_payload (wc_chunk_size_kb (wg_cfg gen)) = Inr payload" using kb g(8) by (simp add: make_payload_def payload_def)
  have pick: "\<forall>oi \<in> set (map snd sched). \<exists>c t. pick_chunk pow_fn gen (oi_u oi) (oi_draw oi) = Inr (c, t) \<and> c \<in> set (wg_chunk_ids gen)"
  proof
    fix oi assume "oi \<in> set (map snd sched)"
    then obtain t where "(t, oi) \<in> set sched" by auto
    then have "\<not> no_cold_chunk cfg gen (oi_u oi) \<and> (\<forall>k. 0 \<le> k \<longrightarrow> 0 \<le> oi_draw oi k \<and> oi_draw oi k \<le> k)" using inputs by auto
    then show "\<exists>c t. pick_chunk pow_fn gen (oi_u oi) (oi_draw oi) = Inr (c, t) \<and> c \<in> set (wg_chunk_ids gen)"
      by (rule pick_some_chunk [OF new n])
  qed
  have f: "efold (\<lambda>(t, oi). worker_step pow_fn svc gen payload oi) sched = efold (worker_step pow_fn svc gen payload) (map snd sched)"
    using efold_map [of "worker_step pow_fn svc gen payload" snd sched] by (simp add: split_beta')
  obtain cl' tr' s' rs where r: "efold (worker_step pow_fn svc gen payload) (map snd sched) (cl, tr, preload svc gen payload pre s) = Inr (cl', tr', s')"
      "tr' = fold record_op rs tr" "length rs = length (map snd sched)" "or_chunk_id ` set rs \<subseteq> set (wg_chunk_ids gen)"
    using worker_steps_records [OF pick] by blast
  have "0 \<le> wc_num_ops cfg div max 1 (wc_threads cfg)" using ops by (intro pos_imp_zdiv_nonneg_iff [THEN iffD2]) auto
  then have "\<forall>x \<in> set ?ops. 0 \<le> x" using worker_ops_total(2) [OF ops, of "wc_threads cfg"] by fastforce
  then have "length sched = nat (wc_num_ops cfg)"
    using schedule_length [OF sched] sum_list_nat [of ?ops] worker_ops_total(1) [OF ops, of "wc_threads cfg"] by simp
  then have "int (length rs) = wc_num_ops cfg" using r(3) ops by simp
  moreover have "gen_run pow_fn svc gen pre sched (cl, tr, s) = Inr (cl', tr', s')" using r(1) mp f by (simp add: gen_run_def)
  ultimately show ?thesis using r(2,4) by blast
qed

theorem workload_run_complete_witness:
  "\<exists>gen cl' tr' s'. new_workload_gen (\<lambda>x y. x) (default_workload_config\<lparr>wc_num_chunks := 1, wc_chunk_size_kb := 0, wc_num_ops := 1\<rparr>) = Inr gen \<and>
     gen_run (\<lambda>x y. x) demo_service gen (\<lambda>_. demo_input) [(0, demo_input)] (\<lparr>nc_node_addrs = [], nc_stubs = []\<rparr>, new_tracer True, demo_committed) =
       Inr (cl', tr', s') \<and> length (tr_records tr') = 1"
proof -
  let ?cfg = "default_workload_config\<lparr>wc_num_chunks := 1, wc_chunk_size_kb := 0, wc_num_ops := 1\<rparr>"
  obtain gen where gen: "new_workload_gen (\<lambda>x y. x) ?cfg = Inr gen"
    by (simp add: new_workload_gen_def Let_def default_workload_config_def)
  have "0 < fl64 (8 / 10)" by code_simp
  then have inp: "\<forall>(t, oi) \<in> set [(0 :: nat, demo_input)]. \<not> no_cold_chunk ?cfg gen (oi_u oi) \<and> (\<forall>k. 0 \<le> k \<longrightarrow> 0 \<le> oi_draw oi k \<and> oi_draw oi k \<le> k)"
    by (simp add: no_cold_chunk_def default_workload_config_def demo_input_def)
  have "worker_ops 4 1 = [1, 0, 0, 0]" by code_simp
  then have sched: "is_schedule (worker_ops (wc_threads ?cfg) (wc_num_ops ?cfg)) [(0, demo_input)]"
    by (simp add: default_workload_config_def is_schedule_def upt_rec)
  have nums: "1 \<le> wc_num_chunks ?cfg" "wc_num_chunks ?cfg < 2 ^ 31" "0 \<le> wc_chunk_size_kb ?cfg" "0 \<le> wc_num_ops ?cfg"
    by (simp_all add: default_workload_config_def)
  obtain cl' tr' s' rs where "gen_run (\<lambda>x y. x) demo_service gen (\<lambda>_. demo_input) [(0, demo_input)]
      (\<lparr>nc_node_addrs = [], nc_stubs = []\<rparr>, new_tracer True, demo_committed) = Inr (cl', tr', s')"
      "tr' = fold record_op rs (new_tracer True)" "int (length rs) = wc_num_ops ?cfg"
    using workload_run_complete [OF gen nums sched inp, of demo_service "\<lambda>_. demo_input" "\<lparr>nc_node_addrs = [], nc_stubs = []\<rparr>" "new_tracer True" demo_committed]
    by blast
  then show ?thesis using gen by (simp add: new_tracer_def record_ops)
qed

end
