(* ===== verification/Workload_Runner.thy ===== *)
theory Workload_Runner
  imports Workload_Gen Nimbus_Cli
begin

text \<open>
  The benchmark program, \<^verbatim>\<open>src/bin/workload_runner.cpp\<close>: its options, the run of one workload or of
  two for a comparison, the names of the output files and what is printed. The lemmas show that the two
  passes of a comparison are the same workload, and which arguments are lost.
\<close>

section \<open>Options\<close>

text \<open>\<^verbatim>\<open>std::stod\<close> on decimal notation, as \<open>stof\<close>.\<close>

definition stod :: "string \<Rightarrow> cxx_exc + float64" where
  "stod s = (case scan_decimal s of None \<Rightarrow> Inl Invalid_argument
     | Some v \<Rightarrow> if v = 0 then Inr 0
                 else if \<bar>v\<bar> < pow2 (- 1022) \<or> pow2 1024 \<le> \<bar>fl64 v\<bar> then Inl Out_of_range
                 else Inr (fl64 v))"

record runner_opts =
  ro_cfg :: workload_config
  ro_nodes_str :: string
  ro_output :: string

definition default_runner_opts :: runner_opts where
  "default_runner_opts = \<lparr>ro_cfg = default_workload_config, ro_nodes_str = [], ro_output = ''results.csv''\<rparr>"

definition with_cfg :: "runner_opts \<Rightarrow> (workload_config \<Rightarrow> workload_config) \<Rightarrow> runner_opts" where
  "with_cfg ro f = ro\<lparr>ro_cfg := f (ro_cfg ro)\<rparr>"

definition runner_option :: "string \<Rightarrow> string \<Rightarrow> runner_opts \<Rightarrow> cxx_exc + runner_opts" where
  "runner_option key val ro =
     (if key = ''--meta'' then Inr (with_cfg ro (wc_meta_addr_update (\<lambda>_. val)))
      else if key = ''--nodes'' then Inr (ro\<lparr>ro_nodes_str := val\<rparr>)
      else if key = ''--mode'' then Inr (with_cfg ro (wc_mode_update (\<lambda>_. val)))
      else if key = ''--chunks'' then ebind (stoi val) (\<lambda>n. Inr (with_cfg ro (wc_num_chunks_update (\<lambda>_. n))))
      else if key = ''--ops'' then ebind (stoi val) (\<lambda>n. Inr (with_cfg ro (wc_num_ops_update (\<lambda>_. n))))
      else if key = ''--chunk-size'' then ebind (stoi val) (\<lambda>n. Inr (with_cfg ro (wc_chunk_size_kb_update (\<lambda>_. n))))
      else if key = ''--write-ratio'' then ebind (stod val) (\<lambda>x. Inr (with_cfg ro (wc_write_ratio_update (\<lambda>_. x))))
      else if key = ''--hot-fraction'' then ebind (stod val) (\<lambda>x. Inr (with_cfg ro (wc_hot_fraction_update (\<lambda>_. x))))
      else if key = ''--threads'' then ebind (stoi val) (\<lambda>n. Inr (with_cfg ro (wc_threads_update (\<lambda>_. n))))
      else if key = ''--desired-rf'' then ebind (stoi val) (\<lambda>n. Inr (with_cfg ro (wc_desired_rf_update (\<lambda>_. n))))
      else if key = ''--distribution'' then Inr (with_cfg ro (wc_distribution_update (\<lambda>_. val)))
      else if key = ''--zipf-theta'' then ebind (stod val) (\<lambda>x. Inr (with_cfg ro (wc_zipf_theta_update (\<lambda>_. x))))
      else if key = ''--output'' then Inr (ro\<lparr>ro_output := val\<rparr>)
      else Inr ro)"

text \<open>
  The loop: an argument with an equals sign carries its value, any other takes the next argument, the
  last one an empty text.
\<close>

fun runner_args :: "string list \<Rightarrow> runner_opts \<Rightarrow> cxx_exc + runner_opts" where
  "runner_args [] ro = Inr ro"
| "runner_args [a] ro = (case find_char CHR ''='' a of
     Some eq \<Rightarrow> runner_option (take eq a) (drop (eq + 1) a) ro
   | None \<Rightarrow> runner_option a [] ro)"
| "runner_args (a # v # rest) ro = (case find_char CHR ''='' a of
     Some eq \<Rightarrow> ebind (runner_option (take eq a) (drop (eq + 1) a) ro) (\<lambda>ro1. runner_args (v # rest) ro1)
   | None \<Rightarrow> ebind (runner_option a v ro) (\<lambda>ro1. runner_args rest ro1))"

definition runner_config :: "string list \<Rightarrow> cxx_exc + runner_opts" where
  "runner_config args = ebind (runner_args args default_runner_opts) (\<lambda>ro.
     Inr (if ro_nodes_str ro \<noteq> [] then with_cfg ro (wc_node_addrs_update (\<lambda>_. parse_nodes (ro_nodes_str ro))) else ro))"

section \<open>Passes\<close>

text \<open>What the operations of one pass find.\<close>

record 'db pass_input =
  pi_pre :: "string \<Rightarrow> 'db op_input"
  pi_sched :: "(nat \<times> 'db op_input) list"

text \<open>
  A workload with a tracer and a generator of its own: the summary it prints, the statistics, the file and
  the servers after it. \<open>opened\<close> tells whether the file of that name can be opened.
\<close>

type_synonym 'db pass_result = "string \<times> summary_stats \<times> string option \<times> 'db rpc_state"

definition run_workload :: "(float64 \<Rightarrow> float64 \<Rightarrow> float64) \<Rightarrow> (string \<Rightarrow> rpc_service) \<Rightarrow> (string \<Rightarrow> bool) \<Rightarrow> 'db pass_input \<Rightarrow>
     workload_config \<Rightarrow> string \<Rightarrow> 'db rpc_state \<Rightarrow> cxx_exc + 'db pass_result" where
  "run_workload pow_fn servers opened pin cfg csv_path s =
     ebind (new_workload_gen pow_fn cfg) (\<lambda>gen.
     ebind (gen_run pow_fn (servers (wc_meta_addr cfg)) gen (pi_pre pin) (pi_sched pin)
              (\<lparr>nc_node_addrs = wc_node_addrs cfg, nc_stubs = []\<rparr>, new_tracer (opened csv_path), s)) (\<lambda>(cl, tr, s1).
       Inr (print_summary tr, get_stats tr, tr_file tr, s1)))"

definition run_pass :: "(float64 \<Rightarrow> float64 \<Rightarrow> float64) \<Rightarrow> (string \<Rightarrow> rpc_service) \<Rightarrow> (string \<Rightarrow> bool) \<Rightarrow> 'db pass_input \<Rightarrow>
     workload_config \<Rightarrow> string \<Rightarrow> string \<Rightarrow> 'db rpc_state \<Rightarrow> cxx_exc + 'db pass_result" where
  "run_pass pow_fn servers opened pin cfg csv_path label s =
     ebind (run_workload pow_fn servers opened pin cfg csv_path s) (\<lambda>(text, stats, file, s1).
       Inr (nl @ ''--- Running '' @ label @ '' ---'' @ nl @ text, stats, file, s1))"

section \<open>The comparison\<close>

definition err_pct :: "summary_stats \<Rightarrow> float64" where
  "err_pct s = (if ss_total_ops s \<noteq> 0
     then fl64 (fl64 (100 * fl64 (of_nat (ss_errors s))) / fl64 (of_nat (ss_total_ops s))) else 0)"

definition set_width :: "nat \<Rightarrow> string \<Rightarrow> string" where
  "set_width w t = t @ replicate (w - length t) CHR '' ''"

definition comparison_row :: "string \<Rightarrow> string \<Rightarrow> string \<Rightarrow> string" where
  "comparison_row name va vb = set_width 22 name @ set_width 14 va @ set_width 14 vb @ nl"

definition comparison_text :: "string \<Rightarrow> summary_stats \<Rightarrow> string \<Rightarrow> summary_stats \<Rightarrow> string" where
  "comparison_text label_a a label_b b =
     (let row = comparison_row;
          errs = (\<lambda>s. dec_of_nat (ss_errors s) @ '' ('' @ to_string_int (int_of_double (err_pct s)) @ ''%)'')
      in nl @ ''========== Mode Comparison =========='' @ nl @
         row ''Metric'' label_a label_b @ replicate 50 CHR ''-'' @ nl @
         row ''Total ops'' (dec_of_nat (ss_total_ops a)) (dec_of_nat (ss_total_ops b)) @
         row ''Errors (%)'' (errs a) (errs b) @
         row ''Throughput (ops/s)'' (to_string_int (int_of_double (ss_throughput_ops_per_s a))) (to_string_int (int_of_double (ss_throughput_ops_per_s b))) @
         row ''p50 latency (us)'' (to_string_u64 (ss_p50_us a)) (to_string_u64 (ss_p50_us b)) @
         row ''p95 latency (us)'' (to_string_u64 (ss_p95_us a)) (to_string_u64 (ss_p95_us b)) @
         row ''p99 latency (us)'' (to_string_u64 (ss_p99_us a)) (to_string_u64 (ss_p99_us b)) @
         row ''PUT MB/s'' (take 5 (to_string_float (ss_put_mb_per_s a))) (take 5 (to_string_float (ss_put_mb_per_s b))) @
         row ''GET MB/s'' (take 5 (to_string_float (ss_get_mb_per_s a))) (take 5 (to_string_float (ss_get_mb_per_s b))) @
         ''====================================='' @ nl)"

definition baseline_config :: "workload_config \<Rightarrow> workload_config" where
  "baseline_config cfg = cfg\<lparr>wc_mode := ''baseline'', wc_desired_rf := 3\<rparr>"

definition adaptive_config :: "workload_config \<Rightarrow> workload_config" where
  "adaptive_config cfg = cfg\<lparr>wc_mode := ''adaptive''\<rparr>"

text \<open>The names of the two files.\<close>

definition output_names :: "string \<Rightarrow> string \<times> string" where
  "output_names output =
     (let dot = rfind_char CHR ''.'' output;
          stem = (case dot of Some d \<Rightarrow> take d output | None \<Rightarrow> output);
          ext = (case dot of Some d \<Rightarrow> drop d output | None \<Rightarrow> ''.csv'')
      in (stem @ ''_baseline'' @ ext, stem @ ''_adaptive'' @ ext))"

text \<open>\<^verbatim>\<open>main\<close>: standard output, the files with their contents, and the servers; \<open>Inl\<close> is an exception.\<close>

definition runner_main :: "(float64 \<Rightarrow> float64 \<Rightarrow> float64) \<Rightarrow> (string \<Rightarrow> rpc_service) \<Rightarrow> (string \<Rightarrow> bool) \<Rightarrow> 'db pass_input \<Rightarrow> 'db pass_input \<Rightarrow>
     string list \<Rightarrow> 'db rpc_state \<Rightarrow> cxx_exc + string \<times> (string \<times> string option) list \<times> 'db rpc_state" where
  "runner_main pow_fn servers opened pin1 pin2 args s = ebind (runner_config args) (\<lambda>ro.
     let cfg = ro_cfg ro; output = ro_output ro in
     if wc_mode cfg = ''compare''
     then let (file_b, file_a) = output_names output in
          ebind (run_pass pow_fn servers opened pin1 (baseline_config cfg) file_b ''BASELINE'' s) (\<lambda>(text_b, stats_b, csv_b, s1).
          ebind (run_pass pow_fn servers opened pin2 (adaptive_config cfg) file_a ''ADAPTIVE'' s1) (\<lambda>(text_a, stats_a, csv_a, s2).
            Inr (text_b @ text_a @ comparison_text ''BASELINE'' stats_b ''ADAPTIVE'' stats_a, [(file_b, csv_b), (file_a, csv_a)], s2)))
     else ebind (run_workload pow_fn servers opened pin1 cfg output s) (\<lambda>(text, stats, csv, s1).
            Inr (''Starting workload: mode='' @ wc_mode cfg @ '', ops='' @ to_string_int (wc_num_ops cfg) @ '', chunks='' @
                 to_string_int (wc_num_chunks cfg) @ '', rf='' @ to_string_int (wc_desired_rf cfg) @ nl @ text, [(output, csv)], s1)))"

section \<open>The mode does not matter\<close>

definition gen_with_mode :: "string \<Rightarrow> workload_gen \<Rightarrow> workload_gen" where
  "gen_with_mode m gen = gen\<lparr>wg_cfg := (wg_cfg gen)\<lparr>wc_mode := m\<rparr>\<rparr>"

lemma gen_with_mode_fields [simp]:
  "wg_hot_count (gen_with_mode m gen) = wg_hot_count gen" "wg_cold_count (gen_with_mode m gen) = wg_cold_count gen"
  "wg_zipf_H (gen_with_mode m gen) = wg_zipf_H gen" "wg_chunk_ids (gen_with_mode m gen) = wg_chunk_ids gen"
  "wc_distribution (wg_cfg (gen_with_mode m gen)) = wc_distribution (wg_cfg gen)" "wc_num_chunks (wg_cfg (gen_with_mode m gen)) = wc_num_chunks (wg_cfg gen)"
  "wc_zipf_theta (wg_cfg (gen_with_mode m gen)) = wc_zipf_theta (wg_cfg gen)" "wc_hot_read_weight (wg_cfg (gen_with_mode m gen)) = wc_hot_read_weight (wg_cfg gen)"
  "wc_write_ratio (wg_cfg (gen_with_mode m gen)) = wc_write_ratio (wg_cfg gen)" "wc_desired_rf (wg_cfg (gen_with_mode m gen)) = wc_desired_rf (wg_cfg gen)"
  "wc_chunk_size_kb (wg_cfg (gen_with_mode m gen)) = wc_chunk_size_kb (wg_cfg gen)"
  by (simp_all add: gen_with_mode_def)

lemma pick_chunk_mode: "pick_chunk pow_fn (gen_with_mode m gen) = pick_chunk pow_fn gen"
  by (intro ext) (simp add: pick_chunk_def Let_def)

lemma worker_step_mode: "worker_step pow_fn svc (gen_with_mode m gen) = worker_step pow_fn svc gen"
  by (intro ext) (simp only: worker_step_def gen_with_mode_fields pick_chunk_mode)

lemma preload_mode: "preload svc (gen_with_mode m gen) = preload svc gen"
  by (intro ext) (simp add: preload_def)

lemma gen_run_mode: "gen_run pow_fn svc (gen_with_mode m gen) pre sched st = gen_run pow_fn svc gen pre sched st"
  by (simp add: gen_run_def worker_step_mode preload_mode)

lemma new_gen_mode:
  "new_workload_gen pow_fn (cfg\<lparr>wc_mode := m\<rparr>) = ebind (new_workload_gen pow_fn cfg) (\<lambda>gen. Inr (gen_with_mode m gen))"
  by (simp add: new_workload_gen_def Let_def gen_with_mode_def)

lemma run_workload_mode:
  "run_workload pow_fn servers opened pin (cfg\<lparr>wc_mode := m\<rparr>) path s = run_workload pow_fn servers opened pin cfg path s"
  by (simp add: run_workload_def new_gen_mode ebind_assoc gen_run_mode)

section \<open>Properties\<close>

text \<open>
  The mode of a workload has no effect. A comparison sets it to \<^verbatim>\<open>baseline\<close> for one pass and to
  \<^verbatim>\<open>adaptive\<close> for the other, but both passes are the same function of the servers, the network and
  the draws, unless another replication factor than 3 was asked for: same operations, same statistics,
  same file, same effect on the servers. The mode that matters is that of the metadata server, which
  the program does not set.
\<close>

theorem compare_modes_same:
  assumes "wc_desired_rf cfg = 3"
  shows "run_workload pow_fn servers opened pin (baseline_config cfg) path s = run_workload pow_fn servers opened pin (adaptive_config cfg) path s"
proof -
  have "baseline_config cfg = cfg\<lparr>wc_mode := ''baseline''\<rparr>" using assms by (simp add: baseline_config_def)
  then show ?thesis by (simp add: adaptive_config_def run_workload_mode)
qed

theorem compare_modes_same_witness:
  "run_workload (\<lambda>x y. x) (\<lambda>_. demo_service) (\<lambda>_. True) \<lparr>pi_pre = \<lambda>_. demo_input, pi_sched = [(0, demo_input)]\<rparr>
     (baseline_config default_workload_config) ''r.csv'' demo_committed =
   run_workload (\<lambda>x y. x) (\<lambda>_. demo_service) (\<lambda>_. True) \<lparr>pi_pre = \<lambda>_. demo_input, pi_sched = [(0, demo_input)]\<rparr>
     (adaptive_config default_workload_config) ''r.csv'' demo_committed"
  by (rule compare_modes_same) (simp add: default_workload_config_def)

lemma get_stats_total: "ss_total_ops (get_stats tr) = length (tr_records tr)"
  by (simp add: get_stats_def empty_stats_def Let_def)

text \<open>
  A workload reports what it did: with at least one chunk, a size and a number of operations that
  are not negative, and draws that can be satisfied, the program completes in every interleaving of its
  threads; the reported number of operations is the one asked for, and the file, if it could be
  opened, has the heading and one row for each operation, each on a chunk of the workload.
\<close>

theorem workload_report:
  assumes new: "new_workload_gen pow_fn cfg = Inr gen" and n: "1 \<le> wc_num_chunks cfg" "wc_num_chunks cfg < 2 ^ 31"
    and kb: "0 \<le> wc_chunk_size_kb cfg" and ops: "0 \<le> wc_num_ops cfg"
    and sched: "is_schedule (worker_ops (wc_threads cfg) (wc_num_ops cfg)) (pi_sched pin)"
    and inputs: "\<forall>(t, oi) \<in> set (pi_sched pin). \<not> no_cold_chunk cfg gen (oi_u oi) \<and> (\<forall>k. 0 \<le> k \<longrightarrow> 0 \<le> oi_draw oi k \<and> oi_draw oi k \<le> k)"
  shows "\<exists>out stats csv s' rs. run_workload pow_fn servers opened pin cfg path s = Inr (out, stats, csv, s') \<and>
    int (length rs) = wc_num_ops cfg \<and> int (ss_total_ops stats) = wc_num_ops cfg \<and>
    ss_errors stats = length (filter (\<lambda>r. \<not> or_ok r) rs) \<and> or_chunk_id ` set rs \<subseteq> set (wg_chunk_ids gen) \<and>
    csv = (if opened path then Some (''timestamp_us,op_type,chunk_id,latency_us,ok,bytes,tier'' @ nl @ concat (map (\<lambda>r. csv_row r @ nl) rs)) else None)"
proof -
  obtain cl' tr' s' rs where r: "gen_run pow_fn (servers (wc_meta_addr cfg)) gen (pi_pre pin) (pi_sched pin)
      (\<lparr>nc_node_addrs = wc_node_addrs cfg, nc_stubs = []\<rparr>, new_tracer (opened path), s) = Inr (cl', tr', s')"
      "tr' = fold record_op rs (new_tracer (opened path))" "int (length rs) = wc_num_ops cfg" "or_chunk_id ` set rs \<subseteq> set (wg_chunk_ids gen)"
    using workload_run_complete [OF new n kb ops sched inputs] by blast
  have recs: "tr_records tr' = rs" by (simp add: r(2) record_ops new_tracer_def)
  have "ss_errors (get_stats tr') = length (filter (\<lambda>r. \<not> or_ok r) rs)"
    using recs stats_errors by (cases "rs = []") (simp_all add: get_stats_def Let_def empty_stats_def)
  moreover have "tr_file tr' = (if opened path then Some (''timestamp_us,op_type,chunk_id,latency_us,ok,bytes,tier'' @ nl @ concat (map (\<lambda>r. csv_row r @ nl) rs)) else None)"
    by (simp add: r(2) record_ops new_tracer_def)
  moreover have "run_workload pow_fn servers opened pin cfg path s = Inr (print_summary tr', get_stats tr', tr_file tr', s')"
    using new r(1) by (simp add: run_workload_def)
  ultimately show ?thesis using r(3,4) recs get_stats_total [of tr'] by fastforce
qed

theorem workload_report_witness:
  "\<exists>out stats csv s'. run_workload (\<lambda>x y. x) (\<lambda>_. demo_service) (\<lambda>_. True) \<lparr>pi_pre = \<lambda>_. demo_input, pi_sched = [(0, demo_input)]\<rparr>
     (default_workload_config\<lparr>wc_num_chunks := 1, wc_chunk_size_kb := 0, wc_num_ops := 1\<rparr>) ''r.csv'' demo_committed = Inr (out, stats, csv, s') \<and>
     ss_total_ops stats = 1"
proof -
  let ?cfg = "default_workload_config\<lparr>wc_num_chunks := 1, wc_chunk_size_kb := 0, wc_num_ops := 1\<rparr>"
  let ?pin = "\<lparr>pi_pre = \<lambda>_. demo_input, pi_sched = [(0, demo_input)]\<rparr>"
  obtain gen where gen: "new_workload_gen (\<lambda>x y. x) ?cfg = Inr gen"
    by (simp add: new_workload_gen_def Let_def default_workload_config_def)
  have "0 < fl64 (8 / 10)" by code_simp
  then have inp: "\<forall>(t, oi) \<in> set (pi_sched ?pin). \<not> no_cold_chunk ?cfg gen (oi_u oi) \<and> (\<forall>k. 0 \<le> k \<longrightarrow> 0 \<le> oi_draw oi k \<and> oi_draw oi k \<le> k)"
    by (simp add: no_cold_chunk_def default_workload_config_def demo_input_def)
  have "worker_ops 4 1 = [1, 0, 0, 0]" by code_simp
  then have sched: "is_schedule (worker_ops (wc_threads ?cfg) (wc_num_ops ?cfg)) (pi_sched ?pin)"
    by (simp add: default_workload_config_def is_schedule_def upt_rec)
  have nums: "1 \<le> wc_num_chunks ?cfg" "wc_num_chunks ?cfg < 2 ^ 31" "0 \<le> wc_chunk_size_kb ?cfg" "0 \<le> wc_num_ops ?cfg" "wc_num_ops ?cfg = 1"
    by (simp_all add: default_workload_config_def)
  obtain out stats csv s' rs where r: "run_workload (\<lambda>x y. x) (\<lambda>_. demo_service) (\<lambda>_. True) ?pin ?cfg ''r.csv'' demo_committed = Inr (out, stats, csv, s')"
      "int (ss_total_ops stats) = wc_num_ops ?cfg"
    using workload_report [OF gen nums(1-4) sched inp, of "\<lambda>_. demo_service" "\<lambda>_. True" "''r.csv''" demo_committed] by blast
  have "ss_total_ops stats = 1" using r(2) nums(5) by simp
  then show ?thesis using r(1) by blast
qed

text \<open>An option can be written with an equals sign or as two arguments.\<close>

lemma find_eq_sign: "CHR ''='' \<notin> set a \<Longrightarrow> find_char CHR ''='' (a @ ''='' @ v) = Some (length a)"
  using find_char_append [of "CHR ''=''" a v] by simp

theorem option_forms_agree:
  assumes "CHR ''='' \<notin> set a"
  shows "runner_args (a # v # rest) ro = runner_args ((a @ ''='' @ v) # rest) ro"
proof -
  have none: "find_char CHR ''='' a = None" using assms by (simp add: find_char_None)
  show ?thesis
    by (cases rest; cases "runner_option a v ro") (simp_all only: runner_args.simps none find_eq_sign [OF assms] option.case, simp_all)
qed

text \<open>
  An argument the program does not know swallows the next one: the number of operations stays at its
  default here. And a dot in a directory is taken for that of an extension.
\<close>

theorem unknown_argument_swallows_next: "runner_args [''--verbose'', ''--ops=5''] ro = Inr ro"
  by (simp add: runner_option_def find_char_None [THEN iffD2])

theorem dotted_directory_names: "output_names ''../out'' = (''._baseline./out'', ''._adaptive./out'')"
  by code_simp

end
